(* ===== verification/Prelude.thy ===== *)
theory Prelude
  imports Main "HOL-Library.Word" "HOL-Library.Monad_Syntax"
begin

text \<open>
  Shared vocabulary of the development: the machine integer types of \<open>typedefs.h\<close>,
  byte strings, a flat byte-addressed memory for the C functions that work through
  pointers, assertions as values, and byte-order independent views of machine words.
  The component theories add the model of the code on top.
\<close>

unbundle bit_operations_syntax

section \<open>Machine types\<close>

type_synonym u8 = "8 word"
type_synonym u16 = "16 word"
type_synonym u32 = "32 word"
type_synonym u64 = "64 word"
type_synonym bytes = "u8 list"

text \<open>Characters of a C string literal as bytes.\<close>

definition ascii :: "string \<Rightarrow> bytes" where
  "ascii cs = map of_char cs"

lemma ascii_simps [simp]:
  "ascii [] = []" "ascii (c # cs) = of_char c # ascii cs" "ascii (xs @ ys) = ascii xs @ ascii ys"
  by (simp_all add: ascii_def)

lemma length_ascii [simp]: "length (ascii cs) = length cs"
  by (simp add: ascii_def)

section \<open>Fact collections\<close>

named_theorems mem_simps \<open>reading and writing the flat memory\<close>
named_theorems bytes_simps \<open>byte views of machine words\<close>

section \<open>Assertions\<close>

text \<open>
  The \<open>assert\<close> of the C library: \<open>None\<close> is the abort. Every function of the model that
  may reach a failing assertion, or undefined behaviour such as a \<open>memcpy\<close> with a
  negative length, returns an \<open>option\<close> whose \<open>None\<close> is that crash.
\<close>

definition c_assert :: "bool \<Rightarrow> unit option" where
  "c_assert b = (if b then Some () else None)"

lemma c_assert_simps [simp]: "c_assert True = Some ()" "c_assert False = None"
  by (simp_all add: c_assert_def)

lemma c_assert_eq_Some [simp]: "c_assert b = Some u \<longleftrightarrow> b"
  by (simp add: c_assert_def)

text \<open>
  C's \<open>&&\<close> (and the early \<open>return 0\<close>) between operations that return a truth value and change
  a state: the second runs only if the first succeeded.
\<close>

definition c_and :: "(bool \<times> 's) option \<Rightarrow> ('s \<Rightarrow> (bool \<times> 's) option) \<Rightarrow> (bool \<times> 's) option" where
  "c_and r f =
     (case r of None \<Rightarrow> None | Some (ok, s) \<Rightarrow> if ok then f s else Some (False, s))"

lemma c_and_simps [simp]:
  "c_and None f = None" "c_and (Some (True, s)) f = f s" "c_and (Some (False, s)) f = Some (False, s)"
  by (simp_all add: c_and_def)

section \<open>A flat memory\<close>

text \<open>
  Addresses are natural numbers, so pointer comparisons and sums are those of a memory
  whose objects do not wrap around the address space. \<open>mread\<close> and \<open>mwrite\<close> are the two
  halves of a \<open>memcpy\<close>.
\<close>

type_synonym addr = nat
type_synonym mem = "addr \<Rightarrow> u8"

definition mread :: "mem \<Rightarrow> addr \<Rightarrow> nat \<Rightarrow> bytes" where
  "mread m a n = map m [a..<a + n]"

definition mwrite :: "mem \<Rightarrow> addr \<Rightarrow> bytes \<Rightarrow> mem" where
  "mwrite m a bs = (\<lambda>x. if a \<le> x \<and> x < a + length bs then bs ! (x - a) else m x)"

lemma length_mread [simp]: "length (mread m a n) = n"
  by (simp add: mread_def)

lemma mread_0 [simp]: "mread m a 0 = []"
  by (simp add: mread_def)

lemma mwrite_Nil [simp]: "mwrite m a [] = m"
  by (rule ext) (auto simp: mwrite_def)

lemma nth_mread [simp]: "i < n \<Longrightarrow> mread m a n ! i = m (a + i)"
  by (simp add: mread_def)

lemma mread_eqI: "(\<And>i. i < n \<Longrightarrow> m (a + i) = m' (b + i)) \<Longrightarrow> mread m a n = mread m' b n"
  by (rule nth_equalityI) simp_all

lemma mread_Suc: "mread m a (Suc n) = m a # mread m (Suc a) n"
  by (simp only: mread_def add_Suc_right upt_conv_Cons add_Suc list.map less_Suc_eq_le le_add1)

lemma mread_add: "mread m a (n + k) = mread m a n @ mread m (a + n) k"
  by (rule nth_equalityI) (auto simp: nth_append)

lemma take_mread [simp]: "take k (mread m a n) = mread m a (min k n)"
  by (rule nth_equalityI) auto

lemma drop_mread [simp]: "drop k (mread m a n) = mread m (a + k) (n - k)"
  by (rule nth_equalityI) (auto simp: add.assoc)

lemma mwrite_outside [mem_simps]: "x < a \<or> a + length bs \<le> x \<Longrightarrow> mwrite m a bs x = m x"
  by (auto simp: mwrite_def)

lemma mwrite_inside [mem_simps]: "i < length bs \<Longrightarrow> mwrite m a bs (a + i) = bs ! i"
  by (simp add: mwrite_def)

lemma mread_mwrite_same [simp]: "n = length bs \<Longrightarrow> mread (mwrite m a bs) a n = bs"
  by (rule nth_equalityI) (auto simp: mwrite_def)

lemma mread_mwrite_slice [mem_simps]:
  "i + n \<le> length bs \<Longrightarrow> mread (mwrite m a bs) (a + i) n = take n (drop i bs)"
  by (rule nth_equalityI) (auto simp: mwrite_def add.assoc)

lemma mread_mwrite_disjoint [mem_simps]:
  "b + n \<le> a \<or> a + length bs \<le> b \<Longrightarrow> mread (mwrite m a bs) b n = mread m b n"
  by (rule mread_eqI) (auto simp: mwrite_def)

lemma mwrite_mwrite_append [mem_simps]:
  "mwrite (mwrite m a xs) (a + length xs) ys = mwrite m a (xs @ ys)"
  by (rule ext) (auto simp: mwrite_def nth_append)

lemma mwrite_mread [simp]: "mwrite m a (mread m a n) = m"
  by (rule ext) (auto simp: mwrite_def)

section \<open>Bytes of a machine word\<close>

text \<open>
  \<open>le_bytes n w\<close> are the \<open>n\<close> low bytes of \<open>w\<close>, least significant first; \<open>be_bytes\<close> lists
  them most significant first; \<open>le_word\<close> and \<open>be_word\<close> are the readings back.
\<close>

definition le_bytes :: "nat \<Rightarrow> 'a::len word \<Rightarrow> bytes" where
  "le_bytes n w = map (\<lambda>i. ucast (drop_bit (8 * i) w)) [0..<n]"

definition be_bytes :: "nat \<Rightarrow> 'a::len word \<Rightarrow> bytes" where
  "be_bytes n w = rev (le_bytes n w)"

fun le_word :: "bytes \<Rightarrow> 'a::len word" where
  "le_word [] = 0"
| "le_word (b # bs) = ucast b OR push_bit 8 (le_word bs)"

definition be_word :: "bytes \<Rightarrow> 'a::len word" where
  "be_word bs = le_word (rev bs)"

lemma length_le_bytes [simp]: "length (le_bytes n w) = n"
  by (simp add: le_bytes_def)

lemma length_be_bytes [simp]: "length (be_bytes n w) = n"
  by (simp add: be_bytes_def)

lemma nth_le_bytes [simp]: "i < n \<Longrightarrow> le_bytes n w ! i = ucast (drop_bit (8 * i) w)"
  by (simp add: le_bytes_def)

lemma bit_le_word:
  "bit (le_word bs :: 'a::len word) n \<longleftrightarrow>
     n < LENGTH('a) \<and> n div 8 < length bs \<and> bit (bs ! (n div 8)) (n mod 8)"
proof (induction bs arbitrary: n)
  case Nil
  then show ?case by simp
next
  case (Cons b bs)
  show ?case
  proof (cases "n < 8")
    case True
    then show ?thesis
      by (auto simp: bit_or_iff bit_push_bit_iff bit_ucast_iff dest: bit_imp_le_length)
  next
    case False
    then obtain k where k: "n = 8 + k" by (metis le_add_diff_inverse not_less)
    have [simp]: "(8 + k) div 8 = Suc (k div 8)" by simp
    have "\<not> bit b (8 + k)" by (auto dest: bit_imp_le_length)
    then show ?thesis
      by (auto simp: k bit_or_iff bit_push_bit_iff bit_ucast_iff Cons.IH dest: bit_imp_le_length)
  qed
qed

lemma le_word_le_bytes:
  assumes "LENGTH('a::len) = 8 * n"
  shows "le_word (le_bytes n (w :: 'a word)) = w"
proof (rule bit_word_eqI)
  fix i assume "i < LENGTH('a)"
  with assms have "i div 8 < n" by auto
  moreover have "8 * (i div 8) + i mod 8 = i" by simp
  ultimately show "bit (le_word (le_bytes n w) :: 'a word) i = bit w i"
    using \<open>i < LENGTH('a)\<close>
    by (simp add: bit_le_word bit_ucast_iff bit_drop_bit_eq)
qed

lemma le_bytes_le_word:
  assumes "LENGTH('a::len) = 8 * n" "length bs = n"
  shows "le_bytes n (le_word bs :: 'a word) = bs"
proof (rule nth_equalityI)
  show "length (le_bytes n (le_word bs :: 'a word)) = length bs" by (simp add: assms)
next
  fix i assume "i < length (le_bytes n (le_word bs :: 'a word))"
  then have i: "i < n" by simp
  show "le_bytes n (le_word bs :: 'a word) ! i = bs ! i"
  proof (rule bit_word_eqI)
    fix j assume "j < LENGTH(8)"
    with i have "(8 * i + j) div 8 = i" "(8 * i + j) mod 8 = j" "8 * i + j < LENGTH('a)"
      by (auto simp: assms)
    with i assms \<open>j < LENGTH(8)\<close> show "bit (le_bytes n (le_word bs :: 'a word) ! i) j = bit (bs ! i) j"
      by (simp add: bit_ucast_iff bit_drop_bit_eq bit_le_word)
  qed
qed

lemma be_word_be_bytes:
  "LENGTH('a::len) = 8 * n \<Longrightarrow> be_word (be_bytes n (w :: 'a word)) = w"
  by (simp add: be_word_def be_bytes_def le_word_le_bytes)

lemma be_bytes_be_word:
  "LENGTH('a::len) = 8 * n \<Longrightarrow> length bs = n \<Longrightarrow> be_bytes n (be_word bs :: 'a word) = bs"
  by (simp add: be_word_def be_bytes_def le_bytes_le_word)

lemma be_bytes_inject:
  "LENGTH('a::len) = 8 * n \<Longrightarrow> be_bytes n (v :: 'a word) = be_bytes n w \<longleftrightarrow> v = w"
  by (metis be_word_be_bytes)

lemma le_bytes_0 [simp]: "le_bytes n 0 = replicate n 0"
  by (rule nth_equalityI) auto

lemma be_bytes_0 [simp]: "be_bytes n 0 = replicate n 0"
  by (simp add: be_bytes_def)

text \<open>Words wider than the bytes read, and the sums of shifted bytes the C code writes.\<close>

lemma le_word_le_bytes_take:
  "le_word (le_bytes n (w :: 'b::len word)) = (ucast (take_bit (8 * n) w) :: 'a::len word)"
proof (rule bit_word_eqI)
  fix i assume "i < LENGTH('a)"
  moreover have "8 * (i div 8) + i mod 8 = i" by simp
  moreover have "i div 8 < n \<longleftrightarrow> i < 8 * n" by auto
  ultimately show "bit (le_word (le_bytes n w) :: 'a word) i = bit (ucast (take_bit (8 * n) w) :: 'a word) i"
    by (auto simp: bit_le_word bit_ucast_iff bit_drop_bit_eq bit_take_bit_iff dest: bit_imp_le_length)
qed

lemma be_word_be_bytes_take:
  "be_word (be_bytes n (w :: 'b::len word)) = (ucast (take_bit (8 * n) w) :: 'a::len word)"
  by (simp add: be_word_def be_bytes_def le_word_le_bytes_take)

lemma le_bytes_le_word_wide:
  assumes "8 * n \<le> LENGTH('a::len)" "length bs = n"
  shows "le_bytes n (le_word bs :: 'a word) = bs"
proof (rule nth_equalityI)
  show "length (le_bytes n (le_word bs :: 'a word)) = length bs" by (simp add: assms)
next
  fix i assume "i < length (le_bytes n (le_word bs :: 'a word))"
  then have i: "i < n" by simp
  show "le_bytes n (le_word bs :: 'a word) ! i = bs ! i"
  proof (rule bit_word_eqI)
    fix j assume "j < LENGTH(8)"
    with i have "(8 * i + j) div 8 = i" "(8 * i + j) mod 8 = j" "8 * i + j < LENGTH('a)"
      using assms by auto
    with i assms \<open>j < LENGTH(8)\<close> show "bit (le_bytes n (le_word bs :: 'a word) ! i) j = bit (bs ! i) j"
      by (simp add: bit_ucast_iff bit_drop_bit_eq bit_le_word)
  qed
qed

lemma be_bytes_be_word_wide:
  "8 * n \<le> LENGTH('a::len) \<Longrightarrow> length bs = n \<Longrightarrow> be_bytes n (be_word bs :: 'a word) = bs"
  by (simp add: be_word_def be_bytes_def le_bytes_le_word_wide)

lemma le_word_Cons_plus: "le_word (b # bs) = (ucast b + push_bit 8 (le_word bs) :: 'a::len word)"
proof -
  have "(ucast b AND push_bit 8 (le_word bs) :: 'a word) = 0"
    by (rule bit_word_eqI) (auto simp: bit_and_iff bit_push_bit_iff bit_ucast_iff dest: bit_imp_le_length)
  then show ?thesis by (simp add: disjunctive_add_eq_or)
qed

lemma unat_two_power: "n < LENGTH('a) \<Longrightarrow> unat (2 ^ n :: 'a::len word) = 2 ^ n"
  by (metis of_nat_numeral of_nat_power power_strict_increasing_iff one_less_numeral_iff semiring_norm(76)
      take_bit_nat_eq_self unsigned_of_nat)

lemma take_bit_word_self_iff:
  assumes "n < LENGTH('a)"
  shows "take_bit n (w :: 'a::len word) = w \<longleftrightarrow> w < 2 ^ n"
proof -
  have "take_bit n w = w \<longleftrightarrow> take_bit n (unat w) = unat w"
    by (metis unsigned_take_bit_eq unsigned_word_eqI)
  then show ?thesis
    by (simp add: word_less_nat_alt unat_two_power [OF assms] take_bit_nat_eq_self_iff)
qed

lemma le_word_less:
  assumes "length bs * 8 = k" "k < LENGTH('a)"
  shows "(le_word bs :: 'a::len word) < 2 ^ k"
proof -
  have "take_bit k (le_word bs :: 'a word) = le_word bs"
    by (rule bit_word_eqI) (use assms in \<open>auto simp: bit_take_bit_iff bit_le_word\<close>)
  then show ?thesis using take_bit_word_self_iff [OF assms(2)] by blast
qed

lemma drop_bit_word_0_iff: "n < LENGTH('a) \<Longrightarrow> drop_bit n (w :: 'a::len word) = 0 \<longleftrightarrow> w < 2 ^ n"
  by (simp add: take_bit_eq_self_iff_drop_bit_eq_0 [symmetric] take_bit_word_self_iff)

section \<open>Copying into an array held as a list\<close>

text \<open>\<open>patch xs i ys\<close> is \<open>xs\<close> after \<open>memcpy (xs + i, ys, length ys)\<close>.\<close>

definition patch :: "'a list \<Rightarrow> nat \<Rightarrow> 'a list \<Rightarrow> 'a list" where
  "patch xs i ys = take i xs @ ys @ drop (i + length ys) xs"

lemma length_patch [simp]: "i + length ys \<le> length xs \<Longrightarrow> length (patch xs i ys) = length xs"
  by (simp add: patch_def)

lemma take_patch: "n = i + length ys \<Longrightarrow> i \<le> length xs \<Longrightarrow> take n (patch xs i ys) = take i xs @ ys"
  by (simp add: patch_def)

section \<open>Bits of a number in a word\<close>

lemma bit_of_nat_word: "bit (of_nat n :: 'a::len word) i \<longleftrightarrow> i < LENGTH('a) \<and> bit n i"
  using bit_word_of_int_iff [of "int n" i, where 'a = 'a] by (simp add: bit_of_nat_iff_bit)

section \<open>Rotations\<close>

lemma rotr_or_shifts:
  assumes "0 < n" "n < LENGTH('a::len)" "k = LENGTH('a) - n"
  shows "drop_bit n (x :: 'a word) OR push_bit k x = word_rotr n x"
proof (rule bit_word_eqI)
  fix i assume i: "i < LENGTH('a)"
  show "bit (drop_bit n x OR push_bit k x) i = bit (word_rotr n x) i"
  proof (cases "n + i < LENGTH('a)")
    case True
    then have "\<not> k \<le> i" using assms by linarith
    with True i assms(1,2) show ?thesis
      by (simp add: bit_or_iff bit_drop_bit_eq bit_push_bit_iff bit_word_rotr_iff add.commute [of n])
  next
    case False
    with i assms have "(i + n) mod LENGTH('a) = i - k"
      by (simp add: mod_if)
    moreover from False have "\<not> bit x (n + i)" by (auto dest: bit_imp_le_length)
    moreover have "i - k = i + n - LENGTH('a)" "k \<le> i" using assms False by linarith+
    ultimately show ?thesis using i assms(1,2)
      by (simp add: bit_or_iff bit_drop_bit_eq bit_push_bit_iff bit_word_rotr_iff)
  qed
qed

end
