(* ===== verification/Endian.thy ===== *)
theory Endian
  imports Prelude
begin

text \<open>
  \<open>endian.h\<close>: the byte-swap macros and the \<open>cpu_to_*\<close> / \<open>*_to_cpu\<close> conversions, for both
  values of the configuration switch \<open>HAVE_LITTLE_ENDIAN\<close> / \<open>HAVE_BIG_ENDIAN\<close>, and the
  bytes an integer object has in memory on such a host. The lemmas show that the bytes
  that reach the wire do not depend on the host.
\<close>

section \<open>The host's byte order\<close>

text \<open>
  \<open>config.h\<close> is generated by \<open>configurator.c\<close>; its endianness switch is a parameter of the
  model. \<open>host_bytes\<close> is what a \<open>memcpy\<close> out of an integer object copies, \<open>host_word\<close> the
  integer whose object has these bytes.
\<close>

datatype byte_order = Little_Endian | Big_Endian

definition host_bytes :: "byte_order \<Rightarrow> nat \<Rightarrow> 'a::len word \<Rightarrow> bytes" where
  "host_bytes bo n w = (case bo of Little_Endian \<Rightarrow> le_bytes n w | Big_Endian \<Rightarrow> be_bytes n w)"

definition host_word :: "byte_order \<Rightarrow> bytes \<Rightarrow> 'a::len word" where
  "host_word bo bs = (case bo of Little_Endian \<Rightarrow> le_word bs | Big_Endian \<Rightarrow> be_word bs)"

text \<open>
  The checks of the preprocessor on the configuration: \<open>None\<close> is \<open>#error\<close>. \<open>predefined\<close> is the value
  of \<open>__BYTE_ORDER\<close> where a system header has defined it; the value is the one of \<open>__BYTE_ORDER\<close>
  after the checks.
\<close>

definition LITTLE_ENDIAN :: int where "LITTLE_ENDIAN = 1234"
definition BIG_ENDIAN :: int where "BIG_ENDIAN = 4321"

definition endian_check :: "bool \<Rightarrow> bool \<Rightarrow> int option \<Rightarrow> int option" where
  "endian_check have_little have_big predefined =
     (if \<not> have_little \<and> \<not> have_big then None
      else if have_little \<and> have_big then None
      else if have_little then
        (case predefined of None \<Rightarrow> Some LITTLE_ENDIAN
         | Some order \<Rightarrow> if order \<noteq> LITTLE_ENDIAN then None else Some order)
      else
        (case predefined of None \<Rightarrow> Some BIG_ENDIAN
         | Some order \<Rightarrow> if order \<noteq> BIG_ENDIAN then None else Some order))"

text \<open>The number that stands for a byte order.\<close>

definition order_code :: "byte_order \<Rightarrow> int" where
  "order_code bo = (case bo of Little_Endian \<Rightarrow> LITTLE_ENDIAN | Big_Endian \<Rightarrow> BIG_ENDIAN)"

lemma endian_check_eq:
  "(endian_check little big predefined = Some (order_code bo)) =
     (little = (bo = Little_Endian) \<and> big = (bo = Big_Endian) \<and> (predefined = None \<or> predefined = Some (order_code bo)))"
  by (cases bo; cases predefined) (auto simp: endian_check_def order_code_def LITTLE_ENDIAN_def BIG_ENDIAN_def)

section \<open>Byte swaps\<close>

definition BSWAP_16 :: "u16 \<Rightarrow> u16" where
  "BSWAP_16 val = (push_bit 8 (val AND 0x00ff)) OR (drop_bit 8 (val AND 0xff00))"

definition BSWAP_32 :: "u32 \<Rightarrow> u32" where
  "BSWAP_32 val =
     (push_bit 24 (val AND 0x000000ff)) OR (push_bit 8 (val AND 0x0000ff00))
     OR (drop_bit 8 (val AND 0x00ff0000)) OR (drop_bit 24 (val AND 0xff000000))"

definition BSWAP_64 :: "u64 \<Rightarrow> u64" where
  "BSWAP_64 val =
     (push_bit 56 (val AND 0x00000000000000ff)) OR (push_bit 40 (val AND 0x000000000000ff00))
     OR (push_bit 24 (val AND 0x0000000000ff0000)) OR (push_bit 8 (val AND 0x00000000ff000000))
     OR (drop_bit 8 (val AND 0x000000ff00000000)) OR (drop_bit 24 (val AND 0x0000ff0000000000))
     OR (drop_bit 40 (val AND 0x00ff000000000000)) OR (drop_bit 56 (val AND 0xff00000000000000))"

text \<open>The inline functions over the macros, for hosts without \<open><byteswap.h>\<close>.\<close>

definition bswap_16 :: "u16 \<Rightarrow> u16" where "bswap_16 val = BSWAP_16 val"
definition bswap_32 :: "u32 \<Rightarrow> u32" where "bswap_32 val = BSWAP_32 val"
definition bswap_64 :: "u64 \<Rightarrow> u64" where "bswap_64 val = BSWAP_64 val"

section \<open>Conversions\<close>

text \<open>
  The macros for constants, each defined twice: the branch for hosts of the order it converts to
  is a cast, the other swaps. The types \<open>leint64_t\<close> to \<open>beint16_t\<close> are the integers
  of that width; only the checker \<open>sparse\<close> tells them apart.
\<close>

definition CPU_TO_LE64 :: "byte_order \<Rightarrow> u64 \<Rightarrow> u64" where
  "CPU_TO_LE64 bo native = (case bo of Little_Endian \<Rightarrow> native | Big_Endian \<Rightarrow> BSWAP_64 native)"

definition CPU_TO_LE32 :: "byte_order \<Rightarrow> u32 \<Rightarrow> u32" where
  "CPU_TO_LE32 bo native = (case bo of Little_Endian \<Rightarrow> native | Big_Endian \<Rightarrow> BSWAP_32 native)"

definition CPU_TO_LE16 :: "byte_order \<Rightarrow> u16 \<Rightarrow> u16" where
  "CPU_TO_LE16 bo native = (case bo of Little_Endian \<Rightarrow> native | Big_Endian \<Rightarrow> BSWAP_16 native)"

definition LE64_TO_CPU :: "byte_order \<Rightarrow> u64 \<Rightarrow> u64" where
  "LE64_TO_CPU bo le_val = (case bo of Little_Endian \<Rightarrow> le_val | Big_Endian \<Rightarrow> BSWAP_64 le_val)"

definition LE32_TO_CPU :: "byte_order \<Rightarrow> u32 \<Rightarrow> u32" where
  "LE32_TO_CPU bo le_val = (case bo of Little_Endian \<Rightarrow> le_val | Big_Endian \<Rightarrow> BSWAP_32 le_val)"

definition LE16_TO_CPU :: "byte_order \<Rightarrow> u16 \<Rightarrow> u16" where
  "LE16_TO_CPU bo le_val = (case bo of Little_Endian \<Rightarrow> le_val | Big_Endian \<Rightarrow> BSWAP_16 le_val)"

definition CPU_TO_BE64 :: "byte_order \<Rightarrow> u64 \<Rightarrow> u64" where
  "CPU_TO_BE64 bo native = (case bo of Big_Endian \<Rightarrow> native | Little_Endian \<Rightarrow> BSWAP_64 native)"

definition CPU_TO_BE32 :: "byte_order \<Rightarrow> u32 \<Rightarrow> u32" where
  "CPU_TO_BE32 bo native = (case bo of Big_Endian \<Rightarrow> native | Little_Endian \<Rightarrow> BSWAP_32 native)"

definition CPU_TO_BE16 :: "byte_order \<Rightarrow> u16 \<Rightarrow> u16" where
  "CPU_TO_BE16 bo native = (case bo of Big_Endian \<Rightarrow> native | Little_Endian \<Rightarrow> BSWAP_16 native)"

definition BE64_TO_CPU :: "byte_order \<Rightarrow> u64 \<Rightarrow> u64" where
  "BE64_TO_CPU bo le_val = (case bo of Big_Endian \<Rightarrow> le_val | Little_Endian \<Rightarrow> BSWAP_64 le_val)"

definition BE32_TO_CPU :: "byte_order \<Rightarrow> u32 \<Rightarrow> u32" where
  "BE32_TO_CPU bo le_val = (case bo of Big_Endian \<Rightarrow> le_val | Little_Endian \<Rightarrow> BSWAP_32 le_val)"

definition BE16_TO_CPU :: "byte_order \<Rightarrow> u16 \<Rightarrow> u16" where
  "BE16_TO_CPU bo le_val = (case bo of Big_Endian \<Rightarrow> le_val | Little_Endian \<Rightarrow> BSWAP_16 le_val)"

text \<open>The inline functions over them.\<close>

definition cpu_to_le64 :: "byte_order \<Rightarrow> u64 \<Rightarrow> u64" where "cpu_to_le64 bo native = CPU_TO_LE64 bo native"
definition cpu_to_le32 :: "byte_order \<Rightarrow> u32 \<Rightarrow> u32" where "cpu_to_le32 bo native = CPU_TO_LE32 bo native"
definition cpu_to_le16 :: "byte_order \<Rightarrow> u16 \<Rightarrow> u16" where "cpu_to_le16 bo native = CPU_TO_LE16 bo native"
definition le64_to_cpu :: "byte_order \<Rightarrow> u64 \<Rightarrow> u64" where "le64_to_cpu bo le_val = LE64_TO_CPU bo le_val"
definition le32_to_cpu :: "byte_order \<Rightarrow> u32 \<Rightarrow> u32" where "le32_to_cpu bo le_val = LE32_TO_CPU bo le_val"
definition le16_to_cpu :: "byte_order \<Rightarrow> u16 \<Rightarrow> u16" where "le16_to_cpu bo le_val = LE16_TO_CPU bo le_val"
definition cpu_to_be64 :: "byte_order \<Rightarrow> u64 \<Rightarrow> u64" where "cpu_to_be64 bo native = CPU_TO_BE64 bo native"
definition cpu_to_be32 :: "byte_order \<Rightarrow> u32 \<Rightarrow> u32" where "cpu_to_be32 bo native = CPU_TO_BE32 bo native"
definition cpu_to_be16 :: "byte_order \<Rightarrow> u16 \<Rightarrow> u16" where "cpu_to_be16 bo native = CPU_TO_BE16 bo native"
definition be64_to_cpu :: "byte_order \<Rightarrow> u64 \<Rightarrow> u64" where "be64_to_cpu bo be_val = BE64_TO_CPU bo be_val"
definition be32_to_cpu :: "byte_order \<Rightarrow> u32 \<Rightarrow> u32" where "be32_to_cpu bo be_val = BE32_TO_CPU bo be_val"
definition be16_to_cpu :: "byte_order \<Rightarrow> u16 \<Rightarrow> u16" where "be16_to_cpu bo be_val = BE16_TO_CPU bo be_val"

lemmas conversion_defs =
  cpu_to_le64_def cpu_to_le32_def cpu_to_le16_def le64_to_cpu_def le32_to_cpu_def le16_to_cpu_def
  cpu_to_be64_def cpu_to_be32_def cpu_to_be16_def be64_to_cpu_def be32_to_cpu_def be16_to_cpu_def
  CPU_TO_LE64_def CPU_TO_LE32_def CPU_TO_LE16_def LE64_TO_CPU_def LE32_TO_CPU_def LE16_TO_CPU_def
  CPU_TO_BE64_def CPU_TO_BE32_def CPU_TO_BE16_def BE64_TO_CPU_def BE32_TO_CPU_def BE16_TO_CPU_def

section \<open>A swap reverses the bytes\<close>

lemma upt_16:
  "[0..<16] =
    [0, Suc 0, 2, 3, 4, 5, 6, 7, 8, 9, 10, 11, 12, 13, 14, 15]"
  by code_simp

lemma upt_32:
  "[0..<32] =
    [0, Suc 0, 2, 3, 4, 5, 6, 7, 8, 9, 10, 11, 12, 13, 14, 15, 16, 17, 18, 19, 20, 21, 22, 23,
     24, 25, 26, 27, 28, 29, 30, 31]"
  by code_simp

lemma upt_64:
  "[0..<64] =
    [0, Suc 0, 2, 3, 4, 5, 6, 7, 8, 9, 10, 11, 12, 13, 14, 15, 16, 17, 18, 19, 20, 21, 22, 23,
     24, 25, 26, 27, 28, 29, 30, 31, 32, 33, 34, 35, 36, 37, 38, 39, 40, 41, 42, 43, 44, 45,
     46, 47, 48, 49, 50, 51, 52, 53, 54, 55, 56, 57, 58, 59, 60, 61, 62, 63]"
  by code_simp

lemma upt_80:
  "[0..<80] =
    [0, Suc 0, 2, 3, 4, 5, 6, 7, 8, 9, 10, 11, 12, 13, 14, 15, 16, 17, 18, 19, 20, 21, 22, 23,
     24, 25, 26, 27, 28, 29, 30, 31, 32, 33, 34, 35, 36, 37, 38, 39, 40, 41, 42, 43, 44, 45,
     46, 47, 48, 49, 50, 51, 52, 53, 54, 55, 56, 57, 58, 59, 60, 61, 62, 63, 64, 65, 66, 67,
     68, 69, 70, 71, 72, 73, 74, 75, 76, 77, 78, 79]"
  by code_simp

lemma word_eq_by_bits:
  "list_all (\<lambda>i. bit (v :: 'a::len word) i = bit w i) [0..<LENGTH('a)] \<Longrightarrow> v = w"
  by (rule bit_word_eqI) (auto simp: list_all_iff)

lemma BSWAP_16_eq: "BSWAP_16 v = be_word (le_bytes 2 v)"
  by (rule word_eq_by_bits)
     (simp add: BSWAP_16_def be_word_def bit_le_word rev_nth bit_or_iff bit_and_iff bit_push_bit_iff
        bit_drop_bit_eq bit_ucast_iff upt_16)

lemma BSWAP_32_eq: "BSWAP_32 v = be_word (le_bytes 4 v)"
  by (rule word_eq_by_bits)
     (simp add: BSWAP_32_def be_word_def bit_le_word rev_nth bit_or_iff bit_and_iff bit_push_bit_iff
        bit_drop_bit_eq bit_ucast_iff upt_32)

lemma BSWAP_64_eq: "BSWAP_64 v = be_word (le_bytes 8 v)"
  by (rule word_eq_by_bits)
     (simp add: BSWAP_64_def be_word_def bit_le_word rev_nth bit_or_iff bit_and_iff bit_push_bit_iff
        bit_drop_bit_eq bit_ucast_iff upt_64)

section \<open>The wire does not see the host\<close>

lemma host_bytes_length [simp]: "length (host_bytes bo n w) = n"
  by (cases bo) (simp_all add: host_bytes_def)

lemma host_bytes_0 [simp]: "host_bytes bo n 0 = replicate n 0"
  by (cases bo) (simp_all add: host_bytes_def)

lemma host_bytes_cpu_to_be [bytes_simps]:
  "host_bytes bo 2 (cpu_to_be16 bo u) = be_bytes 2 u"
  "host_bytes bo 4 (cpu_to_be32 bo v) = be_bytes 4 v"
  "host_bytes bo 8 (cpu_to_be64 bo w) = be_bytes 8 w"
  by (cases bo; simp add: host_bytes_def conversion_defs
      BSWAP_16_eq BSWAP_32_eq BSWAP_64_eq be_word_def be_bytes_def le_bytes_le_word)+

lemma host_bytes_cpu_to_le [bytes_simps]:
  "host_bytes bo 2 (cpu_to_le16 bo u) = le_bytes 2 u"
  "host_bytes bo 4 (cpu_to_le32 bo v) = le_bytes 4 v"
  "host_bytes bo 8 (cpu_to_le64 bo w) = le_bytes 8 w"
  by (cases bo; simp add: host_bytes_def conversion_defs
      BSWAP_16_eq BSWAP_32_eq BSWAP_64_eq be_word_def be_bytes_def le_bytes_le_word)+

lemma be_to_cpu_host_word [bytes_simps]:
  "length bs = 2 \<Longrightarrow> be16_to_cpu bo (host_word bo bs) = be_word bs"
  "length bs = 4 \<Longrightarrow> be32_to_cpu bo (host_word bo bs) = be_word bs"
  "length bs = 8 \<Longrightarrow> be64_to_cpu bo (host_word bo bs) = be_word bs"
  by (cases bo; simp add: host_word_def conversion_defs
      BSWAP_16_eq BSWAP_32_eq BSWAP_64_eq be_word_def le_bytes_le_word)+

lemma le_to_cpu_host_word [bytes_simps]:
  "length bs = 2 \<Longrightarrow> le16_to_cpu bo (host_word bo bs) = le_word bs"
  "length bs = 4 \<Longrightarrow> le32_to_cpu bo (host_word bo bs) = le_word bs"
  "length bs = 8 \<Longrightarrow> le64_to_cpu bo (host_word bo bs) = le_word bs"
  by (cases bo; simp add: host_word_def conversion_defs
      BSWAP_16_eq BSWAP_32_eq BSWAP_64_eq be_word_def le_bytes_le_word)+

lemma host_word_host_bytes:
  "LENGTH('a::len) = 8 * n \<Longrightarrow> host_word bo (host_bytes bo n (w :: 'a word)) = w"
  by (cases bo) (simp_all add: host_word_def host_bytes_def le_word_le_bytes be_word_be_bytes)

lemma host_bytes_host_word:
  "LENGTH('a::len) = 8 * n \<Longrightarrow> length bs = n \<Longrightarrow>
   host_bytes bo n (host_word bo bs :: 'a word) = bs"
  by (cases bo) (simp_all add: host_word_def host_bytes_def le_bytes_le_word be_bytes_be_word)

section \<open>Properties\<close>

text \<open>C40: What the conversions of \<open>endian.h\<close> put on the wire does not depend on the host: the bytes in
  memory of \<open>cpu_to_be*\<close> and \<open>cpu_to_le*\<close> of a value are its big- and little-endian bytes, and
  reading them back with \<open>be*_to_cpu\<close> and \<open>le*_to_cpu\<close> gives the value, on either byte order. The
  checks on the configuration let through exactly the two settings with one byte order, in
  agreement with the system's headers where these define it.\<close>

theorem wire_bytes_host_independent:
  "host_bytes bo 2 (cpu_to_be16 bo v) = be_bytes 2 v \<and> be16_to_cpu bo (host_word bo (be_bytes 2 v)) = v \<and>
   host_bytes bo 4 (cpu_to_be32 bo w) = be_bytes 4 w \<and> be32_to_cpu bo (host_word bo (be_bytes 4 w)) = w \<and>
   host_bytes bo 8 (cpu_to_be64 bo x) = be_bytes 8 x \<and> be64_to_cpu bo (host_word bo (be_bytes 8 x)) = x \<and>
   host_bytes bo 2 (cpu_to_le16 bo v) = le_bytes 2 v \<and> le16_to_cpu bo (host_word bo (le_bytes 2 v)) = v \<and>
   host_bytes bo 4 (cpu_to_le32 bo w) = le_bytes 4 w \<and> le32_to_cpu bo (host_word bo (le_bytes 4 w)) = w \<and>
   host_bytes bo 8 (cpu_to_le64 bo x) = le_bytes 8 x \<and> le64_to_cpu bo (host_word bo (le_bytes 8 x)) = x \<and>
   (endian_check little big predefined = Some (order_code bo)) =
     (little = (bo = Little_Endian) \<and> big = (bo = Big_Endian) \<and> predefined \<in> {None, Some (order_code bo)})"
  by (simp add: bytes_simps be_word_be_bytes le_word_le_bytes endian_check_eq)

end
