(* ===== verification/Hash_Core.thy ===== *)
theory Hash_Core
  imports Endian
begin

text \<open>
  What \<open>sha256.c\<close> and \<open>sha512.c\<close> share: the hashing context, the buffering loop \<open>add\<close>,
  and the Merkle-Damgard reading of it. The locale \<open>md_hash\<close> is the interface between the
  buffering code and a compression function; \<open>sha2_rounds\<close> is the interface between an
  unrolled round sequence, whose registers are renamed instead of moved, and the standard's
  round. Both are interpreted in \<open>Sha256\<close> and \<open>Sha512\<close>.
\<close>

section \<open>The host\<close>

text \<open>
  The parts of \<open>config.h\<close> and of the run that hashing depends on: the byte order, and the
  value of \<open>alignment_ok (data, n)\<close> for the caller's data.
\<close>

record host =
  host_order :: byte_order
  host_aligned :: bool

section \<open>Context and buffering\<close>

record 'w hash_ctx =
  hc_s :: "'w list"
  hc_buf :: bytes
  hc_bytes :: u64

text \<open>The \<open>while (len >= B)\<close> loop of \<open>add\<close>: full chunks directly from the source.\<close>

function add_chunks ::
  "nat \<Rightarrow> ('w list \<Rightarrow> bytes \<Rightarrow> 'w list) \<Rightarrow> bool \<Rightarrow> 'w hash_ctx \<Rightarrow> bytes \<Rightarrow> 'w hash_ctx \<times> bytes" where
  "add_chunks B transform aligned ctx data =
     (if 0 < B \<and> B \<le> length data then
        (let ctx1 =
           (if aligned then ctx\<lparr>hc_s := transform (hc_s ctx) (take B data)\<rparr>
            else (let ctx0 = ctx\<lparr>hc_buf := take B data\<rparr>
                  in ctx0\<lparr>hc_s := transform (hc_s ctx0) (hc_buf ctx0)\<rparr>))
         in add_chunks B transform aligned (ctx1\<lparr>hc_bytes := hc_bytes ctx1 + of_nat B\<rparr>) (drop B data))
      else (ctx, data))"
  by pat_completeness auto
termination
  by (relation "measure (\<lambda>(B, tf, al, ctx, data). length data)") auto

declare add_chunks.simps [simp del]

definition block_add ::
  "nat \<Rightarrow> ('w list \<Rightarrow> bytes \<Rightarrow> 'w list) \<Rightarrow> bool \<Rightarrow> 'w hash_ctx \<Rightarrow> bytes \<Rightarrow> 'w hash_ctx" where
  "block_add B transform aligned ctx data =
     (let bufsize = unat (hc_bytes ctx mod of_nat B);
          (ctx, data, bufsize) =
            (if B \<le> bufsize + length data then
               (let ctx = ctx\<lparr>hc_buf := patch (hc_buf ctx) bufsize (take (B - bufsize) data)\<rparr>;
                    ctx = ctx\<lparr>hc_bytes := hc_bytes ctx + of_nat (B - bufsize)\<rparr>;
                    data = drop (B - bufsize) data;
                    ctx = ctx\<lparr>hc_s := transform (hc_s ctx) (hc_buf ctx)\<rparr>
                in (ctx, data, 0))
             else (ctx, data, bufsize));
          (ctx, data) = add_chunks B transform aligned ctx data
      in if data \<noteq> []
         then ctx\<lparr>hc_buf := patch (hc_buf ctx) bufsize data,
                  hc_bytes := hc_bytes ctx + of_nat (length data)\<rparr>
         else ctx)"

lemma patch_Nil [simp]: "patch xs i [] = xs"
  by (simp add: patch_def)

lemma block_add_short:
  assumes "unat (hc_bytes ctx mod of_nat B) = n" "n + length d < B"
  shows "block_add B transform aligned ctx d =
    ctx\<lparr>hc_buf := patch (hc_buf ctx) n d, hc_bytes := hc_bytes ctx + of_nat (length d)\<rparr>"
  using assms by (cases "d = []") (simp_all add: block_add_def add_chunks.simps)

lemma block_add_long:
  assumes "unat (hc_bytes ctx mod of_nat B) = n" "B \<le> n + length d"
    and "patch (hc_buf ctx) n (take (B - n) d) = b"
    and "add_chunks B transform aligned
      (ctx\<lparr>hc_buf := b, hc_bytes := hc_bytes ctx + of_nat (B - n), hc_s := transform (hc_s ctx) b\<rparr>)
      (drop (B - n) d) = (c, r)"
  shows "block_add B transform aligned ctx d =
    c\<lparr>hc_buf := patch (hc_buf c) 0 r, hc_bytes := hc_bytes c + of_nat (length r)\<rparr>"
  using assms by (cases "r = []") (simp_all add: block_add_def del: of_nat_diff)

section \<open>Merkle-Damgard\<close>

text \<open>The full blocks of a message, and the rest.\<close>

function full_blocks :: "nat \<Rightarrow> 'a list \<Rightarrow> 'a list list" where
  "full_blocks B xs =
     (if 0 < B \<and> B \<le> length xs then take B xs # full_blocks B (drop B xs) else [])"
  by pat_completeness auto
termination
  by (relation "measure (\<lambda>(B, xs). length xs)") auto

declare full_blocks.simps [simp del]

definition leftover :: "nat \<Rightarrow> 'a list \<Rightarrow> 'a list" where
  "leftover B xs = drop (length xs div B * B) xs"

lemma length_leftover: "length (leftover B xs) = length xs mod B"
  by (simp add: leftover_def minus_div_mult_eq_mod)

lemma full_blocks_short [simp]: "length xs < B \<Longrightarrow> full_blocks B xs = []"
  by (subst full_blocks.simps) simp

lemma leftover_short [simp]: "length xs < B \<Longrightarrow> leftover B xs = xs"
  by (simp add: leftover_def)

lemma full_blocks_Nil [simp]: "full_blocks B [] = []"
  by (subst full_blocks.simps) auto

lemma leftover_Nil [simp]: "leftover B [] = []"
  by (simp add: leftover_def)

lemma full_blocks_step:
  "0 < B \<Longrightarrow> length b = B \<Longrightarrow> full_blocks B (b @ xs) = b # full_blocks B xs"
  by (subst full_blocks.simps) simp

lemma leftover_step: "0 < B \<Longrightarrow> length b = B \<Longrightarrow> leftover B (b @ xs) = leftover B xs"
  by (simp add: leftover_def div_add_self1)

text \<open>A message is its full blocks followed by what is left.\<close>

lemma full_blocks_append:
  "0 < B \<Longrightarrow> full_blocks B (xs @ ys) = full_blocks B xs @ full_blocks B (leftover B xs @ ys)"
proof (induction B xs rule: full_blocks.induct)
  case (1 B xs)
  show ?case
  proof (cases "B \<le> length xs")
    case True
    let ?b = "take B xs" and ?r = "drop B xs"
    have len: "length ?b = B" and xs: "xs = ?b @ ?r" using True by simp_all
    have "full_blocks B (?b @ ?r @ ys) = ?b # full_blocks B (?r @ ys)"
      using "1.prems" len by (rule full_blocks_step)
    moreover have "full_blocks B (?r @ ys) = full_blocks B ?r @ full_blocks B (leftover B ?r @ ys)"
      using True "1.prems" by (intro "1.IH") simp_all
    moreover have "full_blocks B (?b @ ?r) = ?b # full_blocks B ?r"
      using "1.prems" len by (rule full_blocks_step)
    moreover have "leftover B (?b @ ?r) = leftover B ?r"
      using "1.prems" len by (rule leftover_step)
    ultimately show ?thesis using xs by (metis append.assoc append_Cons)
  next
    case False
    then show ?thesis by simp
  qed
qed

lemma leftover_append: "0 < B \<Longrightarrow> leftover B (xs @ ys) = leftover B (leftover B xs @ ys)"
proof (induction B xs rule: full_blocks.induct)
  case (1 B xs)
  show ?case
  proof (cases "B \<le> length xs")
    case True
    then have "length (take B xs) = B" by simp
    then show ?thesis
      using True 1 leftover_step [of B "take B xs" "drop B xs @ ys"]
        leftover_step [of B "take B xs" "drop B xs"]
      by (simp add: append_assoc [symmetric] del: append_assoc)
  next
    case False
    then show ?thesis by simp
  qed
qed

lemma full_blocks_exact: "0 < B \<Longrightarrow> length xs = B \<Longrightarrow> full_blocks B xs = [xs]"
  using full_blocks_step [of B xs "[]"] by simp

lemma leftover_exact: "length xs mod B = 0 \<Longrightarrow> leftover B xs = []"
  using length_leftover [of B xs] by simp

lemma length_full_blocks: "b \<in> set (full_blocks B xs) \<Longrightarrow> length b = B"
  by (induction B xs rule: full_blocks.induct) (subst (asm) (2) full_blocks.simps, auto split: if_splits)

lemma add_chunks_eq:
  assumes "0 < B" "length (hc_buf ctx) = B"
  shows "\<exists>b. length b = B \<and>
    add_chunks B transform aligned ctx data =
      (\<lparr>hc_s = foldl transform (hc_s ctx) (full_blocks B data), hc_buf = b,
        hc_bytes = hc_bytes ctx + of_nat (length data div B * B)\<rparr>, leftover B data)"
  using assms
proof (induction B transform aligned ctx data rule: add_chunks.induct)
  case (1 B tf al ctx data)
  show ?case
  proof (cases "B \<le> length data")
    case True
    define ctx1 where "ctx1 = (if al then ctx\<lparr>hc_s := tf (hc_s ctx) (take B data)\<rparr>
      else ctx\<lparr>hc_buf := take B data, hc_s := tf (hc_s ctx) (take B data)\<rparr>)"
    define ctx2 where "ctx2 = ctx1\<lparr>hc_bytes := hc_bytes ctx1 + of_nat B\<rparr>"
    have step: "add_chunks B tf al ctx data = add_chunks B tf al ctx2 (drop B data)"
      using True "1.prems" by (subst add_chunks.simps) (simp add: ctx2_def ctx1_def)
    have facts: "hc_s ctx2 = tf (hc_s ctx) (take B data)" "hc_bytes ctx2 = hc_bytes ctx + of_nat B"
      "length (hc_buf ctx2) = B"
      using True "1.prems" by (simp_all add: ctx2_def ctx1_def)
    have "\<exists>b. length b = B \<and> add_chunks B tf al ctx2 (drop B data) =
      (\<lparr>hc_s = foldl tf (hc_s ctx2) (full_blocks B (drop B data)), hc_buf = b,
        hc_bytes = hc_bytes ctx2 + of_nat (length (drop B data) div B * B)\<rparr>, leftover B (drop B data))"
      using True "1.prems" facts(3) unfolding ctx2_def ctx1_def
      by (intro "1.IH") (auto simp: Let_def)
    moreover have "full_blocks B data = take B data # full_blocks B (drop B data)"
      "leftover B data = leftover B (drop B data)"
      using True "1.prems" full_blocks_step [of B "take B data" "drop B data"]
        leftover_step [of B "take B data" "drop B data"] by simp_all
    moreover have "length data div B * B = B + length (drop B data) div B * B"
      using True "1.prems" by (simp add: le_div_geq)
    ultimately show ?thesis by (simp add: step facts add.assoc)
  next
    case False
    then show ?thesis
      using "1.prems" by (subst add_chunks.simps) (auto intro!: exI [of _ "hc_buf ctx"])
  qed
qed

text \<open>
  The number of zeros that pad a message of \<open>n\<close> bytes, with \<open>k - 1\<close> bytes for its length: the
  code's expression, which never goes below zero, and the least number that fills the block.
\<close>

lemma pad_zeros:
  fixes B k n :: nat
  assumes "k \<le> B" "0 < B"
  shows "(2 * B - k - n mod B) mod B = (B - (n + k) mod B) mod B"
proof -
  let ?r = "n mod B"
  have r: "?r < B" using assms by simp
  have eq: "(n + k) mod B = (?r + k) mod B" by (simp add: mod_add_left_eq)
  show ?thesis
  proof (cases "?r + k < B")
    case True
    then have "2 * B - k - ?r = (B - (?r + k)) + B" by simp
    then have "(2 * B - k - ?r) mod B = (B - (?r + k)) mod B" by (simp only: mod_add_self2)
    then show ?thesis using True eq by simp
  next
    case False
    then have "(?r + k) mod B = (?r + k - B) mod B" by (simp add: le_mod_geq)
    also have "\<dots> = ?r + k - B" using r assms by (intro mod_less) linarith
    finally have "(?r + k) mod B = ?r + k - B" .
    moreover have "B - (?r + k - B) = 2 * B - k - ?r" using False by linarith
    ultimately show ?thesis by (simp add: eq)
  qed
qed

section \<open>The contract between buffering and compression\<close>

text \<open>
  \<open>md_hash B transform iv\<close>: a compression function on blocks of \<open>B\<close> bytes. The counter of
  the context is 64 bits wide, so \<open>B\<close> must divide \<open>2 ^ 64\<close> for the buffer position to survive
  its wrap-around.
\<close>

locale md_hash =
  fixes B :: nat
    and transform :: "'w list \<Rightarrow> bytes \<Rightarrow> 'w list"
    and iv :: "'w list"
  assumes B_pos: "0 < B"
    and B_small: "B < 2 ^ 64"
    and B_dvd: "B dvd 2 ^ 64"
    and iv_length: "length iv = 8"
    and transform_length: "length st = 8 \<Longrightarrow> length b = B \<Longrightarrow> length (transform st b) = 8"
begin

text \<open>The context \<open>ctx\<close> has absorbed exactly the bytes \<open>x\<close>.\<close>

definition absorbed :: "'w hash_ctx \<Rightarrow> bytes \<Rightarrow> bool" where
  "absorbed ctx x \<longleftrightarrow>
     hc_bytes ctx = of_nat (length x) \<and> length (hc_buf ctx) = B \<and>
     take (length x mod B) (hc_buf ctx) = leftover B x \<and>
     hc_s ctx = foldl transform iv (full_blocks B x)"

lemma unat_of_nat_mod: "unat (of_nat n mod of_nat B :: u64) = n mod B"
proof -
  have "unat (of_nat B :: u64) = B"
    using B_small by (simp add: unat_of_nat)
  then show ?thesis
    using B_dvd by (simp add: unat_mod_distrib unat_of_nat mod_mod_cancel)
qed

lemma absorbed_empty:
  "length b = B \<Longrightarrow> absorbed \<lparr>hc_s = iv, hc_buf = b, hc_bytes = 0\<rparr> []"
  using B_pos by (simp add: absorbed_def)

lemma block_add_absorbed:
  assumes "absorbed ctx x"
  shows "absorbed (block_add B transform aligned ctx d) (x @ d)"
proof -
  let ?n = "length x mod B" and ?r = "leftover B x"
  have ctx: "hc_bytes ctx = of_nat (length x)" "length (hc_buf ctx) = B"
    "take ?n (hc_buf ctx) = ?r" "hc_s ctx = foldl transform iv (full_blocks B x)"
    using assms by (simp_all add: absorbed_def)
  have n: "?n < B" and r: "length ?r = ?n" using B_pos by (simp_all add: length_leftover)
  have fb: "full_blocks B (x @ d) = full_blocks B x @ full_blocks B (?r @ d)"
    and lo: "leftover B (x @ d) = leftover B (?r @ d)"
    using B_pos full_blocks_append leftover_append by blast+
  have pos: "unat (hc_bytes ctx mod of_nat B) = ?n"
    using ctx(1) by (simp add: unat_of_nat_mod)
  show ?thesis
  proof (cases "B \<le> ?n + length d")
    case False
    then have short: "?n + length d < B" by simp
    have "(length x + length d) mod B = (?n + length d) mod B" by (simp add: mod_add_left_eq)
    then have m: "length (x @ d) mod B = ?n + length d" using short by simp
    have "block_add B transform aligned ctx d =
        ctx\<lparr>hc_buf := patch (hc_buf ctx) ?n d, hc_bytes := hc_bytes ctx + of_nat (length d)\<rparr>"
      using pos short by (rule block_add_short)
    then show ?thesis
      unfolding absorbed_def m fb lo using short r ctx n by (simp add: take_patch)
  next
    case True
    let ?k = "B - ?n"
    let ?b = "?r @ take ?k d" and ?d = "drop ?k d"
    have k: "length ?b = B" using True n r by simp
    have rd: "?r @ d = ?b @ ?d" by simp
    have split: "full_blocks B (?r @ d) = ?b # full_blocks B ?d" "leftover B (?r @ d) = leftover B ?d"
      unfolding rd using B_pos k by (simp_all only: full_blocks_step leftover_step)
    have buf: "patch (hc_buf ctx) ?n (take ?k d) = ?b"
      using True n ctx by (simp add: patch_def)
    define ctx1 where "ctx1 = ctx\<lparr>hc_buf := ?b, hc_bytes := hc_bytes ctx + of_nat ?k,
        hc_s := transform (hc_s ctx) ?b\<rparr>"
    obtain b where b: "length b = B" "add_chunks B transform aligned ctx1 ?d =
      (\<lparr>hc_s = foldl transform (hc_s ctx1) (full_blocks B ?d), hc_buf = b,
        hc_bytes = hc_bytes ctx1 + of_nat (length ?d div B * B)\<rparr>, leftover B ?d)"
      using add_chunks_eq [of B ctx1 transform aligned ?d] k B_pos by (auto simp: ctx1_def)
    let ?l = "leftover B ?d"
    have ll: "length ?l < B" using B_pos by (simp add: length_leftover)
    have "block_add B transform aligned ctx d =
        \<lparr>hc_s = foldl transform (hc_s ctx1) (full_blocks B ?d), hc_buf = patch b 0 ?l,
         hc_bytes = hc_bytes ctx1 + of_nat (length ?d div B * B) + of_nat (length ?l)\<rparr>"
      using block_add_long [OF pos True buf b(2) [unfolded ctx1_def]] by (simp add: ctx1_def)
    moreover have "hc_bytes ctx1 + of_nat (length ?d div B * B) + of_nat (length ?l)
        = of_nat (length (x @ d))"
    proof -
      have "length d = ?k + (length ?d div B * B + length ?l)"
        using True n by (simp add: length_leftover)
      moreover have "hc_bytes ctx1 = of_nat (length x) + of_nat ?k"
        using ctx(1) by (simp add: ctx1_def del: of_nat_diff)
      ultimately show ?thesis by (simp only: length_append of_nat_add add.assoc)
    qed
    moreover have "length (x @ d) mod B = length ?l"
      using lo split(2) length_leftover [of B "x @ d"] by simp
    ultimately show ?thesis
      unfolding absorbed_def fb lo split using b(1) ll ctx by (simp add: ctx1_def patch_def)
  qed
qed

end

section \<open>The streaming interface of a hash\<close>

text \<open>
  What a client such as HMAC relies on: after \<open>init\<close> and any updates, the context stands for
  the bytes fed so far, no assertion fails, and \<open>finish\<close> returns the digest of those bytes.
  The bound is that of the standard: fewer than \<open>2 ^ 64\<close> bits.
\<close>

fun hash_updates :: "('c \<Rightarrow> bytes \<Rightarrow> 'c option) \<Rightarrow> 'c \<Rightarrow> bytes list \<Rightarrow> 'c option" where
  "hash_updates update ctx [] = Some ctx"
| "hash_updates update ctx (d # ds) = do { ctx \<leftarrow> update ctx d; hash_updates update ctx ds }"

locale stream_hash =
  fixes init :: "'c"
    and update :: "'c \<Rightarrow> bytes \<Rightarrow> 'c option"
    and finish :: "'c \<Rightarrow> bytes \<times> 'c"
    and hash :: "bytes \<Rightarrow> bytes"
    and absorbs :: "'c \<Rightarrow> bytes \<Rightarrow> bool"
    and dlen :: nat
  assumes init_absorbs: "absorbs init []"
    and update_absorbs: "absorbs ctx x \<Longrightarrow> length x + length d < 2 ^ 61 \<Longrightarrow>
      \<exists>ctx'. update ctx d = Some ctx' \<and> absorbs ctx' (x @ d)"
    and finish_hash: "absorbs ctx x \<Longrightarrow> length x < 2 ^ 61 \<Longrightarrow> fst (finish ctx) = hash x"
    and hash_length: "length (hash x) = dlen"
begin

lemma updates_absorb:
  "absorbs ctx x \<Longrightarrow> length x + length (concat ds) < 2 ^ 61 \<Longrightarrow>
   \<exists>ctx'. hash_updates update ctx ds = Some ctx' \<and> absorbs ctx' (x @ concat ds)"
proof (induction ds arbitrary: ctx x)
  case Nil
  then show ?case by simp
next
  case (Cons d ds)
  then obtain ctx1 where "update ctx d = Some ctx1" "absorbs ctx1 (x @ d)"
    using update_absorbs [of ctx x d] by auto
  with Cons.IH [of ctx1 "x @ d"] Cons.prems show ?case by (auto simp: add.assoc)
qed

text \<open>Digest of a sequence of updates: the digest of their concatenation.\<close>

lemma hash_of_updates:
  assumes "length (concat ds) < 2 ^ 61"
  shows "\<exists>ctx. hash_updates update init ds = Some ctx \<and> fst (finish ctx) = hash (concat ds)"
  using updates_absorb [OF init_absorbs, of ds] assms finish_hash by fastforce

end

section \<open>Unrolled rounds\<close>

lemma let_sim: "e = v \<Longrightarrow> F v = R \<Longrightarrow> (let x = e in F x) = R"
  by simp

text \<open>
  The C code unrolls the rounds and, instead of moving the eight registers down by one
  after each, renames them in the next call. \<open>rnd\<close> is the code's round (it writes \<open>d\<close> and
  \<open>h\<close>), \<open>step\<close> a round that moves the registers.
\<close>

locale sha2_rounds =
  fixes rnd :: "'w \<Rightarrow> 'w \<Rightarrow> 'w \<Rightarrow> 'w \<Rightarrow> 'w \<Rightarrow> 'w \<Rightarrow> 'w \<Rightarrow> 'w \<Rightarrow> 'w \<Rightarrow> 'w \<Rightarrow> 'w \<times> 'w"
    and step :: "'w \<times> 'w \<times> 'w \<times> 'w \<times> 'w \<times> 'w \<times> 'w \<times> 'w \<Rightarrow> 'w \<times> 'w \<Rightarrow>
      'w \<times> 'w \<times> 'w \<times> 'w \<times> 'w \<times> 'w \<times> 'w \<times> 'w"
  assumes step_rnd: "rnd a b c d e f g h k w = (d', h') \<Longrightarrow>
    step (a, b, c, d, e, f, g, h) (k, w) = (h', a, b, c, d', e, f, g)"
begin

text \<open>One unrolled call is one step; applied repeatedly it walks through the whole sequence.\<close>

lemma sim:
  assumes "w = w'"
    and "\<And>d' h'. F d' h' = G (foldl step (h', a, b, c, d', e, f, g) kws)"
  shows "(case rnd a b c d e f g h k w of (d', h') \<Rightarrow> F d' h') =
    G (foldl step (a, b, c, d, e, f, g, h) ((k, w') # kws))"
proof -
  obtain d' h' where "rnd a b c d e f g h k w = (d', h')" by fastforce
  then show ?thesis using assms by (simp add: step_rnd)
qed

lemma sim_done: "F = G (a, b, c, d, e, f, g, h) \<Longrightarrow> F = G (foldl step (a, b, c, d, e, f, g, h) [])"
  by simp

end

end
