(* ===== verification/Sha256.thy ===== *)
theory Sha256
  imports Hash_Core
begin

text \<open>
  \<open>sha256.c\<close> (the build without OpenSSL): the round functions, the unrolled \<open>Transform\<close>,
  the buffering \<open>add\<close>, and the streaming interface \<open>sha256_init\<close>, \<open>sha256_update\<close>,
  \<open>sha256_done\<close> with its \<open>assert\<close>. FIPS 180-4 gives the abstract specification; the lemmas
  show that \<open>Transform\<close> is the standard's compression function on every host, and that the
  streaming interface computes the standard's digest of the concatenated input.
\<close>

section \<open>Round functions\<close>

definition Ch_256 :: "u32 \<Rightarrow> u32 \<Rightarrow> u32 \<Rightarrow> u32" where
  "Ch_256 x y z = z XOR (x AND (y XOR z))"

definition Maj_256 :: "u32 \<Rightarrow> u32 \<Rightarrow> u32 \<Rightarrow> u32" where
  "Maj_256 x y z = (x AND y) OR (z AND (x OR y))"

definition Sigma0_256 :: "u32 \<Rightarrow> u32" where
  "Sigma0_256 x = (drop_bit 2 x OR push_bit 30 x) XOR (drop_bit 13 x OR push_bit 19 x)
     XOR (drop_bit 22 x OR push_bit 10 x)"

definition Sigma1_256 :: "u32 \<Rightarrow> u32" where
  "Sigma1_256 x = (drop_bit 6 x OR push_bit 26 x) XOR (drop_bit 11 x OR push_bit 21 x)
     XOR (drop_bit 25 x OR push_bit 7 x)"

definition sigma0_256 :: "u32 \<Rightarrow> u32" where
  "sigma0_256 x = (drop_bit 7 x OR push_bit 25 x) XOR (drop_bit 18 x OR push_bit 14 x)
     XOR (drop_bit 3 x)"

definition sigma1_256 :: "u32 \<Rightarrow> u32" where
  "sigma1_256 x = (drop_bit 17 x OR push_bit 15 x) XOR (drop_bit 19 x OR push_bit 13 x)
     XOR (drop_bit 10 x)"

text \<open>\<open>Round\<close> writes through its \<open>d\<close> and \<open>h\<close>: the model returns the two new values.\<close>

definition Round_256 ::
  "u32 \<Rightarrow> u32 \<Rightarrow> u32 \<Rightarrow> u32 \<Rightarrow> u32 \<Rightarrow> u32 \<Rightarrow> u32 \<Rightarrow> u32 \<Rightarrow> u32 \<Rightarrow> u32 \<Rightarrow> u32 \<times> u32" where
  "Round_256 a b c d e f g h k w =
     (let t1 = h + Sigma1_256 e + Ch_256 e f g + k + w;
          t2 = Sigma0_256 a + Maj_256 a b c
      in (d + t1, t1 + t2))"

section \<open>The compression function\<close>

text \<open>\<open>chunk[i]\<close> of a \<open>uint32_t\<close> pointer into the 64 bytes of a block.\<close>

definition chunk32 :: "byte_order \<Rightarrow> bytes \<Rightarrow> nat \<Rightarrow> u32" where
  "chunk32 bo chunk i = host_word bo (take 4 (drop (4 * i) chunk))"

definition Transform_256 :: "byte_order \<Rightarrow> u32 list \<Rightarrow> bytes \<Rightarrow> u32 list" where
  "Transform_256 bo s chunk =
  (let a = s ! 0; b = s ! 1; c = s ! 2; d = s ! 3; e = s ! 4; f = s ! 5; g = s ! 6; h = s ! 7;
   w0 = be32_to_cpu bo (chunk32 bo chunk 0);
   (d, h) = Round_256 a b c d e f g h 0x428a2f98 w0;
   w1 = be32_to_cpu bo (chunk32 bo chunk 1);
   (c, g) = Round_256 h a b c d e f g 0x71374491 w1;
   w2 = be32_to_cpu bo (chunk32 bo chunk 2);
   (b, f) = Round_256 g h a b c d e f 0xb5c0fbcf w2;
   w3 = be32_to_cpu bo (chunk32 bo chunk 3);
   (a, e) = Round_256 f g h a b c d e 0xe9b5dba5 w3;
   w4 = be32_to_cpu bo (chunk32 bo chunk 4);
   (h, d) = Round_256 e f g h a b c d 0x3956c25b w4;
   w5 = be32_to_cpu bo (chunk32 bo chunk 5);
   (g, c) = Round_256 d e f g h a b c 0x59f111f1 w5;
   w6 = be32_to_cpu bo (chunk32 bo chunk 6);
   (f, b) = Round_256 c d e f g h a b 0x923f82a4 w6;
   w7 = be32_to_cpu bo (chunk32 bo chunk 7);
   (e, a) = Round_256 b c d e f g h a 0xab1c5ed5 w7;
   w8 = be32_to_cpu bo (chunk32 bo chunk 8);
   (d, h) = Round_256 a b c d e f g h 0xd807aa98 w8;
   w9 = be32_to_cpu bo (chunk32 bo chunk 9);
   (c, g) = Round_256 h a b c d e f g 0x12835b01 w9;
   w10 = be32_to_cpu bo (chunk32 bo chunk 10);
   (b, f) = Round_256 g h a b c d e f 0x243185be w10;
   w11 = be32_to_cpu bo (chunk32 bo chunk 11);
   (a, e) = Round_256 f g h a b c d e 0x550c7dc3 w11;
   w12 = be32_to_cpu bo (chunk32 bo chunk 12);
   (h, d) = Round_256 e f g h a b c d 0x72be5d74 w12;
   w13 = be32_to_cpu bo (chunk32 bo chunk 13);
   (g, c) = Round_256 d e f g h a b c 0x80deb1fe w13;
   w14 = be32_to_cpu bo (chunk32 bo chunk 14);
   (f, b) = Round_256 c d e f g h a b 0x9bdc06a7 w14;
   w15 = be32_to_cpu bo (chunk32 bo chunk 15);
   (e, a) = Round_256 b c d e f g h a 0xc19bf174 w15;
   w0 = w0 + (sigma1_256 w14 + w9 + sigma0_256 w1);
   (d, h) = Round_256 a b c d e f g h 0xe49b69c1 w0;
   w1 = w1 + (sigma1_256 w15 + w10 + sigma0_256 w2);
   (c, g) = Round_256 h a b c d e f g 0xefbe4786 w1;
   w2 = w2 + (sigma1_256 w0 + w11 + sigma0_256 w3);
   (b, f) = Round_256 g h a b c d e f 0x0fc19dc6 w2;
   w3 = w3 + (sigma1_256 w1 + w12 + sigma0_256 w4);
   (a, e) = Round_256 f g h a b c d e 0x240ca1cc w3;
   w4 = w4 + (sigma1_256 w2 + w13 + sigma0_256 w5);
   (h, d) = Round_256 e f g h a b c d 0x2de92c6f w4;
   w5 = w5 + (sigma1_256 w3 + w14 + sigma0_256 w6);
   (g, c) = Round_256 d e f g h a b c 0x4a7484aa w5;
   w6 = w6 + (sigma1_256 w4 + w15 + sigma0_256 w7);
   (f, b) = Round_256 c d e f g h a b 0x5cb0a9dc w6;
   w7 = w7 + (sigma1_256 w5 + w0 + sigma0_256 w8);
   (e, a) = Round_256 b c d e f g h a 0x76f988da w7;
   w8 = w8 + (sigma1_256 w6 + w1 + sigma0_256 w9);
   (d, h) = Round_256 a b c d e f g h 0x983e5152 w8;
   w9 = w9 + (sigma1_256 w7 + w2 + sigma0_256 w10);
   (c, g) = Round_256 h a b c d e f g 0xa831c66d w9;
   w10 = w10 + (sigma1_256 w8 + w3 + sigma0_256 w11);
   (b, f) = Round_256 g h a b c d e f 0xb00327c8 w10;
   w11 = w11 + (sigma1_256 w9 + w4 + sigma0_256 w12);
   (a, e) = Round_256 f g h a b c d e 0xbf597fc7 w11;
   w12 = w12 + (sigma1_256 w10 + w5 + sigma0_256 w13);
   (h, d) = Round_256 e f g h a b c d 0xc6e00bf3 w12;
   w13 = w13 + (sigma1_256 w11 + w6 + sigma0_256 w14);
   (g, c) = Round_256 d e f g h a b c 0xd5a79147 w13;
   w14 = w14 + (sigma1_256 w12 + w7 + sigma0_256 w15);
   (f, b) = Round_256 c d e f g h a b 0x06ca6351 w14;
   w15 = w15 + (sigma1_256 w13 + w8 + sigma0_256 w0);
   (e, a) = Round_256 b c d e f g h a 0x14292967 w15;
   w0 = w0 + (sigma1_256 w14 + w9 + sigma0_256 w1);
   (d, h) = Round_256 a b c d e f g h 0x27b70a85 w0;
   w1 = w1 + (sigma1_256 w15 + w10 + sigma0_256 w2);
   (c, g) = Round_256 h a b c d e f g 0x2e1b2138 w1;
   w2 = w2 + (sigma1_256 w0 + w11 + sigma0_256 w3);
   (b, f) = Round_256 g h a b c d e f 0x4d2c6dfc w2;
   w3 = w3 + (sigma1_256 w1 + w12 + sigma0_256 w4);
   (a, e) = Round_256 f g h a b c d e 0x53380d13 w3;
   w4 = w4 + (sigma1_256 w2 + w13 + sigma0_256 w5);
   (h, d) = Round_256 e f g h a b c d 0x650a7354 w4;
   w5 = w5 + (sigma1_256 w3 + w14 + sigma0_256 w6);
   (g, c) = Round_256 d e f g h a b c 0x766a0abb w5;
   w6 = w6 + (sigma1_256 w4 + w15 + sigma0_256 w7);
   (f, b) = Round_256 c d e f g h a b 0x81c2c92e w6;
   w7 = w7 + (sigma1_256 w5 + w0 + sigma0_256 w8);
   (e, a) = Round_256 b c d e f g h a 0x92722c85 w7;
   w8 = w8 + (sigma1_256 w6 + w1 + sigma0_256 w9);
   (d, h) = Round_256 a b c d e f g h 0xa2bfe8a1 w8;
   w9 = w9 + (sigma1_256 w7 + w2 + sigma0_256 w10);
   (c, g) = Round_256 h a b c d e f g 0xa81a664b w9;
   w10 = w10 + (sigma1_256 w8 + w3 + sigma0_256 w11);
   (b, f) = Round_256 g h a b c d e f 0xc24b8b70 w10;
   w11 = w11 + (sigma1_256 w9 + w4 + sigma0_256 w12);
   (a, e) = Round_256 f g h a b c d e 0xc76c51a3 w11;
   w12 = w12 + (sigma1_256 w10 + w5 + sigma0_256 w13);
   (h, d) = Round_256 e f g h a b c d 0xd192e819 w12;
   w13 = w13 + (sigma1_256 w11 + w6 + sigma0_256 w14);
   (g, c) = Round_256 d e f g h a b c 0xd6990624 w13;
   w14 = w14 + (sigma1_256 w12 + w7 + sigma0_256 w15);
   (f, b) = Round_256 c d e f g h a b 0xf40e3585 w14;
   w15 = w15 + (sigma1_256 w13 + w8 + sigma0_256 w0);
   (e, a) = Round_256 b c d e f g h a 0x106aa070 w15;
   w0 = w0 + (sigma1_256 w14 + w9 + sigma0_256 w1);
   (d, h) = Round_256 a b c d e f g h 0x19a4c116 w0;
   w1 = w1 + (sigma1_256 w15 + w10 + sigma0_256 w2);
   (c, g) = Round_256 h a b c d e f g 0x1e376c08 w1;
   w2 = w2 + (sigma1_256 w0 + w11 + sigma0_256 w3);
   (b, f) = Round_256 g h a b c d e f 0x2748774c w2;
   w3 = w3 + (sigma1_256 w1 + w12 + sigma0_256 w4);
   (a, e) = Round_256 f g h a b c d e 0x34b0bcb5 w3;
   w4 = w4 + (sigma1_256 w2 + w13 + sigma0_256 w5);
   (h, d) = Round_256 e f g h a b c d 0x391c0cb3 w4;
   w5 = w5 + (sigma1_256 w3 + w14 + sigma0_256 w6);
   (g, c) = Round_256 d e f g h a b c 0x4ed8aa4a w5;
   w6 = w6 + (sigma1_256 w4 + w15 + sigma0_256 w7);
   (f, b) = Round_256 c d e f g h a b 0x5b9cca4f w6;
   w7 = w7 + (sigma1_256 w5 + w0 + sigma0_256 w8);
   (e, a) = Round_256 b c d e f g h a 0x682e6ff3 w7;
   w8 = w8 + (sigma1_256 w6 + w1 + sigma0_256 w9);
   (d, h) = Round_256 a b c d e f g h 0x748f82ee w8;
   w9 = w9 + (sigma1_256 w7 + w2 + sigma0_256 w10);
   (c, g) = Round_256 h a b c d e f g 0x78a5636f w9;
   w10 = w10 + (sigma1_256 w8 + w3 + sigma0_256 w11);
   (b, f) = Round_256 g h a b c d e f 0x84c87814 w10;
   w11 = w11 + (sigma1_256 w9 + w4 + sigma0_256 w12);
   (a, e) = Round_256 f g h a b c d e 0x8cc70208 w11;
   w12 = w12 + (sigma1_256 w10 + w5 + sigma0_256 w13);
   (h, d) = Round_256 e f g h a b c d 0x90befffa w12;
   w13 = w13 + (sigma1_256 w11 + w6 + sigma0_256 w14);
   (g, c) = Round_256 d e f g h a b c 0xa4506ceb w13;
   (f, b) = Round_256 c d e f g h a b 0xbef9a3f7 (w14 + sigma1_256 w12 + w7 + sigma0_256 w15);
   (e, a) = Round_256 b c d e f g h a 0xc67178f2 (w15 + sigma1_256 w13 + w8 + sigma0_256 w0)
   in [s ! 0 + a, s ! 1 + b, s ! 2 + c, s ! 3 + d, s ! 4 + e, s ! 5 + f, s ! 6 + g, s ! 7 + h])"

section \<open>FIPS 180-4\<close>

definition fips256_Ch :: "u32 \<Rightarrow> u32 \<Rightarrow> u32 \<Rightarrow> u32" where
  "fips256_Ch x y z = (x AND y) XOR (NOT x AND z)"

definition fips256_Maj :: "u32 \<Rightarrow> u32 \<Rightarrow> u32 \<Rightarrow> u32" where
  "fips256_Maj x y z = (x AND y) XOR (x AND z) XOR (y AND z)"

definition fips256_Sigma0 :: "u32 \<Rightarrow> u32" where
  "fips256_Sigma0 x = word_rotr 2 x XOR word_rotr 13 x XOR word_rotr 22 x"

definition fips256_Sigma1 :: "u32 \<Rightarrow> u32" where
  "fips256_Sigma1 x = word_rotr 6 x XOR word_rotr 11 x XOR word_rotr 25 x"

definition fips256_sigma0 :: "u32 \<Rightarrow> u32" where
  "fips256_sigma0 x = word_rotr 7 x XOR word_rotr 18 x XOR drop_bit 3 x"

definition fips256_sigma1 :: "u32 \<Rightarrow> u32" where
  "fips256_sigma1 x = word_rotr 17 x XOR word_rotr 19 x XOR drop_bit 10 x"

definition fips256_K :: "u32 list" where
  "fips256_K = concat
      [[0x428a2f98, 0x71374491, 0xb5c0fbcf, 0xe9b5dba5, 0x3956c25b, 0x59f111f1, 0x923f82a4, 0xab1c5ed5],
       [0xd807aa98, 0x12835b01, 0x243185be, 0x550c7dc3, 0x72be5d74, 0x80deb1fe, 0x9bdc06a7, 0xc19bf174],
       [0xe49b69c1, 0xefbe4786, 0x0fc19dc6, 0x240ca1cc, 0x2de92c6f, 0x4a7484aa, 0x5cb0a9dc, 0x76f988da],
       [0x983e5152, 0xa831c66d, 0xb00327c8, 0xbf597fc7, 0xc6e00bf3, 0xd5a79147, 0x06ca6351, 0x14292967],
       [0x27b70a85, 0x2e1b2138, 0x4d2c6dfc, 0x53380d13, 0x650a7354, 0x766a0abb, 0x81c2c92e, 0x92722c85],
       [0xa2bfe8a1, 0xa81a664b, 0xc24b8b70, 0xc76c51a3, 0xd192e819, 0xd6990624, 0xf40e3585, 0x106aa070],
       [0x19a4c116, 0x1e376c08, 0x2748774c, 0x34b0bcb5, 0x391c0cb3, 0x4ed8aa4a, 0x5b9cca4f, 0x682e6ff3],
       [0x748f82ee, 0x78a5636f, 0x84c87814, 0x8cc70208, 0x90befffa, 0xa4506ceb, 0xbef9a3f7, 0xc67178f2]]"

definition fips256_H0 :: "u32 list" where
  "fips256_H0 =
    [0x6a09e667, 0xbb67ae85, 0x3c6ef372, 0xa54ff53a, 0x510e527f, 0x9b05688c, 0x1f83d9ab, 0x5be0cd19]"

text \<open>The message schedule of a block of sixteen words.\<close>

fun fips256_W :: "u32 list \<Rightarrow> nat \<Rightarrow> u32" where
  "fips256_W M t =
     (if t < 16 then M ! t
      else fips256_sigma1 (fips256_W M (t - 2)) + fips256_W M (t - 7)
        + fips256_sigma0 (fips256_W M (t - 15)) + fips256_W M (t - 16))"

declare fips256_W.simps [simp del]

type_synonym regs256 = "u32 \<times> u32 \<times> u32 \<times> u32 \<times> u32 \<times> u32 \<times> u32 \<times> u32"

fun fips256_step :: "regs256 \<Rightarrow> u32 \<times> u32 \<Rightarrow> regs256" where
  "fips256_step (a, b, c, d, e, f, g, h) (K, W) =
     (let T1 = h + fips256_Sigma1 e + fips256_Ch e f g + K + W;
          T2 = fips256_Sigma0 a + fips256_Maj a b c
      in (T1 + T2, a, b, c, d + T1, e, f, g))"

fun fips256_final :: "u32 list \<Rightarrow> regs256 \<Rightarrow> u32 list" where
  "fips256_final H (a, b, c, d, e, f, g, h) =
     [H ! 0 + a, H ! 1 + b, H ! 2 + c, H ! 3 + d, H ! 4 + e, H ! 5 + f, H ! 6 + g, H ! 7 + h]"

definition fips256_words :: "bytes \<Rightarrow> u32 list" where
  "fips256_words chunk = map (\<lambda>i. be_word (take 4 (drop (4 * i) chunk))) [0..<16]"

definition fips256_compress :: "u32 list \<Rightarrow> bytes \<Rightarrow> u32 list" where
  "fips256_compress H chunk =
     fips256_final H
       (foldl fips256_step (H ! 0, H ! 1, H ! 2, H ! 3, H ! 4, H ! 5, H ! 6, H ! 7)
         (zip fips256_K (map (fips256_W (fips256_words chunk)) [0..<64])))"

section \<open>The code's round is the standard's\<close>

lemma round_functions_256:
  "Ch_256 = fips256_Ch" "Maj_256 = fips256_Maj"
  "Sigma0_256 = fips256_Sigma0" "Sigma1_256 = fips256_Sigma1"
  "sigma0_256 = fips256_sigma0" "sigma1_256 = fips256_sigma1"
proof -
  show "Ch_256 = fips256_Ch" "Maj_256 = fips256_Maj"
    by (intro ext bit_word_eqI;
        auto simp: Ch_256_def fips256_Ch_def Maj_256_def fips256_Maj_def bit_simps)+
  show "Sigma0_256 = fips256_Sigma0" "Sigma1_256 = fips256_Sigma1"
    "sigma0_256 = fips256_sigma0" "sigma1_256 = fips256_sigma1"
    using rotr_or_shifts [where 'a = 32]
    by (simp_all add: fun_eq_iff Sigma0_256_def fips256_Sigma0_def Sigma1_256_def fips256_Sigma1_def
        sigma0_256_def fips256_sigma0_def sigma1_256_def fips256_sigma1_def
        flip: rotr_or_shifts)
qed

interpretation r256: sha2_rounds Round_256 fips256_step
  by unfold_locales (auto simp: Round_256_def Let_def round_functions_256 ac_simps)

text \<open>One in-place update of the message words is one step of the schedule.\<close>

lemma fips256_W_next:
  assumes "j = i + 14" "k = i + 9" "l = i + 1"
  shows "fips256_W M i + (sigma1_256 (fips256_W M j) + fips256_W M k + sigma0_256 (fips256_W M l))
      = fips256_W M (i + 16)"
    and "fips256_W M i + sigma1_256 (fips256_W M j) + fips256_W M k + sigma0_256 (fips256_W M l)
      = fips256_W M (i + 16)"
  using assms by (simp_all add: fips256_W.simps [of M "i + 16"] round_functions_256 ac_simps)

lemma length_fips256_words [simp]: "length (fips256_words chunk) = 16"
  by (simp add: fips256_words_def)

lemma chunk32_eq:
  assumes "length chunk = 64" "i < 16"
  shows "be32_to_cpu bo (chunk32 bo chunk i) = fips256_W (fips256_words chunk) i"
  using assms
  by (simp add: chunk32_def be_to_cpu_host_word fips256_W.simps [of _ i] fips256_words_def)

lemma zip_fips256_K:
  "zip fips256_K (map W [0..<64]) = [(0x428a2f98, W 0),
     (0x71374491, W 1),
     (0xb5c0fbcf, W 2),
     (0xe9b5dba5, W 3),
     (0x3956c25b, W 4),
     (0x59f111f1, W 5),
     (0x923f82a4, W 6),
     (0xab1c5ed5, W 7),
     (0xd807aa98, W 8),
     (0x12835b01, W 9),
     (0x243185be, W 10),
     (0x550c7dc3, W 11),
     (0x72be5d74, W 12),
     (0x80deb1fe, W 13),
     (0x9bdc06a7, W 14),
     (0xc19bf174, W 15),
     (0xe49b69c1, W 16),
     (0xefbe4786, W 17),
     (0x0fc19dc6, W 18),
     (0x240ca1cc, W 19),
     (0x2de92c6f, W 20),
     (0x4a7484aa, W 21),
     (0x5cb0a9dc, W 22),
     (0x76f988da, W 23),
     (0x983e5152, W 24),
     (0xa831c66d, W 25),
     (0xb00327c8, W 26),
     (0xbf597fc7, W 27),
     (0xc6e00bf3, W 28),
     (0xd5a79147, W 29),
     (0x06ca6351, W 30),
     (0x14292967, W 31),
     (0x27b70a85, W 32),
     (0x2e1b2138, W 33),
     (0x4d2c6dfc, W 34),
     (0x53380d13, W 35),
     (0x650a7354, W 36),
     (0x766a0abb, W 37),
     (0x81c2c92e, W 38),
     (0x92722c85, W 39),
     (0xa2bfe8a1, W 40),
     (0xa81a664b, W 41),
     (0xc24b8b70, W 42),
     (0xc76c51a3, W 43),
     (0xd192e819, W 44),
     (0xd6990624, W 45),
     (0xf40e3585, W 46),
     (0x106aa070, W 47),
     (0x19a4c116, W 48),
     (0x1e376c08, W 49),
     (0x2748774c, W 50),
     (0x34b0bcb5, W 51),
     (0x391c0cb3, W 52),
     (0x4ed8aa4a, W 53),
     (0x5b9cca4f, W 54),
     (0x682e6ff3, W 55),
     (0x748f82ee, W 56),
     (0x78a5636f, W 57),
     (0x84c87814, W 58),
     (0x8cc70208, W 59),
     (0x90befffa, W 60),
     (0xa4506ceb, W 61),
     (0xbef9a3f7, W 62),
     (0xc67178f2, W 63)]"
  by (simp add: fips256_K_def upt_64)

lemma schedule_256:
  "fips256_W M 0 + (sigma1_256 (fips256_W M 14) + fips256_W M 9 + sigma0_256 (fips256_W M 1)) = fips256_W M 16"
  "fips256_W M 1 + (sigma1_256 (fips256_W M 15) + fips256_W M 10 + sigma0_256 (fips256_W M 2)) = fips256_W M 17"
  "fips256_W M 2 + (sigma1_256 (fips256_W M 16) + fips256_W M 11 + sigma0_256 (fips256_W M 3)) = fips256_W M 18"
  "fips256_W M 3 + (sigma1_256 (fips256_W M 17) + fips256_W M 12 + sigma0_256 (fips256_W M 4)) = fips256_W M 19"
  "fips256_W M 4 + (sigma1_256 (fips256_W M 18) + fips256_W M 13 + sigma0_256 (fips256_W M 5)) = fips256_W M 20"
  "fips256_W M 5 + (sigma1_256 (fips256_W M 19) + fips256_W M 14 + sigma0_256 (fips256_W M 6)) = fips256_W M 21"
  "fips256_W M 6 + (sigma1_256 (fips256_W M 20) + fips256_W M 15 + sigma0_256 (fips256_W M 7)) = fips256_W M 22"
  "fips256_W M 7 + (sigma1_256 (fips256_W M 21) + fips256_W M 16 + sigma0_256 (fips256_W M 8)) = fips256_W M 23"
  "fips256_W M 8 + (sigma1_256 (fips256_W M 22) + fips256_W M 17 + sigma0_256 (fips256_W M 9)) = fips256_W M 24"
  "fips256_W M 9 + (sigma1_256 (fips256_W M 23) + fips256_W M 18 + sigma0_256 (fips256_W M 10)) = fips256_W M 25"
  "fips256_W M 10 + (sigma1_256 (fips256_W M 24) + fips256_W M 19 + sigma0_256 (fips256_W M 11)) = fips256_W M 26"
  "fips256_W M 11 + (sigma1_256 (fips256_W M 25) + fips256_W M 20 + sigma0_256 (fips256_W M 12)) = fips256_W M 27"
  "fips256_W M 12 + (sigma1_256 (fips256_W M 26) + fips256_W M 21 + sigma0_256 (fips256_W M 13)) = fips256_W M 28"
  "fips256_W M 13 + (sigma1_256 (fips256_W M 27) + fips256_W M 22 + sigma0_256 (fips256_W M 14)) = fips256_W M 29"
  "fips256_W M 14 + (sigma1_256 (fips256_W M 28) + fips256_W M 23 + sigma0_256 (fips256_W M 15)) = fips256_W M 30"
  "fips256_W M 15 + (sigma1_256 (fips256_W M 29) + fips256_W M 24 + sigma0_256 (fips256_W M 16)) = fips256_W M 31"
  "fips256_W M 16 + (sigma1_256 (fips256_W M 30) + fips256_W M 25 + sigma0_256 (fips256_W M 17)) = fips256_W M 32"
  "fips256_W M 17 + (sigma1_256 (fips256_W M 31) + fips256_W M 26 + sigma0_256 (fips256_W M 18)) = fips256_W M 33"
  "fips256_W M 18 + (sigma1_256 (fips256_W M 32) + fips256_W M 27 + sigma0_256 (fips256_W M 19)) = fips256_W M 34"
  "fips256_W M 19 + (sigma1_256 (fips256_W M 33) + fips256_W M 28 + sigma0_256 (fips256_W M 20)) = fips256_W M 35"
  "fips256_W M 20 + (sigma1_256 (fips256_W M 34) + fips256_W M 29 + sigma0_256 (fips256_W M 21)) = fips256_W M 36"
  "fips256_W M 21 + (sigma1_256 (fips256_W M 35) + fips256_W M 30 + sigma0_256 (fips256_W M 22)) = fips256_W M 37"
  "fips256_W M 22 + (sigma1_256 (fips256_W M 36) + fips256_W M 31 + sigma0_256 (fips256_W M 23)) = fips256_W M 38"
  "fips256_W M 23 + (sigma1_256 (fips256_W M 37) + fips256_W M 32 + sigma0_256 (fips256_W M 24)) = fips256_W M 39"
  "fips256_W M 24 + (sigma1_256 (fips256_W M 38) + fips256_W M 33 + sigma0_256 (fips256_W M 25)) = fips256_W M 40"
  "fips256_W M 25 + (sigma1_256 (fips256_W M 39) + fips256_W M 34 + sigma0_256 (fips256_W M 26)) = fips256_W M 41"
  "fips256_W M 26 + (sigma1_256 (fips256_W M 40) + fips256_W M 35 + sigma0_256 (fips256_W M 27)) = fips256_W M 42"
  "fips256_W M 27 + (sigma1_256 (fips256_W M 41) + fips256_W M 36 + sigma0_256 (fips256_W M 28)) = fips256_W M 43"
  "fips256_W M 28 + (sigma1_256 (fips256_W M 42) + fips256_W M 37 + sigma0_256 (fips256_W M 29)) = fips256_W M 44"
  "fips256_W M 29 + (sigma1_256 (fips256_W M 43) + fips256_W M 38 + sigma0_256 (fips256_W M 30)) = fips256_W M 45"
  "fips256_W M 30 + (sigma1_256 (fips256_W M 44) + fips256_W M 39 + sigma0_256 (fips256_W M 31)) = fips256_W M 46"
  "fips256_W M 31 + (sigma1_256 (fips256_W M 45) + fips256_W M 40 + sigma0_256 (fips256_W M 32)) = fips256_W M 47"
  "fips256_W M 32 + (sigma1_256 (fips256_W M 46) + fips256_W M 41 + sigma0_256 (fips256_W M 33)) = fips256_W M 48"
  "fips256_W M 33 + (sigma1_256 (fips256_W M 47) + fips256_W M 42 + sigma0_256 (fips256_W M 34)) = fips256_W M 49"
  "fips256_W M 34 + (sigma1_256 (fips256_W M 48) + fips256_W M 43 + sigma0_256 (fips256_W M 35)) = fips256_W M 50"
  "fips256_W M 35 + (sigma1_256 (fips256_W M 49) + fips256_W M 44 + sigma0_256 (fips256_W M 36)) = fips256_W M 51"
  "fips256_W M 36 + (sigma1_256 (fips256_W M 50) + fips256_W M 45 + sigma0_256 (fips256_W M 37)) = fips256_W M 52"
  "fips256_W M 37 + (sigma1_256 (fips256_W M 51) + fips256_W M 46 + sigma0_256 (fips256_W M 38)) = fips256_W M 53"
  "fips256_W M 38 + (sigma1_256 (fips256_W M 52) + fips256_W M 47 + sigma0_256 (fips256_W M 39)) = fips256_W M 54"
  "fips256_W M 39 + (sigma1_256 (fips256_W M 53) + fips256_W M 48 + sigma0_256 (fips256_W M 40)) = fips256_W M 55"
  "fips256_W M 40 + (sigma1_256 (fips256_W M 54) + fips256_W M 49 + sigma0_256 (fips256_W M 41)) = fips256_W M 56"
  "fips256_W M 41 + (sigma1_256 (fips256_W M 55) + fips256_W M 50 + sigma0_256 (fips256_W M 42)) = fips256_W M 57"
  "fips256_W M 42 + (sigma1_256 (fips256_W M 56) + fips256_W M 51 + sigma0_256 (fips256_W M 43)) = fips256_W M 58"
  "fips256_W M 43 + (sigma1_256 (fips256_W M 57) + fips256_W M 52 + sigma0_256 (fips256_W M 44)) = fips256_W M 59"
  "fips256_W M 44 + (sigma1_256 (fips256_W M 58) + fips256_W M 53 + sigma0_256 (fips256_W M 45)) = fips256_W M 60"
  "fips256_W M 45 + (sigma1_256 (fips256_W M 59) + fips256_W M 54 + sigma0_256 (fips256_W M 46)) = fips256_W M 61"
  "fips256_W M 46 + sigma1_256 (fips256_W M 60) + fips256_W M 55 + sigma0_256 (fips256_W M 47) = fips256_W M 62"
  "fips256_W M 47 + sigma1_256 (fips256_W M 61) + fips256_W M 56 + sigma0_256 (fips256_W M 48) = fips256_W M 63"
  by (simp_all add: fips256_W_next)

lemma Transform_256_eq:
  assumes "length chunk = 64"
  shows "Transform_256 bo s chunk = fips256_compress s chunk"
proof -
  show ?thesis
    unfolding fips256_compress_def zip_fips256_K Transform_256_def
    by ((rule let_sim, (rule schedule_256 | rule chunk32_eq [OF assms], simp | rule refl)) |
        (rule r256.sim [where G = "fips256_final s"], (rule schedule_256 | rule refl)) |
         rule r256.sim_done [where G = "fips256_final s"])+
       (simp only: fips256_final.simps)
qed

lemma length_fips256_final [simp]: "length (fips256_final H r) = 8"
  by (induction H r rule: fips256_final.induct) simp

section \<open>The streaming interface\<close>

type_synonym sha256_ctx = "u32 hash_ctx"

definition SHA256_INIT :: sha256_ctx where
  "SHA256_INIT =
     \<lparr>hc_s = [0x6a09e667, 0xbb67ae85, 0x3c6ef372, 0xa54ff53a,
              0x510e527f, 0x9b05688c, 0x1f83d9ab, 0x5be0cd19],
      hc_buf = replicate 64 0, hc_bytes = 0\<rparr>"

definition invalidate_sha256 :: "sha256_ctx \<Rightarrow> sha256_ctx" where
  "invalidate_sha256 ctx = ctx\<lparr>hc_bytes := - 1\<rparr>"

definition check_sha256 :: "sha256_ctx \<Rightarrow> unit option" where
  "check_sha256 ctx = c_assert (hc_bytes ctx \<noteq> - 1)"

definition add_256 :: "host \<Rightarrow> sha256_ctx \<Rightarrow> bytes \<Rightarrow> sha256_ctx" where
  "add_256 H ctx p = block_add 64 (Transform_256 (host_order H)) (host_aligned H) ctx p"

definition sha256_init :: sha256_ctx where
  "sha256_init = SHA256_INIT"

definition sha256_update :: "host \<Rightarrow> sha256_ctx \<Rightarrow> bytes \<Rightarrow> sha256_ctx option" where
  "sha256_update H ctx p = do { check_sha256 ctx; Some (add_256 H ctx p) }"

definition sha256_done :: "host \<Rightarrow> sha256_ctx \<Rightarrow> bytes \<times> sha256_ctx" where
  "sha256_done H ctx =
     (let pad = 0x80 # replicate 63 0;
          sizedesc = cpu_to_be64 (host_order H) (push_bit 3 (hc_bytes ctx));
          ctx = add_256 H ctx
            (take (unat (1 + ((128 - 8 - (hc_bytes ctx mod 64) - 1) mod 64))) pad);
          ctx = add_256 H ctx (host_bytes (host_order H) 8 sizedesc);
          res = concat (map (\<lambda>i. host_bytes (host_order H) 4
            (cpu_to_be32 (host_order H) (hc_s ctx ! i))) [0..<8])
      in (res, invalidate_sha256 ctx))"

definition sha256 :: "host \<Rightarrow> bytes \<Rightarrow> bytes option" where
  "sha256 H p = do {
     ctx \<leftarrow> sha256_update H sha256_init p;
     Some (fst (sha256_done H ctx)) }"

text \<open>Updates by an integer object, in host, little-endian and big-endian order.\<close>

definition sha256_u8 :: "host \<Rightarrow> sha256_ctx \<Rightarrow> u8 \<Rightarrow> sha256_ctx option" where
  "sha256_u8 H ctx v = sha256_update H ctx [v]"

definition sha256_u16 :: "host \<Rightarrow> sha256_ctx \<Rightarrow> u16 \<Rightarrow> sha256_ctx option" where
  "sha256_u16 H ctx v = sha256_update H ctx (host_bytes (host_order H) 2 v)"

definition sha256_u32 :: "host \<Rightarrow> sha256_ctx \<Rightarrow> u32 \<Rightarrow> sha256_ctx option" where
  "sha256_u32 H ctx v = sha256_update H ctx (host_bytes (host_order H) 4 v)"

definition sha256_u64 :: "host \<Rightarrow> sha256_ctx \<Rightarrow> u64 \<Rightarrow> sha256_ctx option" where
  "sha256_u64 H ctx v = sha256_update H ctx (host_bytes (host_order H) 8 v)"

definition sha256_le16 :: "host \<Rightarrow> sha256_ctx \<Rightarrow> u16 \<Rightarrow> sha256_ctx option" where
  "sha256_le16 H ctx v =
     sha256_update H ctx (host_bytes (host_order H) 2 (cpu_to_le16 (host_order H) v))"

definition sha256_le32 :: "host \<Rightarrow> sha256_ctx \<Rightarrow> u32 \<Rightarrow> sha256_ctx option" where
  "sha256_le32 H ctx v =
     sha256_update H ctx (host_bytes (host_order H) 4 (cpu_to_le32 (host_order H) v))"

definition sha256_le64 :: "host \<Rightarrow> sha256_ctx \<Rightarrow> u64 \<Rightarrow> sha256_ctx option" where
  "sha256_le64 H ctx v =
     sha256_update H ctx (host_bytes (host_order H) 8 (cpu_to_le64 (host_order H) v))"

definition sha256_be16 :: "host \<Rightarrow> sha256_ctx \<Rightarrow> u16 \<Rightarrow> sha256_ctx option" where
  "sha256_be16 H ctx v =
     sha256_update H ctx (host_bytes (host_order H) 2 (cpu_to_be16 (host_order H) v))"

definition sha256_be32 :: "host \<Rightarrow> sha256_ctx \<Rightarrow> u32 \<Rightarrow> sha256_ctx option" where
  "sha256_be32 H ctx v =
     sha256_update H ctx (host_bytes (host_order H) 4 (cpu_to_be32 (host_order H) v))"

definition sha256_be64 :: "host \<Rightarrow> sha256_ctx \<Rightarrow> u64 \<Rightarrow> sha256_ctx option" where
  "sha256_be64 H ctx v =
     sha256_update H ctx (host_bytes (host_order H) 8 (cpu_to_be64 (host_order H) v))"

section \<open>The digest of the standard\<close>

definition fips256_pad :: "bytes \<Rightarrow> bytes" where
  "fips256_pad x = x @ 0x80 # replicate ((64 - (length x + 1 + 8) mod 64) mod 64) 0
     @ be_bytes 8 (of_nat (8 * length x) :: u64)"

definition fips256_digest :: "bytes \<Rightarrow> bytes" where
  "fips256_digest x =
     concat (map (be_bytes 4) (foldl fips256_compress fips256_H0 (full_blocks 64 (fips256_pad x))))"

lemma length_foldl_compress_256:
  "length st = 8 \<Longrightarrow> length (foldl fips256_compress st bs) = 8"
  by (induction bs arbitrary: st) (simp_all add: fips256_compress_def)

lemma length_fips256_digest [simp]: "length (fips256_digest x) = 32"
proof -
  have len: "length (concat (map (be_bytes 4) ws)) = 4 * length ws" for ws :: "u32 list"
    by (induction ws) simp_all
  have "length fips256_H0 = 8" by (simp add: fips256_H0_def)
  then show ?thesis by (simp add: fips256_digest_def len length_foldl_compress_256)
qed

section \<open>The code computes the standard's digest\<close>

interpretation md256: md_hash 64 "Transform_256 bo" fips256_H0 for bo
  by unfold_locales (simp_all add: fips256_H0_def Transform_256_eq fips256_compress_def)

definition absorbed_256 :: "host \<Rightarrow> sha256_ctx \<Rightarrow> bytes \<Rightarrow> bool" where
  "absorbed_256 H = md256.absorbed (host_order H)"

lemma add_256_absorbed: "absorbed_256 H ctx x \<Longrightarrow> absorbed_256 H (add_256 H ctx d) (x @ d)"
  unfolding absorbed_256_def add_256_def by (rule md256.block_add_absorbed)

lemma sha256_init_absorbed: "absorbed_256 H sha256_init []"
  using md256.absorbed_empty [of "replicate 64 0" "host_order H"]
  by (simp add: absorbed_256_def sha256_init_def SHA256_INIT_def fips256_H0_def)

lemma absorbed_256_bytes: "absorbed_256 H ctx x \<Longrightarrow> hc_bytes ctx = of_nat (length x)"
  by (simp add: absorbed_256_def md256.absorbed_def)

lemma absorbed_256_state:
  assumes "absorbed_256 H ctx x"
  shows "hc_s ctx = foldl fips256_compress fips256_H0 (full_blocks 64 x)"
proof -
  have "foldl (Transform_256 bo) st bs = foldl fips256_compress st bs"
    if "\<forall>b \<in> set bs. length b = 64" for bo st bs
    using that by (induction bs arbitrary: st) (simp_all add: Transform_256_eq)
  moreover have "\<forall>b \<in> set (full_blocks 64 x). length b = 64"
    using length_full_blocks by blast
  ultimately show ?thesis
    using assms by (simp add: absorbed_256_def md256.absorbed_def)
qed

text \<open>The padding length, computed on \<open>size_t\<close>, is the standard's.\<close>

lemma pad_length_256:
  "unat (1 + ((128 - 8 - ((of_nat n :: u64) mod 64) - 1) mod 64)) = 1 + (64 - (n + 1 + 8) mod 64) mod 64"
proof -
  let ?y = "(of_nat n :: u64) mod 64" and ?r = "n mod 64"
  have y: "unat ?y = ?r"
    using md256.unat_of_nat_mod [of n] by simp
  have le: "?y \<le> 119" by (simp add: word_le_nat_alt y)
  let ?w = "(119 - ?y) mod 64"
  have "unat (119 - ?y) = 119 - ?r"
    using le by (simp add: unat_sub y)
  then have w: "unat ?w = (119 - ?r) mod 64"
    by (simp add: unat_mod_distrib)
  have e: "2 * 64 - 9 - ?r = 119 - ?r" "n + 9 = n + 1 + 8" by simp_all
  have z: "(119 - ?r) mod 64 = (64 - (n + 1 + 8) mod 64) mod 64"
    by (rule pad_zeros [of 9 64 n, unfolded e]) simp_all
  have "unat ?w < 64" unfolding w by simp
  then have "unat (1 + ?w) = 1 + unat ?w"
    by (simp add: unat_word_ariths)
  moreover have "128 - 8 - ?y - 1 = 119 - ?y" by simp
  ultimately show ?thesis by (simp only: w z)
qed

lemma sha256_done_digest:
  assumes "absorbed_256 H ctx x"
  shows "fst (sha256_done H ctx) = fips256_digest x"
proof -
  let ?bo = "host_order H" and ?n = "length x"
  let ?z = "(64 - (?n + 1 + 8) mod 64) mod 64"
  have n: "hc_bytes ctx = of_nat ?n" using assms by (rule absorbed_256_bytes)
  have pad: "take (Suc ?z) (0x80 # replicate 63 0) = (0x80 :: u8) # replicate ?z 0"
    by (simp add: min_def)
  have len: "push_bit 3 (of_nat ?n) = (of_nat (8 * ?n) :: u64)"
    by (simp add: push_bit_eq_mult)
  define ctx1 where "ctx1 = add_256 H ctx (0x80 # replicate ?z 0)"
  define ctx2 where "ctx2 = add_256 H ctx1 (be_bytes 8 (of_nat (8 * ?n) :: u64))"
  have "absorbed_256 H ctx2 ((x @ 0x80 # replicate ?z 0) @ be_bytes 8 (of_nat (8 * ?n) :: u64))"
    unfolding ctx1_def ctx2_def by (intro add_256_absorbed assms)
  then have "absorbed_256 H ctx2 (fips256_pad x)"
    by (simp only: fips256_pad_def append_assoc append_Cons)
  then have st: "hc_s ctx2 = foldl fips256_compress fips256_H0 (full_blocks 64 (fips256_pad x))"
    by (rule absorbed_256_state)
  have "length (hc_s ctx2) = 8"
    unfolding st by (rule length_foldl_compress_256) (simp add: fips256_H0_def)
  then have "map (\<lambda>i. host_bytes ?bo 4 (cpu_to_be32 ?bo (hc_s ctx2 ! i))) [0..<8] =
      map (be_bytes 4) (hc_s ctx2)"
    by (intro nth_equalityI) (simp_all add: bytes_simps)
  moreover have "fst (sha256_done H ctx) =
      concat (map (\<lambda>i. host_bytes ?bo 4 (cpu_to_be32 ?bo (hc_s ctx2 ! i))) [0..<8])"
    unfolding sha256_done_def Let_def n pad_length_256 bytes_simps len ctx2_def ctx1_def
    using pad by simp
  ultimately show ?thesis by (simp add: fips256_digest_def st)
qed

lemma sha256_update_absorbed:
  assumes "absorbed_256 H ctx x" "length x + length d < 2 ^ 61"
  shows "\<exists>ctx'. sha256_update H ctx d = Some ctx' \<and> absorbed_256 H ctx' (x @ d)"
proof -
  have "(of_nat (length x) :: u64) \<noteq> - 1"
  proof
    assume "(of_nat (length x) :: u64) = - 1"
    then have "unat (of_nat (length x) :: u64) = 2 ^ 64 - 1" 
      by (simp add: unsigned_minus_1_eq_mask mask_eq_exp_minus_1)
    moreover have "unat (of_nat (length x) :: u64) \<le> length x"
      by (simp add: unat_of_nat)
    ultimately show False using assms(2) by simp
  qed
  then show ?thesis
    using assms(1) by (simp add: sha256_update_def check_sha256_def absorbed_256_bytes add_256_absorbed)
qed

interpretation sha256: stream_hash sha256_init "sha256_update H" "sha256_done H" fips256_digest
    "absorbed_256 H" 32 for H
  by unfold_locales
     (simp_all add: sha256_init_absorbed sha256_update_absorbed sha256_done_digest)

lemma sha256_eq: "length p < 2 ^ 61 \<Longrightarrow> sha256 H p = Some (fips256_digest p)"
  using sha256.hash_of_updates [of "[p]" H] by (auto simp: sha256_def bind_eq_Some_conv)

section \<open>Properties\<close>

text \<open>The 64 unrolled rounds of \<open>Transform\<close> with their in-place message schedule compute the
  compression function of FIPS 180-4, on hosts of either byte order.\<close>

theorem Transform_256_is_fips_compression:
  assumes "length s = 8" "length chunk = 64"
  shows "Transform_256 bo s chunk = fips256_compress s chunk"
  using assms by (simp add: Transform_256_eq)

theorem Transform_256_is_fips_compression_witness:
  "Transform_256 Big_Endian (replicate 8 7) (replicate 64 1) = fips256_compress (replicate 8 7) (replicate 64 1)"
  by (rule Transform_256_is_fips_compression) simp_all

text \<open>C29: Hashing in any number of updates, of any sizes, on data aligned or not, never hits the assertion on
  an invalidated context and ends with the SHA-256 digest of the concatenation; the context is
  then invalid, and one more update aborts.\<close>

theorem sha256_streaming:
  assumes "length (concat ds) < 2 ^ 61"
  shows "\<exists>ctx. hash_updates (sha256_update H) sha256_init ds = Some ctx \<and>
    fst (sha256_done H ctx) = fips256_digest (concat ds) \<and>
    sha256_update H (snd (sha256_done H ctx)) d = None"
proof -
  obtain ctx where ctx: "hash_updates (sha256_update H) sha256_init ds = Some ctx"
      "fst (sha256_done H ctx) = fips256_digest (concat ds)"
    using sha256.hash_of_updates [OF assms] by blast
  have "hc_bytes (snd (sha256_done H ctx)) = - 1"
    by (simp add: sha256_done_def Let_def invalidate_sha256_def)
  then have "sha256_update H (snd (sha256_done H ctx)) d = None"
    by (simp add: sha256_update_def check_sha256_def)
  with ctx show ?thesis by blast
qed

theorem sha256_streaming_witness:
  "\<exists>ctx. hash_updates (sha256_update \<lparr>host_order = Little_Endian, host_aligned = False\<rparr>) sha256_init
      [ascii ''abc'', [], replicate 200 0] = Some ctx \<and>
    fst (sha256_done \<lparr>host_order = Little_Endian, host_aligned = False\<rparr> ctx) =
      fips256_digest (concat [ascii ''abc'', [], replicate 200 0]) \<and>
    sha256_update \<lparr>host_order = Little_Endian, host_aligned = False\<rparr>
      (snd (sha256_done \<lparr>host_order = Little_Endian, host_aligned = False\<rparr> ctx)) [1] = None"
  by (rule sha256_streaming) simp

end
