(* ===== verification/Sha512.thy ===== *)
theory Sha512
  imports Hash_Core
begin

text \<open>
  \<open>sha512.c\<close> (the build without OpenSSL): the round functions, the unrolled \<open>Transform\<close>,
  the buffering \<open>add\<close>, and the streaming interface \<open>sha512_init\<close>, \<open>sha512_update\<close>,
  \<open>sha512_done\<close> with its \<open>assert\<close>. FIPS 180-4 gives the abstract specification; the lemmas
  show that \<open>Transform\<close> is the standard's compression function on every host, and that the
  streaming interface computes the standard's digest of the concatenated input.
\<close>

section \<open>Round functions\<close>

definition Ch_512 :: "u64 \<Rightarrow> u64 \<Rightarrow> u64 \<Rightarrow> u64" where
  "Ch_512 x y z = z XOR (x AND (y XOR z))"

definition Maj_512 :: "u64 \<Rightarrow> u64 \<Rightarrow> u64 \<Rightarrow> u64" where
  "Maj_512 x y z = (x AND y) OR (z AND (x OR y))"

definition Sigma0_512 :: "u64 \<Rightarrow> u64" where
  "Sigma0_512 x = (drop_bit 28 x OR push_bit 36 x) XOR (drop_bit 34 x OR push_bit 30 x)
     XOR (drop_bit 39 x OR push_bit 25 x)"

definition Sigma1_512 :: "u64 \<Rightarrow> u64" where
  "Sigma1_512 x = (drop_bit 14 x OR push_bit 50 x) XOR (drop_bit 18 x OR push_bit 46 x)
     XOR (drop_bit 41 x OR push_bit 23 x)"

definition sigma0_512 :: "u64 \<Rightarrow> u64" where
  "sigma0_512 x = (drop_bit 1 x OR push_bit 63 x) XOR (drop_bit 8 x OR push_bit 56 x)
     XOR (drop_bit 7 x)"

definition sigma1_512 :: "u64 \<Rightarrow> u64" where
  "sigma1_512 x = (drop_bit 19 x OR push_bit 45 x) XOR (drop_bit 61 x OR push_bit 3 x)
     XOR (drop_bit 6 x)"

text \<open>\<open>Round\<close> writes through its \<open>d\<close> and \<open>h\<close>: the model returns the two new values.\<close>

definition Round_512 ::
  "u64 \<Rightarrow> u64 \<Rightarrow> u64 \<Rightarrow> u64 \<Rightarrow> u64 \<Rightarrow> u64 \<Rightarrow> u64 \<Rightarrow> u64 \<Rightarrow> u64 \<Rightarrow> u64 \<Rightarrow> u64 \<times> u64" where
  "Round_512 a b c d e f g h k w =
     (let t1 = h + Sigma1_512 e + Ch_512 e f g + k + w;
          t2 = Sigma0_512 a + Maj_512 a b c
      in (d + t1, t1 + t2))"

section \<open>The compression function\<close>

text \<open>\<open>chunk[i]\<close> of a \<open>uint64_t\<close> pointer into the 128 bytes of a block.\<close>

definition chunk64 :: "byte_order \<Rightarrow> bytes \<Rightarrow> nat \<Rightarrow> u64" where
  "chunk64 bo chunk i = host_word bo (take 8 (drop (8 * i) chunk))"

definition Transform_512 :: "byte_order \<Rightarrow> u64 list \<Rightarrow> bytes \<Rightarrow> u64 list" where
  "Transform_512 bo s chunk =
  (let a = s ! 0; b = s ! 1; c = s ! 2; d = s ! 3; e = s ! 4; f = s ! 5; g = s ! 6; h = s ! 7;
   w0 = be64_to_cpu bo (chunk64 bo chunk 0);
   (d, h) = Round_512 a b c d e f g h 0x428a2f98d728ae22 w0;
   w1 = be64_to_cpu bo (chunk64 bo chunk 1);
   (c, g) = Round_512 h a b c d e f g 0x7137449123ef65cd w1;
   w2 = be64_to_cpu bo (chunk64 bo chunk 2);
   (b, f) = Round_512 g h a b c d e f 0xb5c0fbcfec4d3b2f w2;
   w3 = be64_to_cpu bo (chunk64 bo chunk 3);
   (a, e) = Round_512 f g h a b c d e 0xe9b5dba58189dbbc w3;
   w4 = be64_to_cpu bo (chunk64 bo chunk 4);
   (h, d) = Round_512 e f g h a b c d 0x3956c25bf348b538 w4;
   w5 = be64_to_cpu bo (chunk64 bo chunk 5);
   (g, c) = Round_512 d e f g h a b c 0x59f111f1b605d019 w5;
   w6 = be64_to_cpu bo (chunk64 bo chunk 6);
   (f, b) = Round_512 c d e f g h a b 0x923f82a4af194f9b w6;
   w7 = be64_to_cpu bo (chunk64 bo chunk 7);
   (e, a) = Round_512 b c d e f g h a 0xab1c5ed5da6d8118 w7;
   w8 = be64_to_cpu bo (chunk64 bo chunk 8);
   (d, h) = Round_512 a b c d e f g h 0xd807aa98a3030242 w8;
   w9 = be64_to_cpu bo (chunk64 bo chunk 9);
   (c, g) = Round_512 h a b c d e f g 0x12835b0145706fbe w9;
   w10 = be64_to_cpu bo (chunk64 bo chunk 10);
   (b, f) = Round_512 g h a b c d e f 0x243185be4ee4b28c w10;
   w11 = be64_to_cpu bo (chunk64 bo chunk 11);
   (a, e) = Round_512 f g h a b c d e 0x550c7dc3d5ffb4e2 w11;
   w12 = be64_to_cpu bo (chunk64 bo chunk 12);
   (h, d) = Round_512 e f g h a b c d 0x72be5d74f27b896f w12;
   w13 = be64_to_cpu bo (chunk64 bo chunk 13);
   (g, c) = Round_512 d e f g h a b c 0x80deb1fe3b1696b1 w13;
   w14 = be64_to_cpu bo (chunk64 bo chunk 14);
   (f, b) = Round_512 c d e f g h a b 0x9bdc06a725c71235 w14;
   w15 = be64_to_cpu bo (chunk64 bo chunk 15);
   (e, a) = Round_512 b c d e f g h a 0xc19bf174cf692694 w15;
   w0 = w0 + (sigma1_512 w14 + w9 + sigma0_512 w1);
   (d, h) = Round_512 a b c d e f g h 0xe49b69c19ef14ad2 w0;
   w1 = w1 + (sigma1_512 w15 + w10 + sigma0_512 w2);
   (c, g) = Round_512 h a b c d e f g 0xefbe4786384f25e3 w1;
   w2 = w2 + (sigma1_512 w0 + w11 + sigma0_512 w3);
   (b, f) = Round_512 g h a b c d e f 0x0fc19dc68b8cd5b5 w2;
   w3 = w3 + (sigma1_512 w1 + w12 + sigma0_512 w4);
   (a, e) = Round_512 f g h a b c d e 0x240ca1cc77ac9c65 w3;
   w4 = w4 + (sigma1_512 w2 + w13 + sigma0_512 w5);
   (h, d) = Round_512 e f g h a b c d 0x2de92c6f592b0275 w4;
   w5 = w5 + (sigma1_512 w3 + w14 + sigma0_512 w6);
   (g, c) = Round_512 d e f g h a b c 0x4a7484aa6ea6e483 w5;
   w6 = w6 + (sigma1_512 w4 + w15 + sigma0_512 w7);
   (f, b) = Round_512 c d e f g h a b 0x5cb0a9dcbd41fbd4 w6;
   w7 = w7 + (sigma1_512 w5 + w0 + sigma0_512 w8);
   (e, a) = Round_512 b c d e f g h a 0x76f988da831153b5 w7;
   w8 = w8 + (sigma1_512 w6 + w1 + sigma0_512 w9);
   (d, h) = Round_512 a b c d e f g h 0x983e5152ee66dfab w8;
   w9 = w9 + (sigma1_512 w7 + w2 + sigma0_512 w10);
   (c, g) = Round_512 h a b c d e f g 0xa831c66d2db43210 w9;
   w10 = w10 + (sigma1_512 w8 + w3 + sigma0_512 w11);
   (b, f) = Round_512 g h a b c d e f 0xb00327c898fb213f w10;
   w11 = w11 + (sigma1_512 w9 + w4 + sigma0_512 w12);
   (a, e) = Round_512 f g h a b c d e 0xbf597fc7beef0ee4 w11;
   w12 = w12 + (sigma1_512 w10 + w5 + sigma0_512 w13);
   (h, d) = Round_512 e f g h a b c d 0xc6e00bf33da88fc2 w12;
   w13 = w13 + (sigma1_512 w11 + w6 + sigma0_512 w14);
   (g, c) = Round_512 d e f g h a b c 0xd5a79147930aa725 w13;
   w14 = w14 + (sigma1_512 w12 + w7 + sigma0_512 w15);
   (f, b) = Round_512 c d e f g h a b 0x06ca6351e003826f w14;
   w15 = w15 + (sigma1_512 w13 + w8 + sigma0_512 w0);
   (e, a) = Round_512 b c d e f g h a 0x142929670a0e6e70 w15;
   w0 = w0 + (sigma1_512 w14 + w9 + sigma0_512 w1);
   (d, h) = Round_512 a b c d e f g h 0x27b70a8546d22ffc w0;
   w1 = w1 + (sigma1_512 w15 + w10 + sigma0_512 w2);
   (c, g) = Round_512 h a b c d e f g 0x2e1b21385c26c926 w1;
   w2 = w2 + (sigma1_512 w0 + w11 + sigma0_512 w3);
   (b, f) = Round_512 g h a b c d e f 0x4d2c6dfc5ac42aed w2;
   w3 = w3 + (sigma1_512 w1 + w12 + sigma0_512 w4);
   (a, e) = Round_512 f g h a b c d e 0x53380d139d95b3df w3;
   w4 = w4 + (sigma1_512 w2 + w13 + sigma0_512 w5);
   (h, d) = Round_512 e f g h a b c d 0x650a73548baf63de w4;
   w5 = w5 + (sigma1_512 w3 + w14 + sigma0_512 w6);
   (g, c) = Round_512 d e f g h a b c 0x766a0abb3c77b2a8 w5;
   w6 = w6 + (sigma1_512 w4 + w15 + sigma0_512 w7);
   (f, b) = Round_512 c d e f g h a b 0x81c2c92e47edaee6 w6;
   w7 = w7 + (sigma1_512 w5 + w0 + sigma0_512 w8);
   (e, a) = Round_512 b c d e f g h a 0x92722c851482353b w7;
   w8 = w8 + (sigma1_512 w6 + w1 + sigma0_512 w9);
   (d, h) = Round_512 a b c d e f g h 0xa2bfe8a14cf10364 w8;
   w9 = w9 + (sigma1_512 w7 + w2 + sigma0_512 w10);
   (c, g) = Round_512 h a b c d e f g 0xa81a664bbc423001 w9;
   w10 = w10 + (sigma1_512 w8 + w3 + sigma0_512 w11);
   (b, f) = Round_512 g h a b c d e f 0xc24b8b70d0f89791 w10;
   w11 = w11 + (sigma1_512 w9 + w4 + sigma0_512 w12);
   (a, e) = Round_512 f g h a b c d e 0xc76c51a30654be30 w11;
   w12 = w12 + (sigma1_512 w10 + w5 + sigma0_512 w13);
   (h, d) = Round_512 e f g h a b c d 0xd192e819d6ef5218 w12;
   w13 = w13 + (sigma1_512 w11 + w6 + sigma0_512 w14);
   (g, c) = Round_512 d e f g h a b c 0xd69906245565a910 w13;
   w14 = w14 + (sigma1_512 w12 + w7 + sigma0_512 w15);
   (f, b) = Round_512 c d e f g h a b 0xf40e35855771202a w14;
   w15 = w15 + (sigma1_512 w13 + w8 + sigma0_512 w0);
   (e, a) = Round_512 b c d e f g h a 0x106aa07032bbd1b8 w15;
   w0 = w0 + (sigma1_512 w14 + w9 + sigma0_512 w1);
   (d, h) = Round_512 a b c d e f g h 0x19a4c116b8d2d0c8 w0;
   w1 = w1 + (sigma1_512 w15 + w10 + sigma0_512 w2);
   (c, g) = Round_512 h a b c d e f g 0x1e376c085141ab53 w1;
   w2 = w2 + (sigma1_512 w0 + w11 + sigma0_512 w3);
   (b, f) = Round_512 g h a b c d e f 0x2748774cdf8eeb99 w2;
   w3 = w3 + (sigma1_512 w1 + w12 + sigma0_512 w4);
   (a, e) = Round_512 f g h a b c d e 0x34b0bcb5e19b48a8 w3;
   w4 = w4 + (sigma1_512 w2 + w13 + sigma0_512 w5);
   (h, d) = Round_512 e f g h a b c d 0x391c0cb3c5c95a63 w4;
   w5 = w5 + (sigma1_512 w3 + w14 + sigma0_512 w6);
   (g, c) = Round_512 d e f g h a b c 0x4ed8aa4ae3418acb w5;
   w6 = w6 + (sigma1_512 w4 + w15 + sigma0_512 w7);
   (f, b) = Round_512 c d e f g h a b 0x5b9cca4f7763e373 w6;
   w7 = w7 + (sigma1_512 w5 + w0 + sigma0_512 w8);
   (e, a) = Round_512 b c d e f g h a 0x682e6ff3d6b2b8a3 w7;
   w8 = w8 + (sigma1_512 w6 + w1 + sigma0_512 w9);
   (d, h) = Round_512 a b c d e f g h 0x748f82ee5defb2fc w8;
   w9 = w9 + (sigma1_512 w7 + w2 + sigma0_512 w10);
   (c, g) = Round_512 h a b c d e f g 0x78a5636f43172f60 w9;
   w10 = w10 + (sigma1_512 w8 + w3 + sigma0_512 w11);
   (b, f) = Round_512 g h a b c d e f 0x84c87814a1f0ab72 w10;
   w11 = w11 + (sigma1_512 w9 + w4 + sigma0_512 w12);
   (a, e) = Round_512 f g h a b c d e 0x8cc702081a6439ec w11;
   w12 = w12 + (sigma1_512 w10 + w5 + sigma0_512 w13);
   (h, d) = Round_512 e f g h a b c d 0x90befffa23631e28 w12;
   w13 = w13 + (sigma1_512 w11 + w6 + sigma0_512 w14);
   (g, c) = Round_512 d e f g h a b c 0xa4506cebde82bde9 w13;
   w14 = w14 + (sigma1_512 w12 + w7 + sigma0_512 w15);
   (f, b) = Round_512 c d e f g h a b 0xbef9a3f7b2c67915 w14;
   w15 = w15 + (sigma1_512 w13 + w8 + sigma0_512 w0);
   (e, a) = Round_512 b c d e f g h a 0xc67178f2e372532b w15;
   w0 = w0 + (sigma1_512 w14 + w9 + sigma0_512 w1);
   (d, h) = Round_512 a b c d e f g h 0xca273eceea26619c w0;
   w1 = w1 + (sigma1_512 w15 + w10 + sigma0_512 w2);
   (c, g) = Round_512 h a b c d e f g 0xd186b8c721c0c207 w1;
   w2 = w2 + (sigma1_512 w0 + w11 + sigma0_512 w3);
   (b, f) = Round_512 g h a b c d e f 0xeada7dd6cde0eb1e w2;
   w3 = w3 + (sigma1_512 w1 + w12 + sigma0_512 w4);
   (a, e) = Round_512 f g h a b c d e 0xf57d4f7fee6ed178 w3;
   w4 = w4 + (sigma1_512 w2 + w13 + sigma0_512 w5);
   (h, d) = Round_512 e f g h a b c d 0x06f067aa72176fba w4;
   w5 = w5 + (sigma1_512 w3 + w14 + sigma0_512 w6);
   (g, c) = Round_512 d e f g h a b c 0x0a637dc5a2c898a6 w5;
   w6 = w6 + (sigma1_512 w4 + w15 + sigma0_512 w7);
   (f, b) = Round_512 c d e f g h a b 0x113f9804bef90dae w6;
   w7 = w7 + (sigma1_512 w5 + w0 + sigma0_512 w8);
   (e, a) = Round_512 b c d e f g h a 0x1b710b35131c471b w7;
   w8 = w8 + (sigma1_512 w6 + w1 + sigma0_512 w9);
   (d, h) = Round_512 a b c d e f g h 0x28db77f523047d84 w8;
   w9 = w9 + (sigma1_512 w7 + w2 + sigma0_512 w10);
   (c, g) = Round_512 h a b c d e f g 0x32caab7b40c72493 w9;
   w10 = w10 + (sigma1_512 w8 + w3 + sigma0_512 w11);
   (b, f) = Round_512 g h a b c d e f 0x3c9ebe0a15c9bebc w10;
   w11 = w11 + (sigma1_512 w9 + w4 + sigma0_512 w12);
   (a, e) = Round_512 f g h a b c d e 0x431d67c49c100d4c w11;
   w12 = w12 + (sigma1_512 w10 + w5 + sigma0_512 w13);
   (h, d) = Round_512 e f g h a b c d 0x4cc5d4becb3e42b6 w12;
   w13 = w13 + (sigma1_512 w11 + w6 + sigma0_512 w14);
   (g, c) = Round_512 d e f g h a b c 0x597f299cfc657e2a w13;
   (f, b) = Round_512 c d e f g h a b 0x5fcb6fab3ad6faec (w14 + sigma1_512 w12 + w7 + sigma0_512 w15);
   (e, a) = Round_512 b c d e f g h a 0x6c44198c4a475817 (w15 + sigma1_512 w13 + w8 + sigma0_512 w0)
   in [s ! 0 + a, s ! 1 + b, s ! 2 + c, s ! 3 + d, s ! 4 + e, s ! 5 + f, s ! 6 + g, s ! 7 + h])"

section \<open>FIPS 180-4\<close>

definition fips512_Ch :: "u64 \<Rightarrow> u64 \<Rightarrow> u64 \<Rightarrow> u64" where
  "fips512_Ch x y z = (x AND y) XOR (NOT x AND z)"

definition fips512_Maj :: "u64 \<Rightarrow> u64 \<Rightarrow> u64 \<Rightarrow> u64" where
  "fips512_Maj x y z = (x AND y) XOR (x AND z) XOR (y AND z)"

definition fips512_Sigma0 :: "u64 \<Rightarrow> u64" where
  "fips512_Sigma0 x = word_rotr 28 x XOR word_rotr 34 x XOR word_rotr 39 x"

definition fips512_Sigma1 :: "u64 \<Rightarrow> u64" where
  "fips512_Sigma1 x = word_rotr 14 x XOR word_rotr 18 x XOR word_rotr 41 x"

definition fips512_sigma0 :: "u64 \<Rightarrow> u64" where
  "fips512_sigma0 x = word_rotr 1 x XOR word_rotr 8 x XOR drop_bit 7 x"

definition fips512_sigma1 :: "u64 \<Rightarrow> u64" where
  "fips512_sigma1 x = word_rotr 19 x XOR word_rotr 61 x XOR drop_bit 6 x"

definition fips512_K :: "u64 list" where
  "fips512_K = concat
      [[0x428a2f98d728ae22, 0x7137449123ef65cd, 0xb5c0fbcfec4d3b2f, 0xe9b5dba58189dbbc],
       [0x3956c25bf348b538, 0x59f111f1b605d019, 0x923f82a4af194f9b, 0xab1c5ed5da6d8118],
       [0xd807aa98a3030242, 0x12835b0145706fbe, 0x243185be4ee4b28c, 0x550c7dc3d5ffb4e2],
       [0x72be5d74f27b896f, 0x80deb1fe3b1696b1, 0x9bdc06a725c71235, 0xc19bf174cf692694],
       [0xe49b69c19ef14ad2, 0xefbe4786384f25e3, 0x0fc19dc68b8cd5b5, 0x240ca1cc77ac9c65],
       [0x2de92c6f592b0275, 0x4a7484aa6ea6e483, 0x5cb0a9dcbd41fbd4, 0x76f988da831153b5],
       [0x983e5152ee66dfab, 0xa831c66d2db43210, 0xb00327c898fb213f, 0xbf597fc7beef0ee4],
       [0xc6e00bf33da88fc2, 0xd5a79147930aa725, 0x06ca6351e003826f, 0x142929670a0e6e70],
       [0x27b70a8546d22ffc, 0x2e1b21385c26c926, 0x4d2c6dfc5ac42aed, 0x53380d139d95b3df],
       [0x650a73548baf63de, 0x766a0abb3c77b2a8, 0x81c2c92e47edaee6, 0x92722c851482353b],
       [0xa2bfe8a14cf10364, 0xa81a664bbc423001, 0xc24b8b70d0f89791, 0xc76c51a30654be30],
       [0xd192e819d6ef5218, 0xd69906245565a910, 0xf40e35855771202a, 0x106aa07032bbd1b8],
       [0x19a4c116b8d2d0c8, 0x1e376c085141ab53, 0x2748774cdf8eeb99, 0x34b0bcb5e19b48a8],
       [0x391c0cb3c5c95a63, 0x4ed8aa4ae3418acb, 0x5b9cca4f7763e373, 0x682e6ff3d6b2b8a3],
       [0x748f82ee5defb2fc, 0x78a5636f43172f60, 0x84c87814a1f0ab72, 0x8cc702081a6439ec],
       [0x90befffa23631e28, 0xa4506cebde82bde9, 0xbef9a3f7b2c67915, 0xc67178f2e372532b],
       [0xca273eceea26619c, 0xd186b8c721c0c207, 0xeada7dd6cde0eb1e, 0xf57d4f7fee6ed178],
       [0x06f067aa72176fba, 0x0a637dc5a2c898a6, 0x113f9804bef90dae, 0x1b710b35131c471b],
       [0x28db77f523047d84, 0x32caab7b40c72493, 0x3c9ebe0a15c9bebc, 0x431d67c49c100d4c],
       [0x4cc5d4becb3e42b6, 0x597f299cfc657e2a, 0x5fcb6fab3ad6faec, 0x6c44198c4a475817]]"

definition fips512_H0 :: "u64 list" where
  "fips512_H0 =
    [0x6a09e667f3bcc908, 0xbb67ae8584caa73b, 0x3c6ef372fe94f82b, 0xa54ff53a5f1d36f1,
     0x510e527fade682d1, 0x9b05688c2b3e6c1f, 0x1f83d9abfb41bd6b, 0x5be0cd19137e2179]"

text \<open>The message schedule of a block of sixteen words.\<close>

fun fips512_W :: "u64 list \<Rightarrow> nat \<Rightarrow> u64" where
  "fips512_W M t =
     (if t < 16 then M ! t
      else fips512_sigma1 (fips512_W M (t - 2)) + fips512_W M (t - 7)
        + fips512_sigma0 (fips512_W M (t - 15)) + fips512_W M (t - 16))"

declare fips512_W.simps [simp del]

type_synonym regs512 = "u64 \<times> u64 \<times> u64 \<times> u64 \<times> u64 \<times> u64 \<times> u64 \<times> u64"

fun fips512_step :: "regs512 \<Rightarrow> u64 \<times> u64 \<Rightarrow> regs512" where
  "fips512_step (a, b, c, d, e, f, g, h) (K, W) =
     (let T1 = h + fips512_Sigma1 e + fips512_Ch e f g + K + W;
          T2 = fips512_Sigma0 a + fips512_Maj a b c
      in (T1 + T2, a, b, c, d + T1, e, f, g))"

fun fips512_final :: "u64 list \<Rightarrow> regs512 \<Rightarrow> u64 list" where
  "fips512_final H (a, b, c, d, e, f, g, h) =
     [H ! 0 + a, H ! 1 + b, H ! 2 + c, H ! 3 + d, H ! 4 + e, H ! 5 + f, H ! 6 + g, H ! 7 + h]"

definition fips512_words :: "bytes \<Rightarrow> u64 list" where
  "fips512_words chunk = map (\<lambda>i. be_word (take 8 (drop (8 * i) chunk))) [0..<16]"

definition fips512_compress :: "u64 list \<Rightarrow> bytes \<Rightarrow> u64 list" where
  "fips512_compress H chunk =
     fips512_final H
       (foldl fips512_step (H ! 0, H ! 1, H ! 2, H ! 3, H ! 4, H ! 5, H ! 6, H ! 7)
         (zip fips512_K (map (fips512_W (fips512_words chunk)) [0..<80])))"

section \<open>The code's round is the standard's\<close>

lemma round_functions_512:
  "Ch_512 = fips512_Ch" "Maj_512 = fips512_Maj"
  "Sigma0_512 = fips512_Sigma0" "Sigma1_512 = fips512_Sigma1"
  "sigma0_512 = fips512_sigma0" "sigma1_512 = fips512_sigma1"
proof -
  show "Ch_512 = fips512_Ch" "Maj_512 = fips512_Maj"
    by (intro ext bit_word_eqI;
        auto simp: Ch_512_def fips512_Ch_def Maj_512_def fips512_Maj_def bit_simps)+
  show "Sigma0_512 = fips512_Sigma0" "Sigma1_512 = fips512_Sigma1"
    "sigma0_512 = fips512_sigma0" "sigma1_512 = fips512_sigma1"
    using rotr_or_shifts [where 'a = 64]
    by (simp_all add: fun_eq_iff Sigma0_512_def fips512_Sigma0_def Sigma1_512_def fips512_Sigma1_def
        sigma0_512_def fips512_sigma0_def sigma1_512_def fips512_sigma1_def
        flip: rotr_or_shifts)
qed

interpretation r512: sha2_rounds Round_512 fips512_step
  by unfold_locales (auto simp: Round_512_def Let_def round_functions_512 ac_simps)

text \<open>One in-place update of the message words is one step of the schedule.\<close>

lemma fips512_W_next:
  assumes "j = i + 14" "k = i + 9" "l = i + 1"
  shows "fips512_W M i + (sigma1_512 (fips512_W M j) + fips512_W M k + sigma0_512 (fips512_W M l))
      = fips512_W M (i + 16)"
    and "fips512_W M i + sigma1_512 (fips512_W M j) + fips512_W M k + sigma0_512 (fips512_W M l)
      = fips512_W M (i + 16)"
  using assms by (simp_all add: fips512_W.simps [of M "i + 16"] round_functions_512 ac_simps)

lemma length_fips512_words [simp]: "length (fips512_words chunk) = 16"
  by (simp add: fips512_words_def)

lemma chunk64_eq:
  assumes "length chunk = 128" "i < 16"
  shows "be64_to_cpu bo (chunk64 bo chunk i) = fips512_W (fips512_words chunk) i"
  using assms
  by (simp add: chunk64_def be_to_cpu_host_word fips512_W.simps [of _ i] fips512_words_def)

lemma zip_fips512_K:
  "zip fips512_K (map W [0..<80]) =
    [(0x428a2f98d728ae22, W 0),
     (0x7137449123ef65cd, W 1),
     (0xb5c0fbcfec4d3b2f, W 2),
     (0xe9b5dba58189dbbc, W 3),
     (0x3956c25bf348b538, W 4),
     (0x59f111f1b605d019, W 5),
     (0x923f82a4af194f9b, W 6),
     (0xab1c5ed5da6d8118, W 7),
     (0xd807aa98a3030242, W 8),
     (0x12835b0145706fbe, W 9),
     (0x243185be4ee4b28c, W 10),
     (0x550c7dc3d5ffb4e2, W 11),
     (0x72be5d74f27b896f, W 12),
     (0x80deb1fe3b1696b1, W 13),
     (0x9bdc06a725c71235, W 14),
     (0xc19bf174cf692694, W 15),
     (0xe49b69c19ef14ad2, W 16),
     (0xefbe4786384f25e3, W 17),
     (0x0fc19dc68b8cd5b5, W 18),
     (0x240ca1cc77ac9c65, W 19),
     (0x2de92c6f592b0275, W 20),
     (0x4a7484aa6ea6e483, W 21),
     (0x5cb0a9dcbd41fbd4, W 22),
     (0x76f988da831153b5, W 23),
     (0x983e5152ee66dfab, W 24),
     (0xa831c66d2db43210, W 25),
     (0xb00327c898fb213f, W 26),
     (0xbf597fc7beef0ee4, W 27),
     (0xc6e00bf33da88fc2, W 28),
     (0xd5a79147930aa725, W 29),
     (0x06ca6351e003826f, W 30),
     (0x142929670a0e6e70, W 31),
     (0x27b70a8546d22ffc, W 32),
     (0x2e1b21385c26c926, W 33),
     (0x4d2c6dfc5ac42aed, W 34),
     (0x53380d139d95b3df, W 35),
     (0x650a73548baf63de, W 36),
     (0x766a0abb3c77b2a8, W 37),
     (0x81c2c92e47edaee6, W 38),
     (0x92722c851482353b, W 39),
     (0xa2bfe8a14cf10364, W 40),
     (0xa81a664bbc423001, W 41),
     (0xc24b8b70d0f89791, W 42),
     (0xc76c51a30654be30, W 43),
     (0xd192e819d6ef5218, W 44),
     (0xd69906245565a910, W 45),
     (0xf40e35855771202a, W 46),
     (0x106aa07032bbd1b8, W 47),
     (0x19a4c116b8d2d0c8, W 48),
     (0x1e376c085141ab53, W 49),
     (0x2748774cdf8eeb99, W 50),
     (0x34b0bcb5e19b48a8, W 51),
     (0x391c0cb3c5c95a63, W 52),
     (0x4ed8aa4ae3418acb, W 53),
     (0x5b9cca4f7763e373, W 54),
     (0x682e6ff3d6b2b8a3, W 55),
     (0x748f82ee5defb2fc, W 56),
     (0x78a5636f43172f60, W 57),
     (0x84c87814a1f0ab72, W 58),
     (0x8cc702081a6439ec, W 59),
     (0x90befffa23631e28, W 60),
     (0xa4506cebde82bde9, W 61),
     (0xbef9a3f7b2c67915, W 62),
     (0xc67178f2e372532b, W 63),
     (0xca273eceea26619c, W 64),
     (0xd186b8c721c0c207, W 65),
     (0xeada7dd6cde0eb1e, W 66),
     (0xf57d4f7fee6ed178, W 67),
     (0x06f067aa72176fba, W 68),
     (0x0a637dc5a2c898a6, W 69),
     (0x113f9804bef90dae, W 70),
     (0x1b710b35131c471b, W 71),
     (0x28db77f523047d84, W 72),
     (0x32caab7b40c72493, W 73),
     (0x3c9ebe0a15c9bebc, W 74),
     (0x431d67c49c100d4c, W 75),
     (0x4cc5d4becb3e42b6, W 76),
     (0x597f299cfc657e2a, W 77),
     (0x5fcb6fab3ad6faec, W 78),
     (0x6c44198c4a475817, W 79)]"
  by (simp add: fips512_K_def upt_80)

lemma schedule_512:
  "fips512_W M 0 + (sigma1_512 (fips512_W M 14) + fips512_W M 9 + sigma0_512 (fips512_W M 1)) = fips512_W M 16"
  "fips512_W M 1 + (sigma1_512 (fips512_W M 15) + fips512_W M 10 + sigma0_512 (fips512_W M 2)) = fips512_W M 17"
  "fips512_W M 2 + (sigma1_512 (fips512_W M 16) + fips512_W M 11 + sigma0_512 (fips512_W M 3)) = fips512_W M 18"
  "fips512_W M 3 + (sigma1_512 (fips512_W M 17) + fips512_W M 12 + sigma0_512 (fips512_W M 4)) = fips512_W M 19"
  "fips512_W M 4 + (sigma1_512 (fips512_W M 18) + fips512_W M 13 + sigma0_512 (fips512_W M 5)) = fips512_W M 20"
  "fips512_W M 5 + (sigma1_512 (fips512_W M 19) + fips512_W M 14 + sigma0_512 (fips512_W M 6)) = fips512_W M 21"
  "fips512_W M 6 + (sigma1_512 (fips512_W M 20) + fips512_W M 15 + sigma0_512 (fips512_W M 7)) = fips512_W M 22"
  "fips512_W M 7 + (sigma1_512 (fips512_W M 21) + fips512_W M 16 + sigma0_512 (fips512_W M 8)) = fips512_W M 23"
  "fips512_W M 8 + (sigma1_512 (fips512_W M 22) + fips512_W M 17 + sigma0_512 (fips512_W M 9)) = fips512_W M 24"
  "fips512_W M 9 + (sigma1_512 (fips512_W M 23) + fips512_W M 18 + sigma0_512 (fips512_W M 10)) = fips512_W M 25"
  "fips512_W M 10 + (sigma1_512 (fips512_W M 24) + fips512_W M 19 + sigma0_512 (fips512_W M 11)) = fips512_W M 26"
  "fips512_W M 11 + (sigma1_512 (fips512_W M 25) + fips512_W M 20 + sigma0_512 (fips512_W M 12)) = fips512_W M 27"
  "fips512_W M 12 + (sigma1_512 (fips512_W M 26) + fips512_W M 21 + sigma0_512 (fips512_W M 13)) = fips512_W M 28"
  "fips512_W M 13 + (sigma1_512 (fips512_W M 27) + fips512_W M 22 + sigma0_512 (fips512_W M 14)) = fips512_W M 29"
  "fips512_W M 14 + (sigma1_512 (fips512_W M 28) + fips512_W M 23 + sigma0_512 (fips512_W M 15)) = fips512_W M 30"
  "fips512_W M 15 + (sigma1_512 (fips512_W M 29) + fips512_W M 24 + sigma0_512 (fips512_W M 16)) = fips512_W M 31"
  "fips512_W M 16 + (sigma1_512 (fips512_W M 30) + fips512_W M 25 + sigma0_512 (fips512_W M 17)) = fips512_W M 32"
  "fips512_W M 17 + (sigma1_512 (fips512_W M 31) + fips512_W M 26 + sigma0_512 (fips512_W M 18)) = fips512_W M 33"
  "fips512_W M 18 + (sigma1_512 (fips512_W M 32) + fips512_W M 27 + sigma0_512 (fips512_W M 19)) = fips512_W M 34"
  "fips512_W M 19 + (sigma1_512 (fips512_W M 33) + fips512_W M 28 + sigma0_512 (fips512_W M 20)) = fips512_W M 35"
  "fips512_W M 20 + (sigma1_512 (fips512_W M 34) + fips512_W M 29 + sigma0_512 (fips512_W M 21)) = fips512_W M 36"
  "fips512_W M 21 + (sigma1_512 (fips512_W M 35) + fips512_W M 30 + sigma0_512 (fips512_W M 22)) = fips512_W M 37"
  "fips512_W M 22 + (sigma1_512 (fips512_W M 36) + fips512_W M 31 + sigma0_512 (fips512_W M 23)) = fips512_W M 38"
  "fips512_W M 23 + (sigma1_512 (fips512_W M 37) + fips512_W M 32 + sigma0_512 (fips512_W M 24)) = fips512_W M 39"
  "fips512_W M 24 + (sigma1_512 (fips512_W M 38) + fips512_W M 33 + sigma0_512 (fips512_W M 25)) = fips512_W M 40"
  "fips512_W M 25 + (sigma1_512 (fips512_W M 39) + fips512_W M 34 + sigma0_512 (fips512_W M 26)) = fips512_W M 41"
  "fips512_W M 26 + (sigma1_512 (fips512_W M 40) + fips512_W M 35 + sigma0_512 (fips512_W M 27)) = fips512_W M 42"
  "fips512_W M 27 + (sigma1_512 (fips512_W M 41) + fips512_W M 36 + sigma0_512 (fips512_W M 28)) = fips512_W M 43"
  "fips512_W M 28 + (sigma1_512 (fips512_W M 42) + fips512_W M 37 + sigma0_512 (fips512_W M 29)) = fips512_W M 44"
  "fips512_W M 29 + (sigma1_512 (fips512_W M 43) + fips512_W M 38 + sigma0_512 (fips512_W M 30)) = fips512_W M 45"
  "fips512_W M 30 + (sigma1_512 (fips512_W M 44) + fips512_W M 39 + sigma0_512 (fips512_W M 31)) = fips512_W M 46"
  "fips512_W M 31 + (sigma1_512 (fips512_W M 45) + fips512_W M 40 + sigma0_512 (fips512_W M 32)) = fips512_W M 47"
  "fips512_W M 32 + (sigma1_512 (fips512_W M 46) + fips512_W M 41 + sigma0_512 (fips512_W M 33)) = fips512_W M 48"
  "fips512_W M 33 + (sigma1_512 (fips512_W M 47) + fips512_W M 42 + sigma0_512 (fips512_W M 34)) = fips512_W M 49"
  "fips512_W M 34 + (sigma1_512 (fips512_W M 48) + fips512_W M 43 + sigma0_512 (fips512_W M 35)) = fips512_W M 50"
  "fips512_W M 35 + (sigma1_512 (fips512_W M 49) + fips512_W M 44 + sigma0_512 (fips512_W M 36)) = fips512_W M 51"
  "fips512_W M 36 + (sigma1_512 (fips512_W M 50) + fips512_W M 45 + sigma0_512 (fips512_W M 37)) = fips512_W M 52"
  "fips512_W M 37 + (sigma1_512 (fips512_W M 51) + fips512_W M 46 + sigma0_512 (fips512_W M 38)) = fips512_W M 53"
  "fips512_W M 38 + (sigma1_512 (fips512_W M 52) + fips512_W M 47 + sigma0_512 (fips512_W M 39)) = fips512_W M 54"
  "fips512_W M 39 + (sigma1_512 (fips512_W M 53) + fips512_W M 48 + sigma0_512 (fips512_W M 40)) = fips512_W M 55"
  "fips512_W M 40 + (sigma1_512 (fips512_W M 54) + fips512_W M 49 + sigma0_512 (fips512_W M 41)) = fips512_W M 56"
  "fips512_W M 41 + (sigma1_512 (fips512_W M 55) + fips512_W M 50 + sigma0_512 (fips512_W M 42)) = fips512_W M 57"
  "fips512_W M 42 + (sigma1_512 (fips512_W M 56) + fips512_W M 51 + sigma0_512 (fips512_W M 43)) = fips512_W M 58"
  "fips512_W M 43 + (sigma1_512 (fips512_W M 57) + fips512_W M 52 + sigma0_512 (fips512_W M 44)) = fips512_W M 59"
  "fips512_W M 44 + (sigma1_512 (fips512_W M 58) + fips512_W M 53 + sigma0_512 (fips512_W M 45)) = fips512_W M 60"
  "fips512_W M 45 + (sigma1_512 (fips512_W M 59) + fips512_W M 54 + sigma0_512 (fips512_W M 46)) = fips512_W M 61"
  "fips512_W M 46 + (sigma1_512 (fips512_W M 60) + fips512_W M 55 + sigma0_512 (fips512_W M 47)) = fips512_W M 62"
  "fips512_W M 47 + (sigma1_512 (fips512_W M 61) + fips512_W M 56 + sigma0_512 (fips512_W M 48)) = fips512_W M 63"
  "fips512_W M 48 + (sigma1_512 (fips512_W M 62) + fips512_W M 57 + sigma0_512 (fips512_W M 49)) = fips512_W M 64"
  "fips512_W M 49 + (sigma1_512 (fips512_W M 63) + fips512_W M 58 + sigma0_512 (fips512_W M 50)) = fips512_W M 65"
  "fips512_W M 50 + (sigma1_512 (fips512_W M 64) + fips512_W M 59 + sigma0_512 (fips512_W M 51)) = fips512_W M 66"
  "fips512_W M 51 + (sigma1_512 (fips512_W M 65) + fips512_W M 60 + sigma0_512 (fips512_W M 52)) = fips512_W M 67"
  "fips512_W M 52 + (sigma1_512 (fips512_W M 66) + fips512_W M 61 + sigma0_512 (fips512_W M 53)) = fips512_W M 68"
  "fips512_W M 53 + (sigma1_512 (fips512_W M 67) + fips512_W M 62 + sigma0_512 (fips512_W M 54)) = fips512_W M 69"
  "fips512_W M 54 + (sigma1_512 (fips512_W M 68) + fips512_W M 63 + sigma0_512 (fips512_W M 55)) = fips512_W M 70"
  "fips512_W M 55 + (sigma1_512 (fips512_W M 69) + fips512_W M 64 + sigma0_512 (fips512_W M 56)) = fips512_W M 71"
  "fips512_W M 56 + (sigma1_512 (fips512_W M 70) + fips512_W M 65 + sigma0_512 (fips512_W M 57)) = fips512_W M 72"
  "fips512_W M 57 + (sigma1_512 (fips512_W M 71) + fips512_W M 66 + sigma0_512 (fips512_W M 58)) = fips512_W M 73"
  "fips512_W M 58 + (sigma1_512 (fips512_W M 72) + fips512_W M 67 + sigma0_512 (fips512_W M 59)) = fips512_W M 74"
  "fips512_W M 59 + (sigma1_512 (fips512_W M 73) + fips512_W M 68 + sigma0_512 (fips512_W M 60)) = fips512_W M 75"
  "fips512_W M 60 + (sigma1_512 (fips512_W M 74) + fips512_W M 69 + sigma0_512 (fips512_W M 61)) = fips512_W M 76"
  "fips512_W M 61 + (sigma1_512 (fips512_W M 75) + fips512_W M 70 + sigma0_512 (fips512_W M 62)) = fips512_W M 77"
  "fips512_W M 62 + sigma1_512 (fips512_W M 76) + fips512_W M 71 + sigma0_512 (fips512_W M 63) = fips512_W M 78"
  "fips512_W M 63 + sigma1_512 (fips512_W M 77) + fips512_W M 72 + sigma0_512 (fips512_W M 64) = fips512_W M 79"
  by (simp_all add: fips512_W_next)

lemma Transform_512_eq:
  assumes "length chunk = 128"
  shows "Transform_512 bo s chunk = fips512_compress s chunk"
proof -
  show ?thesis
    unfolding fips512_compress_def zip_fips512_K Transform_512_def
    by ((rule let_sim, (rule schedule_512 | rule chunk64_eq [OF assms], simp | rule refl)) |
        (rule r512.sim [where G = "fips512_final s"], (rule schedule_512 | rule refl)) |
         rule r512.sim_done [where G = "fips512_final s"])+
       (simp only: fips512_final.simps)
qed

lemma length_fips512_final [simp]: "length (fips512_final H r) = 8"
  by (induction H r rule: fips512_final.induct) simp

section \<open>The streaming interface\<close>

type_synonym sha512_ctx = "u64 hash_ctx"

definition SHA512_INIT :: sha512_ctx where
  "SHA512_INIT =
     \<lparr>hc_s = [0x6a09e667f3bcc908, 0xbb67ae8584caa73b, 0x3c6ef372fe94f82b, 0xa54ff53a5f1d36f1,
              0x510e527fade682d1, 0x9b05688c2b3e6c1f, 0x1f83d9abfb41bd6b, 0x5be0cd19137e2179],
      hc_buf = replicate 128 0, hc_bytes = 0\<rparr>"

definition invalidate_sha512 :: "sha512_ctx \<Rightarrow> sha512_ctx" where
  "invalidate_sha512 ctx = ctx\<lparr>hc_bytes := - 1\<rparr>"

definition check_sha512 :: "sha512_ctx \<Rightarrow> unit option" where
  "check_sha512 ctx = c_assert (hc_bytes ctx \<noteq> - 1)"

definition add_512 :: "host \<Rightarrow> sha512_ctx \<Rightarrow> bytes \<Rightarrow> sha512_ctx" where
  "add_512 H ctx p = block_add 128 (Transform_512 (host_order H)) (host_aligned H) ctx p"

definition sha512_init :: sha512_ctx where
  "sha512_init = SHA512_INIT"

definition sha512_update :: "host \<Rightarrow> sha512_ctx \<Rightarrow> bytes \<Rightarrow> sha512_ctx option" where
  "sha512_update H ctx p = do { check_sha512 ctx; Some (add_512 H ctx p) }"

definition sha512_done :: "host \<Rightarrow> sha512_ctx \<Rightarrow> bytes \<times> sha512_ctx" where
  "sha512_done H ctx =
     (let pad = 0x80 # replicate 127 0;
          sizedesc = [0, cpu_to_be64 (host_order H) (push_bit 3 (hc_bytes ctx))];
          ctx = add_512 H ctx
            (take (unat (1 + ((256 - 16 - (hc_bytes ctx mod 128) - 1) mod 128))) pad);
          ctx = add_512 H ctx (concat (map (host_bytes (host_order H) 8) sizedesc));
          res = concat (map (\<lambda>i. host_bytes (host_order H) 8
            (cpu_to_be64 (host_order H) (hc_s ctx ! i))) [0..<8])
      in (res, invalidate_sha512 ctx))"

definition sha512 :: "host \<Rightarrow> bytes \<Rightarrow> bytes option" where
  "sha512 H p = do {
     ctx \<leftarrow> sha512_update H sha512_init p;
     Some (fst (sha512_done H ctx)) }"

section \<open>The digest of the standard\<close>

definition fips512_pad :: "bytes \<Rightarrow> bytes" where
  "fips512_pad x = x @ 0x80 # replicate ((128 - (length x + 1 + 16) mod 128) mod 128) 0
     @ be_bytes 16 (of_nat (8 * length x) :: 128 word)"

text \<open>The code writes the 128-bit length as a zero word and a 64-bit word.\<close>

lemma be_bytes_16:
  assumes "n < 2 ^ 64"
  shows "be_bytes 16 (of_nat n :: 128 word) = replicate 8 0 @ be_bytes 8 (of_nat n :: u64)"
proof -
  have high: "\<not> bit n i" if "64 \<le> i" for i
    using that assms bit_take_bit_iff [of 64 n i] by (simp add: take_bit_nat_eq_self)
  have "le_bytes 16 (of_nat n :: 128 word) = le_bytes 8 (of_nat n :: u64) @ replicate 8 0"
  proof (rule nth_equalityI)
    fix i assume "i < length (le_bytes 16 (of_nat n :: 128 word))"
    then have i: "i < 16" by simp
    show "le_bytes 16 (of_nat n :: 128 word) ! i = (le_bytes 8 (of_nat n :: u64) @ replicate 8 0) ! i"
    proof (cases "i < 8")
      case True
      then show ?thesis
        by (intro bit_word_eqI)
           (simp add: nth_append bit_ucast_iff bit_drop_bit_eq bit_of_nat_word)
    next
      case False
      then show ?thesis using i high
        by (intro bit_word_eqI)
           (simp add: nth_append bit_ucast_iff bit_drop_bit_eq bit_of_nat_word)
    qed
  qed simp
  then show ?thesis by (simp add: be_bytes_def)
qed

definition fips512_digest :: "bytes \<Rightarrow> bytes" where
  "fips512_digest x =
     concat (map (be_bytes 8) (foldl fips512_compress fips512_H0 (full_blocks 128 (fips512_pad x))))"

lemma length_foldl_compress_512:
  "length st = 8 \<Longrightarrow> length (foldl fips512_compress st bs) = 8"
  by (induction bs arbitrary: st) (simp_all add: fips512_compress_def)

lemma length_fips512_digest [simp]: "length (fips512_digest x) = 64"
proof -
  have len: "length (concat (map (be_bytes 8) ws)) = 8 * length ws" for ws :: "u64 list"
    by (induction ws) simp_all
  have "length fips512_H0 = 8" by (simp add: fips512_H0_def)
  then show ?thesis by (simp add: fips512_digest_def len length_foldl_compress_512)
qed

section \<open>The code computes the standard's digest\<close>

interpretation md512: md_hash 128 "Transform_512 bo" fips512_H0 for bo
  by unfold_locales (simp_all add: fips512_H0_def Transform_512_eq fips512_compress_def)

definition absorbed_512 :: "host \<Rightarrow> sha512_ctx \<Rightarrow> bytes \<Rightarrow> bool" where
  "absorbed_512 H = md512.absorbed (host_order H)"

lemma add_512_absorbed: "absorbed_512 H ctx x \<Longrightarrow> absorbed_512 H (add_512 H ctx d) (x @ d)"
  unfolding absorbed_512_def add_512_def by (rule md512.block_add_absorbed)

lemma sha512_init_absorbed: "absorbed_512 H sha512_init []"
  using md512.absorbed_empty [of "replicate 128 0" "host_order H"]
  by (simp add: absorbed_512_def sha512_init_def SHA512_INIT_def fips512_H0_def)

lemma absorbed_512_bytes: "absorbed_512 H ctx x \<Longrightarrow> hc_bytes ctx = of_nat (length x)"
  by (simp add: absorbed_512_def md512.absorbed_def)

lemma absorbed_512_state:
  assumes "absorbed_512 H ctx x"
  shows "hc_s ctx = foldl fips512_compress fips512_H0 (full_blocks 128 x)"
proof -
  have "foldl (Transform_512 bo) st bs = foldl fips512_compress st bs"
    if "\<forall>b \<in> set bs. length b = 128" for bo st bs
    using that by (induction bs arbitrary: st) (simp_all add: Transform_512_eq)
  moreover have "\<forall>b \<in> set (full_blocks 128 x). length b = 128"
    using length_full_blocks by blast
  ultimately show ?thesis
    using assms by (simp add: absorbed_512_def md512.absorbed_def)
qed

text \<open>The padding length, computed on \<open>size_t\<close>, is the standard's.\<close>

lemma pad_length_512:
  "unat (1 + ((256 - 16 - ((of_nat n :: u64) mod 128) - 1) mod 128)) = 1 + (128 - (n + 1 + 16) mod 128) mod 128"
proof -
  let ?y = "(of_nat n :: u64) mod 128" and ?r = "n mod 128"
  have y: "unat ?y = ?r"
    using md512.unat_of_nat_mod [of n] by simp
  have le: "?y \<le> 239" by (simp add: word_le_nat_alt y)
  let ?w = "(239 - ?y) mod 128"
  have "unat (239 - ?y) = 239 - ?r"
    using le by (simp add: unat_sub y)
  then have w: "unat ?w = (239 - ?r) mod 128"
    by (simp add: unat_mod_distrib)
  have e: "2 * 128 - 17 - ?r = 239 - ?r" "n + 17 = n + 1 + 16" by simp_all
  have z: "(239 - ?r) mod 128 = (128 - (n + 1 + 16) mod 128) mod 128"
    by (rule pad_zeros [of 17 128 n, unfolded e]) simp_all
  have "unat ?w < 128" unfolding w by simp
  then have "unat (1 + ?w) = 1 + unat ?w"
    by (simp add: unat_word_ariths)
  moreover have "256 - 16 - ?y - 1 = 239 - ?y" by simp
  ultimately show ?thesis by (simp only: w z)
qed

lemma sha512_done_digest:
  assumes "absorbed_512 H ctx x" "length x < 2 ^ 61"
  shows "fst (sha512_done H ctx) = fips512_digest x"
proof -
  let ?bo = "host_order H" and ?n = "length x"
  let ?z = "(128 - (?n + 1 + 16) mod 128) mod 128"
  have n: "hc_bytes ctx = of_nat ?n" using assms(1) by (rule absorbed_512_bytes)
  have pad: "take (Suc ?z) (0x80 # replicate 127 0) = (0x80 :: u8) # replicate ?z 0"
    by (simp add: min_def)
  have len: "push_bit 3 (of_nat ?n) = (of_nat (8 * ?n) :: u64)"
    by (simp add: push_bit_eq_mult)
  have size: "concat (map (host_bytes ?bo 8) [0, cpu_to_be64 ?bo (of_nat (8 * ?n))]) =
      be_bytes 16 (of_nat (8 * ?n) :: 128 word)"
    using be_bytes_16 [of "8 * ?n"] assms(2) by (simp add: bytes_simps)
  define ctx1 where "ctx1 = add_512 H ctx (0x80 # replicate ?z 0)"
  define ctx2 where "ctx2 = add_512 H ctx1 (be_bytes 16 (of_nat (8 * ?n) :: 128 word))"
  have "absorbed_512 H ctx2 ((x @ 0x80 # replicate ?z 0) @ be_bytes 16 (of_nat (8 * ?n) :: 128 word))"
    unfolding ctx1_def ctx2_def by (intro add_512_absorbed assms(1))
  then have "absorbed_512 H ctx2 (fips512_pad x)"
    by (simp only: fips512_pad_def append_assoc append_Cons)
  then have st: "hc_s ctx2 = foldl fips512_compress fips512_H0 (full_blocks 128 (fips512_pad x))"
    by (rule absorbed_512_state)
  have "length (hc_s ctx2) = 8"
    unfolding st by (rule length_foldl_compress_512) (simp add: fips512_H0_def)
  then have "map (\<lambda>i. host_bytes ?bo 8 (cpu_to_be64 ?bo (hc_s ctx2 ! i))) [0..<8] =
      map (be_bytes 8) (hc_s ctx2)"
    by (intro nth_equalityI) (simp_all add: bytes_simps)
  moreover have "fst (sha512_done H ctx) =
      concat (map (\<lambda>i. host_bytes ?bo 8 (cpu_to_be64 ?bo (hc_s ctx2 ! i))) [0..<8])"
    unfolding sha512_done_def Let_def n pad_length_512 len size ctx2_def ctx1_def
    using pad by simp
  ultimately show ?thesis by (simp add: fips512_digest_def st)
qed

lemma sha512_update_absorbed:
  assumes "absorbed_512 H ctx x" "length x + length d < 2 ^ 61"
  shows "\<exists>ctx'. sha512_update H ctx d = Some ctx' \<and> absorbed_512 H ctx' (x @ d)"
proof -
  have "(of_nat (length x) :: u64) \<noteq> - 1"
  proof
    assume "(of_nat (length x) :: u64) = - 1"
    then have "unat (of_nat (length x) :: u64) = 2 ^ 64 - 1" 
      by (simp add: unsigned_minus_1_eq_mask mask_eq_exp_minus_1)
    moreover have "unat (of_nat (length x) :: u64) \<le> length x"
      by (simp add: unat_of_nat)
    ultimately show False using assms(2) by simp
  qed
  then show ?thesis
    using assms(1) by (simp add: sha512_update_def check_sha512_def absorbed_512_bytes add_512_absorbed)
qed

interpretation sha512: stream_hash sha512_init "sha512_update H" "sha512_done H" fips512_digest
    "absorbed_512 H" 64 for H
  by unfold_locales
     (simp_all add: sha512_init_absorbed sha512_update_absorbed sha512_done_digest)

lemma sha512_eq: "length p < 2 ^ 61 \<Longrightarrow> sha512 H p = Some (fips512_digest p)"
  using sha512.hash_of_updates [of "[p]" H] by (auto simp: sha512_def bind_eq_Some_conv)

section \<open>Properties\<close>

text \<open>The 80 unrolled rounds of \<open>Transform\<close> with their in-place message schedule compute the
  compression function of FIPS 180-4, on hosts of either byte order.\<close>

theorem Transform_512_is_fips_compression:
  assumes "length s = 8" "length chunk = 128"
  shows "Transform_512 bo s chunk = fips512_compress s chunk"
  using assms by (simp add: Transform_512_eq)

theorem Transform_512_is_fips_compression_witness:
  "Transform_512 Little_Endian (replicate 8 7) (replicate 128 1) = fips512_compress (replicate 8 7) (replicate 128 1)"
  by (rule Transform_512_is_fips_compression) simp_all

text \<open>\<open>sha512\<close> of a message, and \<open>sha512_update\<close> in any pieces, compute the SHA-512 digest of FIPS
  180-4, and an update after \<open>sha512_done\<close> aborts.\<close>

theorem sha512_streaming:
  assumes "length (concat ds) < 2 ^ 61"
  shows "sha512 H (concat ds) = Some (fips512_digest (concat ds)) \<and>
    (\<exists>ctx. hash_updates (sha512_update H) sha512_init ds = Some ctx \<and>
      fst (sha512_done H ctx) = fips512_digest (concat ds) \<and>
      sha512_update H (snd (sha512_done H ctx)) d = None)"
proof -
  obtain ctx where ctx: "hash_updates (sha512_update H) sha512_init ds = Some ctx"
      "fst (sha512_done H ctx) = fips512_digest (concat ds)"
    using sha512.hash_of_updates [OF assms] by blast
  have "hc_bytes (snd (sha512_done H ctx)) = - 1"
    by (simp add: sha512_done_def Let_def invalidate_sha512_def)
  then have "sha512_update H (snd (sha512_done H ctx)) d = None"
    by (simp add: sha512_update_def check_sha512_def)
  with ctx sha512_eq [OF assms] show ?thesis by blast
qed

theorem sha512_streaming_witness:
  "sha512 \<lparr>host_order = Big_Endian, host_aligned = True\<rparr> (concat [ascii ''abc'', replicate 300 0]) =
     Some (fips512_digest (concat [ascii ''abc'', replicate 300 0])) \<and>
   (\<exists>ctx. hash_updates (sha512_update \<lparr>host_order = Big_Endian, host_aligned = True\<rparr>) sha512_init
        [ascii ''abc'', replicate 300 0] = Some ctx \<and>
      fst (sha512_done \<lparr>host_order = Big_Endian, host_aligned = True\<rparr> ctx) =
        fips512_digest (concat [ascii ''abc'', replicate 300 0]) \<and>
      sha512_update \<lparr>host_order = Big_Endian, host_aligned = True\<rparr>
        (snd (sha512_done \<lparr>host_order = Big_Endian, host_aligned = True\<rparr> ctx)) [] = None)"
  by (rule sha512_streaming) simp

end
