(* ===== verification/Hmac.thy ===== *)
theory Hmac
  imports Sha256 Sha512
begin

text \<open>
  \<open>hmac.c\<close>. The file has every function twice, for SHA-256 and SHA-512, and
  the two texts differ only in the digits; the model has the text once, over the hash's
  operations, and the two instances. The locale \<open>hmac_hash\<close> states what HMAC needs of a hash
  beyond \<open>stream_hash\<close>; inside it the code is shown to compute RFC 2104, and the
  interpretations carry that to both instances. \<open>Hkdf\<close> builds on it.
\<close>

section \<open>The pads\<close>

definition IPAD :: u64 where "IPAD = 0x3636363636363636"
definition OPAD :: u64 where "OPAD = 0x5C5C5C5C5C5C5C5C"

text \<open>\<open>block[i] ^= pad\<close> for \<open>n\<close> words of 64 bits, on the bytes of the block.\<close>

primrec xor_words :: "byte_order \<Rightarrow> nat \<Rightarrow> bytes \<Rightarrow> u64 \<Rightarrow> bytes" where
  "xor_words bo 0 block pad = block"
| "xor_words bo (Suc n) block pad =
     host_bytes bo 8 (host_word bo (take 8 block) XOR pad) @ xor_words bo n (drop 8 block) pad"

definition xor_block_256 :: "byte_order \<Rightarrow> bytes \<Rightarrow> u64 \<Rightarrow> bytes" where
  "xor_block_256 bo block pad = xor_words bo (64 div 8) block pad"

definition xor_block_512 :: "byte_order \<Rightarrow> bytes \<Rightarrow> u64 \<Rightarrow> bytes" where
  "xor_block_512 bo block pad = xor_words bo (128 div 8) block pad"

section \<open>HMAC\<close>

record 'c hmac_ctx =
  hm_sha :: 'c
  hm_k_opad :: bytes

definition hmac_init_core ::
  "(bytes \<Rightarrow> bytes option) \<Rightarrow> 'c \<Rightarrow> ('c \<Rightarrow> bytes \<Rightarrow> 'c option) \<Rightarrow> (bytes \<Rightarrow> u64 \<Rightarrow> bytes) \<Rightarrow> nat
    \<Rightarrow> bytes \<Rightarrow> 'c hmac_ctx option" where
  "hmac_init_core hash_fn init update xor_block blocksize k = do {
     k \<leftarrow> (if blocksize < length k then hash_fn k else Some k);
     let k_ipad = k @ replicate (blocksize - length k) 0;
     let k_ipad = xor_block k_ipad IPAD;
     sha \<leftarrow> update init k_ipad;
     let k_opad = xor_block k_ipad (IPAD XOR OPAD);
     Some \<lparr>hm_sha = sha, hm_k_opad = k_opad\<rparr> }"

definition hmac_update_core ::
  "('c \<Rightarrow> bytes \<Rightarrow> 'c option) \<Rightarrow> 'c hmac_ctx \<Rightarrow> bytes \<Rightarrow> 'c hmac_ctx option" where
  "hmac_update_core update ctx p = do {
     sha \<leftarrow> update (hm_sha ctx) p;
     Some (ctx\<lparr>hm_sha := sha\<rparr>) }"

definition hmac_done_core ::
  "'c \<Rightarrow> ('c \<Rightarrow> bytes \<Rightarrow> 'c option) \<Rightarrow> ('c \<Rightarrow> bytes \<times> 'c) \<Rightarrow> 'c hmac_ctx \<Rightarrow> bytes option" where
  "hmac_done_core init update finish ctx = do {
     let hmac = fst (finish (hm_sha ctx));
     sha \<leftarrow> update init (hm_k_opad ctx);
     sha \<leftarrow> update sha hmac;
     Some (fst (finish sha)) }"

definition hmac_sha256_init :: "host \<Rightarrow> bytes \<Rightarrow> sha256_ctx hmac_ctx option" where
  "hmac_sha256_init H k =
     hmac_init_core (sha256 H) sha256_init (sha256_update H) (xor_block_256 (host_order H)) 64 k"

definition hmac_sha512_init :: "host \<Rightarrow> bytes \<Rightarrow> sha512_ctx hmac_ctx option" where
  "hmac_sha512_init H k =
     hmac_init_core (sha512 H) sha512_init (sha512_update H) (xor_block_512 (host_order H)) 128 k"

definition hmac_sha256_update ::
  "host \<Rightarrow> sha256_ctx hmac_ctx \<Rightarrow> bytes \<Rightarrow> sha256_ctx hmac_ctx option" where
  "hmac_sha256_update H ctx p = hmac_update_core (sha256_update H) ctx p"

definition hmac_sha512_update ::
  "host \<Rightarrow> sha512_ctx hmac_ctx \<Rightarrow> bytes \<Rightarrow> sha512_ctx hmac_ctx option" where
  "hmac_sha512_update H ctx p = hmac_update_core (sha512_update H) ctx p"

definition hmac_sha256_done :: "host \<Rightarrow> sha256_ctx hmac_ctx \<Rightarrow> bytes option" where
  "hmac_sha256_done H ctx = hmac_done_core sha256_init (sha256_update H) (sha256_done H) ctx"

definition hmac_sha512_done :: "host \<Rightarrow> sha512_ctx hmac_ctx \<Rightarrow> bytes option" where
  "hmac_sha512_done H ctx = hmac_done_core sha512_init (sha512_update H) (sha512_done H) ctx"

definition hmac_sha256 :: "host \<Rightarrow> bytes \<Rightarrow> bytes \<Rightarrow> bytes option" where
  "hmac_sha256 H k d = do {
     ctx \<leftarrow> hmac_sha256_init H k;
     ctx \<leftarrow> hmac_sha256_update H ctx d;
     hmac_sha256_done H ctx }"

definition hmac_sha512 :: "host \<Rightarrow> bytes \<Rightarrow> bytes \<Rightarrow> bytes option" where
  "hmac_sha512 H k d = do {
     ctx \<leftarrow> hmac_sha512_init H k;
     ctx \<leftarrow> hmac_sha512_update H ctx d;
     hmac_sha512_done H ctx }"

text \<open>
  The branch that is switched off, the direct transcription of the example of RFC 2104: pads of 65
  bytes, of which 64 are used, are changed byte by byte.
\<close>

definition xor_bytes :: "nat \<Rightarrow> bytes \<Rightarrow> u8 \<Rightarrow> bytes" where
  "xor_bytes n pad b = foldl (\<lambda>pad i. pad[i := pad ! i XOR b]) pad [0..<n]"

definition hmac_sha256_direct :: "host \<Rightarrow> bytes \<Rightarrow> bytes \<Rightarrow> bytes option" where
  "hmac_sha256_direct H key text = do {
     key \<leftarrow> (if 64 < length key then do {
         tctx \<leftarrow> sha256_update H sha256_init key;
         Some (fst (sha256_done H tctx)) }
       else Some key);
     let k_ipad = key @ replicate (65 - length key) 0;
     let k_opad = key @ replicate (65 - length key) 0;
     let k_ipad = xor_bytes 64 k_ipad 0x36;
     let k_opad = xor_bytes 64 k_opad 0x5c;
     context \<leftarrow> sha256_update H sha256_init (take 64 k_ipad);
     context \<leftarrow> sha256_update H context text;
     let hmac = fst (sha256_done H context);
     context \<leftarrow> sha256_update H sha256_init (take 64 k_opad);
     context \<leftarrow> sha256_update H context hmac;
     Some (fst (sha256_done H context)) }"

section \<open>RFC 2104\<close>

definition rfc2104_key :: "(bytes \<Rightarrow> bytes) \<Rightarrow> nat \<Rightarrow> bytes \<Rightarrow> bytes" where
  "rfc2104_key hash B k = (let k = (if B < length k then hash k else k) in k @ replicate (B - length k) 0)"

definition rfc2104_hmac :: "(bytes \<Rightarrow> bytes) \<Rightarrow> nat \<Rightarrow> bytes \<Rightarrow> bytes \<Rightarrow> bytes" where
  "rfc2104_hmac hash B k text =
     (let K = rfc2104_key hash B k
      in hash (map (\<lambda>b. b XOR 0x5c) K @ hash (map (\<lambda>b. b XOR 0x36) K @ text)))"

section \<open>The pads byte by byte\<close>

lemma le_bytes_xor: "le_bytes n (v XOR w) = map2 (XOR) (le_bytes n v) (le_bytes n w)"
  by (rule nth_equalityI) (auto intro!: bit_word_eqI simp: bit_xor_iff bit_ucast_iff bit_drop_bit_eq)

lemma map2_xor_replicate: "length xs = n \<Longrightarrow> map2 (XOR) xs (replicate n b) = map (\<lambda>x. x XOR b) xs"
  for b :: u8
  by (rule nth_equalityI) simp_all

lemma host_bytes_xor:
  assumes "le_bytes n w = replicate n b"
  shows "host_bytes bo n (v XOR w) = map (\<lambda>x. x XOR b) (host_bytes bo n v)"
  using assms by (cases bo) (simp_all add: host_bytes_def be_bytes_def le_bytes_xor map2_xor_replicate rev_map)

lemma xor_words_eq:
  assumes "le_bytes 8 pad = replicate 8 b" "length block = 8 * n"
  shows "xor_words bo n block pad = map (\<lambda>x. x XOR b) block"
  using assms(2)
proof (induction n arbitrary: block)
  case 0
  then show ?case by simp
next
  case (Suc n)
  have "host_bytes bo 8 (host_word bo (take 8 block) XOR pad) = map (\<lambda>x. x XOR b) (take 8 block)"
    using Suc.prems by (simp add: host_bytes_xor [OF assms(1)] host_bytes_host_word)
  moreover have "xor_words bo n (drop 8 block) pad = map (\<lambda>x. x XOR b) (drop 8 block)"
    using Suc.prems by (intro Suc.IH) simp
  ultimately show ?case by (simp flip: map_append)
qed

lemma pads_bytes:
  "le_bytes 8 IPAD = replicate 8 0x36" "le_bytes 8 (IPAD XOR OPAD) = replicate 8 0x6a"
  by code_simp+

lemma xor_bytes_eq: "n \<le> length pad \<Longrightarrow> xor_bytes n pad b = map (\<lambda>x. x XOR b) (take n pad) @ drop n pad"
proof (induction n)
  case 0
  then show ?case by (simp add: xor_bytes_def)
next
  case (Suc n)
  then show ?case by (simp add: xor_bytes_def nth_append list_update_append take_Suc_conv_app_nth Cons_nth_drop_Suc [symmetric])
qed

section \<open>HMAC over any streaming hash\<close>

locale hmac_hash = stream_hash init update finish hash absorbs dlen
  for init :: "'c" and update finish hash absorbs dlen +
  fixes hash_fn :: "bytes \<Rightarrow> bytes option"
    and xor_block :: "bytes \<Rightarrow> u64 \<Rightarrow> bytes"
    and B :: nat
  assumes hash_fn_hash: "length p < 2 ^ 61 \<Longrightarrow> hash_fn p = Some (hash p)"
    and xor_block_xor: "length block = B \<Longrightarrow> le_bytes 8 pad = replicate 8 b \<Longrightarrow>
      xor_block block pad = map (\<lambda>x. x XOR b) block"
    and dlen_le: "dlen \<le> B"
    and B_less: "B < 2 ^ 60"
begin

text \<open>The context after \<open>init\<close> with key \<open>k\<close> and updates that feed \<open>x\<close>.\<close>

definition keyed :: "bytes \<Rightarrow> 'c hmac_ctx \<Rightarrow> bytes \<Rightarrow> bool" where
  "keyed k ctx x \<longleftrightarrow>
     absorbs (hm_sha ctx) (map (\<lambda>b. b XOR 0x36) (rfc2104_key hash B k) @ x) \<and>
     hm_k_opad ctx = map (\<lambda>b. b XOR 0x5c) (rfc2104_key hash B k)"

lemma length_key [simp]: "length (rfc2104_key hash B k) = B"
  using dlen_le hash_length by (simp add: rfc2104_key_def Let_def)

lemma init_keyed:
  assumes "length k < 2 ^ 61"
  shows "\<exists>ctx. hmac_init_core hash_fn init update xor_block B k = Some ctx \<and> keyed k ctx []"
proof -
  let ?K = "rfc2104_key hash B k"
  have ipad: "xor_block ?K IPAD = map (\<lambda>x. x XOR 0x36) ?K"
    by (intro xor_block_xor pads_bytes) simp
  have "xor_block (map (\<lambda>x. x XOR 0x36) ?K) (IPAD XOR OPAD) =
      map (\<lambda>x. x XOR 0x6a) (map (\<lambda>x. x XOR 0x36) ?K)"
    by (intro xor_block_xor pads_bytes) simp
  also have "\<dots> = map (\<lambda>x. x XOR 0x5c) ?K"
    by (simp add: xor.assoc)
  finally have opad: "xor_block (map (\<lambda>x. x XOR 0x36) ?K) (IPAD XOR OPAD) = map (\<lambda>x. x XOR 0x5c) ?K" .
  obtain sha where sha: "update init (map (\<lambda>x. x XOR 0x36) ?K) = Some sha"
    "absorbs sha (map (\<lambda>x. x XOR 0x36) ?K)"
    using update_absorbs [OF init_absorbs, of "map (\<lambda>x. x XOR 0x36) ?K"] B_less by auto
  define k' where "k' = (if B < length k then hash k else k)"
  have k': "(if B < length k then hash_fn k else Some k) = Some k'"
      "k' @ replicate (B - length k') 0 = ?K"
    using hash_fn_hash assms by (simp_all add: k'_def rfc2104_key_def Let_def)
  then show ?thesis
    using ipad opad sha by (simp add: hmac_init_core_def k' keyed_def)
qed

lemma update_keyed:
  assumes "keyed k ctx x" "length x + length d < 2 ^ 60"
  shows "\<exists>ctx'. hmac_update_core update ctx d = Some ctx' \<and> keyed k ctx' (x @ d)"
  using assms B_less update_absorbs [of "hm_sha ctx" "map (\<lambda>b. b XOR 0x36) (rfc2104_key hash B k) @ x" d]
  by (auto simp: keyed_def hmac_update_core_def)

lemma updates_keyed:
  "keyed k ctx x \<Longrightarrow> length x + length (concat ds) < 2 ^ 60 \<Longrightarrow>
   \<exists>ctx'. hash_updates (hmac_update_core update) ctx ds = Some ctx' \<and> keyed k ctx' (x @ concat ds)"
proof (induction ds arbitrary: ctx x)
  case Nil
  then show ?case by simp
next
  case (Cons d ds)
  then obtain ctx1 where "hmac_update_core update ctx d = Some ctx1" "keyed k ctx1 (x @ d)"
    using update_keyed [of k ctx x d] by auto
  with Cons.IH [of ctx1 "x @ d"] Cons.prems show ?case by (auto simp: add.assoc)
qed

lemma done_keyed:
  assumes "keyed k ctx x" "length x < 2 ^ 60"
  shows "hmac_done_core init update finish ctx = Some (rfc2104_hmac hash B k x)"
proof -
  let ?K = "rfc2104_key hash B k"
  have inner: "fst (finish (hm_sha ctx)) = hash (map (\<lambda>b. b XOR 0x36) ?K @ x)"
    using assms B_less by (intro finish_hash) (auto simp: keyed_def)
  let ?outer = "[map (\<lambda>b. b XOR 0x5c) ?K, hash (map (\<lambda>b. b XOR 0x36) ?K @ x)]"
  have "length (concat ?outer) < 2 ^ 61"
    using B_less dlen_le hash_length by simp
  then obtain c where "hash_updates update init ?outer = Some c" "fst (finish c) = hash (concat ?outer)"
    using hash_of_updates by blast
  then show ?thesis
    using assms(1) by (auto simp: hmac_done_core_def inner keyed_def rfc2104_hmac_def Let_def
        bind_eq_Some_conv)
qed

text \<open>Any sequence of updates gives the MAC of the concatenation.\<close>

lemma mac_of_updates:
  assumes "length k < 2 ^ 61" "length (concat ds) < 2 ^ 60"
  shows "\<exists>ctx0 ctx. hmac_init_core hash_fn init update xor_block B k = Some ctx0 \<and>
     hash_updates (hmac_update_core update) ctx0 ds = Some ctx \<and>
     hmac_done_core init update finish ctx = Some (rfc2104_hmac hash B k (concat ds))"
  using init_keyed [OF assms(1)] updates_keyed [of k _ "[]" ds] done_keyed [of k _ "concat ds"] assms(2)
  by fastforce

end

section \<open>Both instances\<close>

interpretation h256: hmac_hash sha256_init "sha256_update H" "sha256_done H" fips256_digest
    "absorbed_256 H" 32 "sha256 H" "xor_block_256 (host_order H)" 64 for H
  by unfold_locales (simp_all add: sha256_eq xor_block_256_def xor_words_eq)

interpretation h512: hmac_hash sha512_init "sha512_update H" "sha512_done H" fips512_digest
    "absorbed_512 H" 64 "sha512 H" "xor_block_512 (host_order H)" 128 for H
  by unfold_locales (simp_all add: sha512_eq xor_block_512_def xor_words_eq)

abbreviation hmac256_spec :: "bytes \<Rightarrow> bytes \<Rightarrow> bytes" where
  "hmac256_spec \<equiv> rfc2104_hmac fips256_digest 64"

lemma hmac_sha256_updates:
  assumes "length k < 2 ^ 61" "length (concat ds) < 2 ^ 60"
  shows "\<exists>ctx0 ctx. hmac_sha256_init H k = Some ctx0 \<and>
     hash_updates (hmac_sha256_update H) ctx0 ds = Some ctx \<and>
     hmac_sha256_done H ctx = Some (hmac256_spec k (concat ds))"
proof -
  have "hmac_sha256_update H = hmac_update_core (sha256_update H)"
    by (rule ext)+ (simp add: hmac_sha256_update_def)
  then show ?thesis
    using h256.mac_of_updates [OF assms, of H] by (simp add: hmac_sha256_init_def hmac_sha256_done_def)
qed

lemma hmac_sha256_eq:
  assumes "length k < 2 ^ 61" "length d < 2 ^ 60"
  shows "hmac_sha256 H k d = Some (hmac256_spec k d)"
  using hmac_sha256_updates [of k "[d]" H] assms
  by (auto simp: hmac_sha256_def bind_eq_Some_conv)

lemma hmac_sha512_eq:
  assumes "length k < 2 ^ 61" "length d < 2 ^ 60"
  shows "hmac_sha512 H k d = Some (rfc2104_hmac fips512_digest 128 k d)"
  using h512.mac_of_updates [of k "[d]" H] assms
  by (auto simp: hmac_sha512_def hmac_sha512_init_def hmac_sha512_update_def hmac_sha512_done_def
      bind_eq_Some_conv)

section \<open>The direct version\<close>

lemma length_sha256_done: "length (fst (sha256_done H ctx)) = 32"
  by (simp add: sha256_done_def Let_def length_concat comp_def sum_list_triv)

lemma direct_pads:
  assumes "length k \<le> 64"
  shows "xor_block_256 bo (k @ replicate (64 - length k) 0) IPAD = take 64 (xor_bytes 64 (k @ replicate (65 - length k) 0) 0x36)"
    and "xor_block_256 bo (xor_block_256 bo (k @ replicate (64 - length k) 0) IPAD) (IPAD XOR OPAD) =
      take 64 (xor_bytes 64 (k @ replicate (65 - length k) 0) 0x5c)"
proof -
  let ?k = "k @ replicate (64 - length k) (0 :: u8)"
  have "65 - length k = Suc (64 - length k)" and len: "length ?k = 64" using assms by simp_all
  then have "k @ replicate (65 - length k) 0 = ?k @ [0]" by (simp add: replicate_append_same)
  with len have pad: "take 64 (xor_bytes 64 (k @ replicate (65 - length k) 0) b) = map (\<lambda>x. x XOR b) ?k" for b
    by (simp add: xor_bytes_eq)
  have "xor_block_256 bo block p = map (\<lambda>x. x XOR b) block" if "length block = 64" "le_bytes 8 p = replicate 8 b" for block p b
    using that by (simp add: xor_block_256_def xor_words_eq)
  note this [OF _ pads_bytes(1)] this [OF _ pads_bytes(2)]
  with len show "xor_block_256 bo ?k IPAD = take 64 (xor_bytes 64 (k @ replicate (65 - length k) 0) 0x36)"
    and "xor_block_256 bo (xor_block_256 bo ?k IPAD) (IPAD XOR OPAD) =
      take 64 (xor_bytes 64 (k @ replicate (65 - length k) 0) 0x5c)"
    unfolding pad by (simp_all add: xor.assoc)
qed

lemma hmac_sha256_direct_eq: "hmac_sha256_direct H key d = hmac_sha256 H key d"
proof -
  have step: "hmac_sha256_direct H key d = hmac_sha256 H key d"
    if k: "(if 64 < length key then sha256 H key else Some key) = Some k" "length k \<le> 64" for k
  proof -
    have "(if 64 < length key then do { tctx \<leftarrow> sha256_update H sha256_init key; Some (fst (sha256_done H tctx)) } else Some key) = Some k"
      using k(1) by (simp add: sha256_def split: if_splits)
    then show ?thesis
      using k direct_pads [OF k(2), of "host_order H"]
      by (simp add: hmac_sha256_direct_def hmac_sha256_def hmac_sha256_init_def hmac_sha256_update_def hmac_sha256_done_def
        hmac_init_core_def hmac_update_core_def hmac_done_core_def Let_def)
  qed
  show ?thesis
  proof (cases "if 64 < length key then sha256 H key else Some key")
    case None
    then show ?thesis
      by (simp add: hmac_sha256_direct_def hmac_sha256_def hmac_sha256_init_def hmac_init_core_def sha256_def
        bind_eq_None_conv split: if_splits)
  next
    case (Some k)
    moreover have "length k \<le> 64"
      using Some by (auto simp: sha256_def length_sha256_done bind_eq_Some_conv split: if_splits)
    ultimately show ?thesis by (rule step)
  qed
qed

section \<open>Properties\<close>

text \<open>C28: \<open>hmac_sha256_init\<close>, any sequence of \<open>hmac_sha256_update\<close> and \<open>hmac_sha256_done\<close> never hit an
  assertion and return the HMAC of RFC 2104 over SHA-256 of the concatenation, for keys of any
  length, longer than the block too; so does \<open>hmac_sha256\<close>, and the direct transcription of the
  RFC's example that is switched off computes the same as it.\<close>

theorem hmac_sha256_rfc2104:
  assumes "length k < 2 ^ 61" "length (concat ds) < 2 ^ 60"
  shows "hmac_sha256 H k (concat ds) = Some (rfc2104_hmac fips256_digest 64 k (concat ds)) \<and>
    (\<exists>ctx0 ctx. hmac_sha256_init H k = Some ctx0 \<and>
     hash_updates (hmac_sha256_update H) ctx0 ds = Some ctx \<and>
     hmac_sha256_done H ctx = Some (rfc2104_hmac fips256_digest 64 k (concat ds))) \<and>
    (\<forall>key text. hmac_sha256_direct H key text = hmac_sha256 H key text)"
  using hmac_sha256_updates [OF assms, of H] hmac_sha256_eq [OF assms, of H] by (simp add: hmac_sha256_direct_eq)

theorem hmac_sha256_rfc2104_witness:
  "hmac_sha256 \<lparr>host_order = Little_Endian, host_aligned = True\<rparr> (replicate 131 0xaa) (concat [[1, 2], [], [3]]) =
     Some (rfc2104_hmac fips256_digest 64 (replicate 131 0xaa) (concat [[1, 2], [], [3]])) \<and>
   (\<exists>ctx0 ctx. hmac_sha256_init \<lparr>host_order = Little_Endian, host_aligned = True\<rparr> (replicate 131 0xaa) = Some ctx0 \<and>
     hash_updates (hmac_sha256_update \<lparr>host_order = Little_Endian, host_aligned = True\<rparr>) ctx0 [[1, 2], [], [3]] = Some ctx \<and>
     hmac_sha256_done \<lparr>host_order = Little_Endian, host_aligned = True\<rparr> ctx =
       Some (rfc2104_hmac fips256_digest 64 (replicate 131 0xaa) (concat [[1, 2], [], [3]]))) \<and>
   (\<forall>key text. hmac_sha256_direct \<lparr>host_order = Little_Endian, host_aligned = True\<rparr> key text =
     hmac_sha256 \<lparr>host_order = Little_Endian, host_aligned = True\<rparr> key text)"
  by (rule hmac_sha256_rfc2104) simp_all

text \<open>\<open>hmac_sha512\<close> never hits an assertion and returns the HMAC of RFC 2104 over SHA-512.\<close>

theorem hmac_sha512_rfc2104:
  assumes "length k < 2 ^ 61" "length d < 2 ^ 60"
  shows "hmac_sha512 H k d = Some (rfc2104_hmac fips512_digest 128 k d)"
  using assms by (rule hmac_sha512_eq)

theorem hmac_sha512_rfc2104_witness:
  "hmac_sha512 \<lparr>host_order = Big_Endian, host_aligned = False\<rparr> (replicate 131 0xaa) [1, 2, 3] =
     Some (rfc2104_hmac fips512_digest 128 (replicate 131 0xaa) [1, 2, 3])"
  by (rule hmac_sha512_rfc2104) simp_all

end
