(* ===== verification/Hkdf.thy ===== *)
theory Hkdf
  imports Hmac
begin

text \<open>
  \<open>hkdf.c\<close>: \<open>hkdf_sha256\<close>, extraction and expansion, with its \<open>assert\<close> and its loop over
  blocks of output; and the proof that it computes RFC 5869.
\<close>

section \<open>The code\<close>

text \<open>One expansion block: \<open>HMAC (prk, t | info | c)\<close>; the first has no \<open>t\<close>.\<close>

definition hkdf_block :: "host \<Rightarrow> bytes \<Rightarrow> bytes list \<Rightarrow> bytes option" where
  "hkdf_block H prk pieces = do {
     ctx \<leftarrow> hmac_sha256_init H prk;
     ctx \<leftarrow> hash_updates (hmac_sha256_update H) ctx pieces;
     hmac_sha256_done H ctx }"

text \<open>
  The \<open>while (okm_size > sizeof(t))\<close> loop and the copy of the tail. The counter is an
  \<open>unsigned char\<close>.
\<close>

function hkdf_expand :: "host \<Rightarrow> bytes \<Rightarrow> bytes \<Rightarrow> nat \<Rightarrow> bytes \<Rightarrow> u8 \<Rightarrow> bytes option" where
  "hkdf_expand H prk info okm_size t c =
     (if 32 < okm_size then do {
        t' \<leftarrow> hkdf_block H prk [t, info, [c + 1]];
        okm \<leftarrow> hkdf_expand H prk info (okm_size - 32) t' (c + 1);
        Some (t @ okm) }
      else Some (take okm_size t))"
  by pat_completeness auto
termination
  by (relation "measure (\<lambda>(H, prk, info, okm_size, t, c). okm_size)") auto

declare hkdf_expand.simps [simp del]

definition hkdf_sha256 :: "host \<Rightarrow> nat \<Rightarrow> bytes \<Rightarrow> bytes \<Rightarrow> bytes \<Rightarrow> bytes option" where
  "hkdf_sha256 H okm_size s k info = do {
     c_assert (okm_size < 255 * 32);
     prk \<leftarrow> hmac_sha256 H s k;
     t \<leftarrow> hkdf_block H prk [info, [1]];
     hkdf_expand H prk info okm_size t 1 }"

section \<open>RFC 5869\<close>

text \<open>\<open>T(0)\<close> is empty, \<open>T(n) = HMAC (PRK, T(n - 1) | info | n)\<close>.\<close>

primrec rfc5869_T :: "bytes \<Rightarrow> bytes \<Rightarrow> nat \<Rightarrow> bytes" where
  "rfc5869_T prk info 0 = []"
| "rfc5869_T prk info (Suc n) = hmac256_spec prk (rfc5869_T prk info n @ info @ [of_nat (Suc n)])"

definition rfc5869_hkdf :: "nat \<Rightarrow> bytes \<Rightarrow> bytes \<Rightarrow> bytes \<Rightarrow> bytes" where
  "rfc5869_hkdf L salt ikm info =
     (let prk = hmac256_spec salt ikm; N = (L + 31) div 32
      in take L (concat (map (rfc5869_T prk info) [1..<Suc N])))"

section \<open>Correctness\<close>

lemma length_hmac256_spec [simp]: "length (hmac256_spec k d) = 32"
  by (simp add: rfc2104_hmac_def Let_def)

lemma length_rfc5869_T: "length (rfc5869_T prk info n) \<le> 32"
  by (cases n) simp_all

lemma length_rfc5869_T_Suc [simp]: "length (rfc5869_T prk info (Suc n)) = 32"
  by simp

lemma hkdf_block_eq:
  assumes "length prk < 2 ^ 61" "length (concat pieces) < 2 ^ 60"
  shows "hkdf_block H prk pieces = Some (hmac256_spec prk (concat pieces))"
  using hmac_sha256_updates [OF assms, of H] by (auto simp: hkdf_block_def)

text \<open>The loop, entered with block \<open>T(i)\<close> and counter \<open>i\<close>, returns the rest of the output.\<close>

lemma hkdf_expand_eq:
  assumes "length prk < 2 ^ 61" "length info < 2 ^ 59"
  shows "L \<le> 32 * m \<Longrightarrow>
    hkdf_expand H prk info L (rfc5869_T prk info (Suc i)) (of_nat (Suc i)) =
    Some (take L (concat (map (rfc5869_T prk info) [Suc i..<Suc i + m])))"
proof (induction m arbitrary: L i)
  case 0
  then show ?case by (simp add: hkdf_expand.simps)
next
  case (Suc m)
  let ?T = "rfc5869_T prk info"
  have T: "[Suc i..<Suc i + Suc m] = Suc i # [Suc (Suc i)..<Suc (Suc i) + m]"
    by (simp add: upt_rec)
  show ?case
  proof (cases "32 < L")
    case True
    have c: "of_nat (Suc i) + 1 = (of_nat (Suc (Suc i)) :: u8)" by simp
    have blk: "hkdf_block H prk [?T (Suc i), info, [of_nat (Suc i) + 1]] = Some (?T (Suc (Suc i)))"
      using assms unfolding c by (subst hkdf_block_eq) simp_all
    have "hkdf_expand H prk info (L - 32) (?T (Suc (Suc i))) (of_nat (Suc i) + 1) =
      Some (take (L - 32) (concat (map ?T [Suc (Suc i)..<Suc (Suc i) + m])))"
      unfolding c using Suc.prems by (intro Suc.IH) simp
    with True blk show ?thesis
      by (subst hkdf_expand.simps) (simp only: T if_True bind.bind_lunit list.map concat.simps
        take_append length_rfc5869_T_Suc, simp)
  next
    case False
    then show ?thesis
      unfolding T by (subst hkdf_expand.simps) simp
  qed
qed

lemma hkdf_sha256_eq:
  assumes "okm_size < 255 * 32" "length s < 2 ^ 61" "length k < 2 ^ 60" "length info < 2 ^ 59"
  shows "hkdf_sha256 H okm_size s k info = Some (rfc5869_hkdf okm_size s k info)"
proof -
  let ?prk = "hmac256_spec s k" and ?N = "(okm_size + 31) div 32"
  have "hkdf_block H ?prk [info, [1]] = Some (rfc5869_T ?prk info (Suc 0))"
    using assms(4) by (subst hkdf_block_eq) simp_all
  moreover have "hkdf_expand H ?prk info okm_size (rfc5869_T ?prk info (Suc 0)) (of_nat (Suc 0)) =
      Some (take okm_size (concat (map (rfc5869_T ?prk info) [Suc 0..<Suc 0 + ?N])))"
    using assms(4) by (intro hkdf_expand_eq) simp_all
  ultimately show ?thesis
    using assms by (simp add: hkdf_sha256_def hmac_sha256_eq rfc5869_hkdf_def Let_def)
qed

section \<open>Properties\<close>

text \<open>C27: \<open>hkdf_sha256\<close> computes the HKDF of RFC 5869 for every output length below \<open>255 * 32\<close>, and aborts
  for every longer one, \<open>255 * 32\<close> itself included, which the RFC allows.\<close>

theorem hkdf_sha256_rfc5869:
  assumes "length s < 2 ^ 61" "length k < 2 ^ 60" "length info < 2 ^ 59"
  shows "hkdf_sha256 H okm_size s k info =
    (if okm_size < 255 * 32 then Some (rfc5869_hkdf okm_size s k info) else None)"
proof (cases "okm_size < 255 * 32")
  case True
  then show ?thesis using hkdf_sha256_eq [OF True assms] by simp
next
  case False
  then show ?thesis by (simp add: hkdf_sha256_def)
qed

theorem hkdf_sha256_rfc5869_witness:
  "hkdf_sha256 \<lparr>host_order = Little_Endian, host_aligned = True\<rparr> 42 [0, 1] [2, 3] [4] =
    (if (42::nat) < 255 * 32 then Some (rfc5869_hkdf 42 [0, 1] [2, 3] [4]) else None)"
  by (rule hkdf_sha256_rfc5869) simp_all

end
