(* ===== verification/Cursor.thy ===== *)
theory Cursor
  imports Endian
begin

text \<open>
  \<open>cursor.h\<close> and the cursor functions of \<open>endian.h\<close>. A cursor is three pointers into the flat
  memory. A function that returns 0 or 1 returns a \<open>bool\<close>; one that returns a pointer or
  writes an out-parameter returns an \<open>option\<close> whose \<open>None\<close> is the 0 or NULL; where the C
  function can run into undefined behaviour (a \<open>memcpy\<close> whose \<open>int\<close> length is negative, or
  longer than its source) the whole result is one more \<open>option\<close> and its \<open>None\<close> that crash.
\<close>

section \<open>Cursors\<close>

record cursor =
  c_start :: addr
  c_p :: addr
  c_end :: addr

record array =
  a_cur :: cursor
  a_elem_size :: nat

text \<open>The conversion of a \<open>size_t\<close> argument to an \<open>int\<close> parameter.\<close>

definition c_int :: "nat \<Rightarrow> int" where
  "c_int n = sint (of_nat n :: 32 word)"

definition reset_cursor :: "cursor \<Rightarrow> cursor" where
  "reset_cursor c = c\<lparr>c_p := c_start c\<rparr>"

definition wipe_cursor :: "cursor \<Rightarrow> mem \<Rightarrow> cursor \<times> mem" where
  "wipe_cursor c m = (reset_cursor c, mwrite m (c_start c) (replicate (c_end c - c_start c) 0))"

definition make_cursor :: "addr \<Rightarrow> addr \<Rightarrow> cursor" where
  "make_cursor start e = \<lparr>c_start = start, c_p = start, c_end = e\<rparr>"

definition make_array :: "addr \<Rightarrow> addr \<Rightarrow> nat \<Rightarrow> array" where
  "make_array start e elem_size = \<lparr>a_cur = make_cursor start e, a_elem_size = elem_size\<rparr>"

definition cursor_eof :: "cursor \<Rightarrow> bool" where
  "cursor_eof c \<longleftrightarrow> c_p c = c_end c"

definition copy_cursor :: "cursor \<Rightarrow> cursor" where
  "copy_cursor src = \<lparr>c_start = c_start src, c_p = c_p src, c_end = c_end src\<rparr>"

section \<open>Arena allocation\<close>

text \<open>
  Addresses are numbers, so the sum of a pointer and a size does not wrap around. The one function
  that passes a size near the end of the address space, \<open>lnsocket_decrypt\<close>, treats that case itself.
\<close>

definition cursor_malloc :: "cursor \<Rightarrow> nat \<Rightarrow> addr option \<times> cursor" where
  "cursor_malloc c sz =
     (if c_p c + sz > c_end c then (None, c)
      else (Some (c_p c), c\<lparr>c_p := c_p c + sz\<rparr>))"

definition cursor_alloc :: "cursor \<Rightarrow> nat \<Rightarrow> mem \<Rightarrow> addr option \<times> cursor \<times> mem" where
  "cursor_alloc c sz m =
     (case cursor_malloc c sz of
        (None, c) \<Rightarrow> (None, c, m)
      | (Some ret, c) \<Rightarrow> (Some ret, c, mwrite m ret (replicate sz 0)))"

definition cursor_slice :: "cursor \<Rightarrow> nat \<Rightarrow> mem \<Rightarrow> cursor option \<times> cursor \<times> mem" where
  "cursor_slice c sz m =
     (case cursor_alloc c sz m of
        (None, c, m) \<Rightarrow> (None, c, m)
      | (Some p, c, m) \<Rightarrow> (Some (make_cursor p (c_p c)), c, m))"

section \<open>Reading and writing\<close>

definition pull_byte :: "cursor \<Rightarrow> mem \<Rightarrow> u8 option \<times> cursor" where
  "pull_byte c m =
     (if c_p c + 1 > c_end c then (None, c) else (Some (m (c_p c)), c\<lparr>c_p := c_p c + 1\<rparr>))"

text \<open>
  \<open>cursor_pull_c_str\<close>: the loop \<open>for (; p < end; p++)\<close>, from address \<open>a\<close>. The out-parameter is
  the address where the string starts, whether or not a terminator follows.
\<close>

function scan_nul :: "mem \<Rightarrow> addr \<Rightarrow> addr \<Rightarrow> bool \<times> addr" where
  "scan_nul m a e =
     (if a < e then (if m a = 0 then (True, a + 1) else scan_nul m (a + 1) e) else (False, a))"
  by pat_completeness auto
termination
  by (relation "measure (\<lambda>(m, a, e). e - a)") auto

declare scan_nul.simps [simp del]

definition cursor_pull_c_str :: "cursor \<Rightarrow> mem \<Rightarrow> bool \<times> addr \<times> cursor" where
  "cursor_pull_c_str c m =
     (case scan_nul m (c_p c) (c_end c) of (ok, a) \<Rightarrow> (ok, c_p c, c\<lparr>c_p := a\<rparr>))"

definition cursor_push_byte :: "cursor \<Rightarrow> u8 \<Rightarrow> mem \<Rightarrow> bool \<times> cursor \<times> mem" where
  "cursor_push_byte c b m =
     (if c_p c + 1 > c_end c then (False, c, m)
      else (True, c\<lparr>c_p := c_p c + 1\<rparr>, mwrite m (c_p c) [b]))"

definition cursor_pull :: "cursor \<Rightarrow> int \<Rightarrow> mem \<Rightarrow> (bytes option \<times> cursor) option" where
  "cursor_pull c len m =
     (if int (c_p c) + len > int (c_end c) then Some (None, c)
      else if len < 0 then None
      else Some (Some (mread m (c_p c) (nat len)), c\<lparr>c_p := c_p c + nat len\<rparr>))"

text \<open>
  \<open>cursor_push\<close>: \<open>data\<close> are the bytes at the source pointer. The self-copy the C function
  skips would copy the bytes onto themselves.
\<close>

definition cursor_push :: "cursor \<Rightarrow> bytes \<Rightarrow> int \<Rightarrow> mem \<Rightarrow> (bool \<times> cursor \<times> mem) option" where
  "cursor_push c data len m =
     (if int (c_p c) + len \<ge> int (c_end c) then Some (False, c, m)
      else if len < 0 \<or> nat len > length data then None
      else Some (True, c\<lparr>c_p := c_p c + nat len\<rparr>, mwrite m (c_p c) (take (nat len) data)))"

definition pull_data_into_cursor ::
  "cursor \<Rightarrow> cursor \<Rightarrow> int \<Rightarrow> mem \<Rightarrow> (addr option \<times> cursor \<times> cursor \<times> mem) option" where
  "pull_data_into_cursor c dest len m =
     (if int (c_p dest) + len > int (c_end dest) then Some (None, c, dest, m)
      else case cursor_pull c len m of
        None \<Rightarrow> None
      | Some (None, c) \<Rightarrow> Some (None, c, dest, m)
      | Some (Some data, c) \<Rightarrow>
          Some (Some (c_p dest), c, dest\<lparr>c_p := c_p dest + nat len\<rparr>, mwrite m (c_p dest) data))"

section \<open>The cursor as a stack\<close>

text \<open>The products are of type \<open>int\<close>: one that does not fit is undefined.\<close>

definition int_fits :: "int \<Rightarrow> bool" where
  "int_fits i \<longleftrightarrow> - (2 ^ 31) \<le> i \<and> i < 2 ^ 31"

definition cursor_dropn :: "cursor \<Rightarrow> int \<Rightarrow> int \<Rightarrow> (bool \<times> cursor) option" where
  "cursor_dropn c sz n =
     (if n = 0 then Some (True, c)
      else if \<not> int_fits (sz * n) then None
      else if int (c_p c) - sz * n < int (c_start c) then Some (False, c)
      else Some (True, c\<lparr>c_p := nat (int (c_p c) - sz * n)\<rparr>))"

definition cursor_drop :: "cursor \<Rightarrow> int \<Rightarrow> (bool \<times> cursor) option" where
  "cursor_drop c sz = cursor_dropn c sz 1"

text \<open>The inner \<open>None\<close> is the null pointer.\<close>

definition cursor_topn :: "cursor \<Rightarrow> int \<Rightarrow> int \<Rightarrow> addr option option" where
  "cursor_topn c len n =
     (let n = n + 1
      in if \<not> int_fits n \<or> \<not> int_fits (len * n) then None
         else if int (c_p c) - len * n < int (c_start c) then Some None
         else Some (Some (nat (int (c_p c) - len * n))))"

definition cursor_top :: "cursor \<Rightarrow> int \<Rightarrow> addr option" where
  "cursor_top c len =
     (if int (c_p c) - len < int (c_start c) then None else Some (nat (int (c_p c) - len)))"

definition cursor_top_int :: "byte_order \<Rightarrow> cursor \<Rightarrow> mem \<Rightarrow> u32 option" where
  "cursor_top_int bo c m =
     (case cursor_top c 4 of None \<Rightarrow> None | Some p \<Rightarrow> Some (host_word bo (mread m p 4)))"

definition cursor_pop :: "cursor \<Rightarrow> int \<Rightarrow> mem \<Rightarrow> (bytes option \<times> cursor) option" where
  "cursor_pop c len m =
     (if int (c_p c) - len < int (c_start c) then Some (None, c)
      else if len < 0 then None
      else (let p = c_p c - nat len in Some (Some (mread m p (nat len)), c\<lparr>c_p := p\<rparr>)))"

section \<open>Integers, counting, indexing\<close>

definition cursor_push_int :: "byte_order \<Rightarrow> cursor \<Rightarrow> u32 \<Rightarrow> mem \<Rightarrow> (bool \<times> cursor \<times> mem) option" where
  "cursor_push_int bo c i m = cursor_push c (host_bytes bo 4 i) 4 m"

definition cursor_pull_int :: "byte_order \<Rightarrow> cursor \<Rightarrow> mem \<Rightarrow> (u32 option \<times> cursor) option" where
  "cursor_pull_int bo c m =
     (case cursor_pull c 4 m of None \<Rightarrow> None
      | Some (d, c) \<Rightarrow> Some (map_option (host_word bo) d, c))"

text \<open>A zero element sz divides by zero.\<close>

definition cursor_count :: "cursor \<Rightarrow> nat \<Rightarrow> nat option" where
  "cursor_count c elem_size = (if elem_size = 0 then None else Some ((c_p c - c_start c) div elem_size))"

text \<open>\<open>elem_size * index\<close> multiplies an \<open>int\<close> by an \<open>unsigned int\<close>: 32 bits, unsigned.\<close>

definition index_cursor :: "cursor \<Rightarrow> u32 \<Rightarrow> u32 \<Rightarrow> addr option" where
  "index_cursor c index elem_size =
     (let p = c_start c + unat (elem_size * index) in if p \<ge> c_end c then None else Some p)"

text \<open>A difference of pointers, returned as an \<open>int\<close>.\<close>

definition cursor_remaining_capacity :: "cursor \<Rightarrow> int" where
  "cursor_remaining_capacity c = sint (of_int (int (c_end c) - int (c_p c)) :: 32 word)"

text \<open>The cursor functions of \<open>endian.h\<close>.\<close>

definition cursor_push_u16 :: "byte_order \<Rightarrow> cursor \<Rightarrow> u16 \<Rightarrow> mem \<Rightarrow> (bool \<times> cursor \<times> mem) option" where
  "cursor_push_u16 bo c i m = cursor_push c (host_bytes bo 2 (cpu_to_be16 bo i)) 2 m"

definition cursor_pull_u16 :: "byte_order \<Rightarrow> cursor \<Rightarrow> mem \<Rightarrow> (u16 option \<times> cursor) option" where
  "cursor_pull_u16 bo c m =
     (case cursor_pull c 2 m of None \<Rightarrow> None
      | Some (d, c) \<Rightarrow> Some (map_option (\<lambda>d. be16_to_cpu bo (host_word bo d)) d, c))"

definition cursor_push_u64 :: "byte_order \<Rightarrow> cursor \<Rightarrow> u64 \<Rightarrow> mem \<Rightarrow> (bool \<times> cursor \<times> mem) option" where
  "cursor_push_u64 bo c v m = cursor_push c (host_bytes bo 8 (cpu_to_be64 bo v)) 8 m"

section \<open>Strings\<close>

definition push_sized_str :: "cursor \<Rightarrow> bytes \<Rightarrow> int \<Rightarrow> mem \<Rightarrow> (bool \<times> cursor \<times> mem) option" where
  "push_sized_str c str len m = cursor_push c str len m"

text \<open>A C string is given by its bytes before the terminator: \<open>strlen\<close> is their number.\<close>

definition cursor_push_str :: "cursor \<Rightarrow> bytes \<Rightarrow> mem \<Rightarrow> (bool \<times> cursor \<times> mem) option" where
  "cursor_push_str c str m = cursor_push c str (c_int (length str)) m"

definition cursor_push_c_str :: "cursor \<Rightarrow> bytes \<Rightarrow> mem \<Rightarrow> (bool \<times> cursor \<times> mem) option" where
  "cursor_push_c_str c str m =
     c_and (cursor_push_str c str m) (\<lambda>(c, m). Some (cursor_push_byte c 0 m))"

section \<open>Basic laws\<close>

lemma c_int_small: "n < 2 ^ 31 \<Longrightarrow> c_int n = int n"
  by (simp add: c_int_def signed_of_nat signed_take_bit_int_eq_self)

lemma c_int_numeral [simp]: "c_int 0 = 0" "c_int (Suc 0) = 1" "c_int 1 = 1"
  by (simp_all add: c_int_small)

definition cursor_ok :: "cursor \<Rightarrow> bool" where
  "cursor_ok c \<longleftrightarrow> c_start c \<le> c_p c \<and> c_p c \<le> c_end c"

lemma cursor_push_eq:
  assumes "length data < 2 ^ 31"
  shows "cursor_push c data (c_int (length data)) m =
    (if c_p c + length data < c_end c
     then Some (True, c\<lparr>c_p := c_p c + length data\<rparr>, mwrite m (c_p c) data)
     else Some (False, c, m))"
  using assms by (auto simp: cursor_push_def c_int_small)

lemma cursor_push_u16_eq: "cursor_push_u16 bo c i m = cursor_push c (be_bytes 2 i) (c_int 2) m"
  by (simp add: cursor_push_u16_def bytes_simps c_int_small)

lemma cursor_push_u64_eq: "cursor_push_u64 bo c v m = cursor_push c (be_bytes 8 v) (c_int 8) m"
  by (simp add: cursor_push_u64_def bytes_simps c_int_small)

section \<open>Writing a sequence of fields\<close>

text \<open>
  The message builders push fields one after the other and stop at the first that does not
  fit. \<open>push_all\<close> is that sequence over any \<open>push\<close>; the locale \<open>byte_sink\<close> is what a builder
  relies on: a field is written exactly when it leaves at least one byte of room, the content
  grows by it, and nothing else changes.
\<close>

fun push_all :: "('s \<Rightarrow> bytes \<Rightarrow> (bool \<times> 's) option) \<Rightarrow> 's \<Rightarrow> bytes list \<Rightarrow> (bool \<times> 's) option" where
  "push_all push s [] = Some (True, s)"
| "push_all push s (d # ds) = c_and (push s d) (\<lambda>s. push_all push s ds)"

lemma c_and_assoc: "c_and (c_and r f) g = c_and r (\<lambda>s. c_and (f s) g)"
  by (cases r) (auto simp: c_and_def)

lemma c_and_True [simp]: "c_and r (\<lambda>s. Some (True, s)) = r"
  by (cases r) (auto simp: c_and_def)

lemma push_all_append: "push_all push s (xs @ ys) = c_and (push_all push s xs) (\<lambda>s. push_all push s ys)"
  by (induction xs arbitrary: s) (simp_all add: c_and_assoc)

locale byte_sink =
  fixes push :: "'s \<Rightarrow> bytes \<Rightarrow> (bool \<times> 's) option"
    and room :: "'s \<Rightarrow> nat"
    and content :: "'s \<Rightarrow> bytes"
    and ok :: "'s \<Rightarrow> bool"
    and keeps :: "'s \<Rightarrow> 's \<Rightarrow> bool"
  assumes push_full: "ok s \<Longrightarrow> length d < 2 ^ 31 \<Longrightarrow> room s \<le> length d \<Longrightarrow> push s d = Some (False, s)"
    and push_fits: "ok s \<Longrightarrow> length d < 2 ^ 31 \<Longrightarrow> length d < room s \<Longrightarrow>
      \<exists>s'. push s d = Some (True, s') \<and> content s' = content s @ d \<and> room s' = room s - length d"
    and push_keeps: "ok s \<Longrightarrow> push s d = Some (b, s') \<Longrightarrow> ok s' \<and> keeps s s'"
    and keeps_refl: "keeps s s"
    and keeps_trans: "keeps s s' \<Longrightarrow> keeps s' s'' \<Longrightarrow> keeps s s''"
begin

lemma push_all_fits:
  "ok s \<Longrightarrow> length (concat ds) < 2 ^ 31 \<Longrightarrow> length (concat ds) < room s \<Longrightarrow>
   \<exists>s'. push_all push s ds = Some (True, s') \<and> content s' = content s @ concat ds \<and>
     room s' = room s - length (concat ds) \<and> ok s' \<and> keeps s s'"
proof (induction ds arbitrary: s)
  case Nil
  then show ?case using keeps_refl by simp
next
  case (Cons d ds)
  obtain s1 where s1: "push s d = Some (True, s1)" "content s1 = content s @ d"
      "room s1 = room s - length d"
    using push_fits [of s d] Cons.prems by auto
  have k1: "ok s1" "keeps s s1" using push_keeps [OF Cons.prems(1) s1(1)] by simp_all
  have "length (concat ds) < 2 ^ 31" "length (concat ds) < room s1" using Cons.prems s1(3) by simp_all
  then obtain s' where "push_all push s1 ds = Some (True, s')" "content s' = content s1 @ concat ds"
      "room s' = room s1 - length (concat ds)" "ok s'" "keeps s1 s'"
    using Cons.IH [OF k1(1)] by blast
  then show ?case using s1 k1(2) keeps_trans by auto
qed

lemma push_all_keeps: "ok s \<Longrightarrow> push_all push s ds = Some (b, s') \<Longrightarrow> ok s' \<and> keeps s s'"
proof (induction ds arbitrary: s)
  case Nil
  then show ?case using keeps_refl by simp
next
  case (Cons d ds)
  obtain b1 s1 where s1: "push s d = Some (b1, s1)"
    using Cons.prems(2) by (cases "push s d") auto
  then show ?case
    using push_keeps [OF Cons.prems(1) s1] Cons.IH [of s1] Cons.prems(2) keeps_trans by (cases b1) auto
qed

lemma push_all_full:
  "ok s \<Longrightarrow> length (concat ds) < 2 ^ 31 \<Longrightarrow> ds \<noteq> [] \<Longrightarrow> room s \<le> length (concat ds) \<Longrightarrow>
   \<exists>s'. push_all push s ds = Some (False, s') \<and> ok s' \<and> keeps s s'"
proof (induction ds arbitrary: s)
  case Nil
  then show ?case by simp
next
  case (Cons d ds)
  show ?case
  proof (cases "room s \<le> length d")
    case True
    then show ?thesis using push_full [of s d] Cons.prems keeps_refl by simp
  next
    case False
    then obtain s1 where s1: "push s d = Some (True, s1)" "room s1 = room s - length d"
      using push_fits [of s d] Cons.prems by auto
    have k1: "ok s1" "keeps s s1" using push_keeps [OF Cons.prems(1) s1(1)] by simp_all
    have "ds \<noteq> []" using False Cons.prems by auto
    moreover have "length (concat ds) < 2 ^ 31" "room s1 \<le> length (concat ds)"
      using Cons.prems s1(2) by simp_all
    ultimately obtain s' where "push_all push s1 ds = Some (False, s')" "ok s'" "keeps s1 s'"
      using Cons.IH [OF k1(1)] by blast
    then show ?thesis using s1 k1(2) keeps_trans by auto
  qed
qed

end

section \<open>The cursor is a byte sink\<close>

type_synonym cursor_state = "cursor \<times> mem"

fun cursor_sink :: "cursor_state \<Rightarrow> bytes \<Rightarrow> (bool \<times> cursor_state) option" where
  "cursor_sink (c, m) d = cursor_push c d (c_int (length d)) m"

fun cursor_room :: "cursor_state \<Rightarrow> nat" where
  "cursor_room (c, m) = c_end c - c_p c"

fun cursor_content :: "cursor_state \<Rightarrow> bytes" where
  "cursor_content (c, m) = mread m (c_start c) (c_p c - c_start c)"

text \<open>Same bounds, and memory outside the bounds untouched.\<close>

fun cursor_keeps :: "cursor_state \<Rightarrow> cursor_state \<Rightarrow> bool" where
  "cursor_keeps (c, m) (c', m') \<longleftrightarrow>
     c_start c' = c_start c \<and> c_end c' = c_end c \<and>
     (\<forall>a. a < c_start c \<or> c_end c \<le> a \<longrightarrow> m' a = m a)"

lemma cursor_content_write:
  "cursor_ok c \<Longrightarrow>
   cursor_content (c\<lparr>c_p := c_p c + length d\<rparr>, mwrite m (c_p c) d) = cursor_content (c, m) @ d"
proof -
  assume ok: "cursor_ok c"
  then obtain k where p: "c_p c = c_start c + k" by (auto simp: cursor_ok_def le_iff_add)
  show ?thesis
    by (simp add: p add.assoc mread_add mem_simps)
qed

lemma cursor_push_keeps:
  assumes "cursor_ok c" "cursor_push c d len m = Some (b, c', m')"
  shows "cursor_ok c' \<and> cursor_keeps (c, m) (c', m')"
  using assms by (auto simp: cursor_push_def cursor_ok_def mwrite_outside split: if_splits)

interpretation sink: byte_sink cursor_sink cursor_room cursor_content "\<lambda>(c, m). cursor_ok c" cursor_keeps
proof unfold_locales
  fix s :: cursor_state and d :: bytes
  assume *: "case s of (c, m) \<Rightarrow> cursor_ok c" "length d < 2 ^ 31" 
  { assume "cursor_room s \<le> length d"
    with * show "cursor_sink s d = Some (False, s)"
      by (cases s) (auto simp: cursor_push_eq cursor_ok_def) }
  { assume "length d < cursor_room s"
    with * show "\<exists>s'. cursor_sink s d = Some (True, s') \<and>
        cursor_content s' = cursor_content s @ d \<and> cursor_room s' = cursor_room s - length d"
      by (cases s) (auto simp: cursor_push_eq cursor_content_write [simplified]) }
next
  fix s d b and s' :: cursor_state
  assume "case s of (c, m) \<Rightarrow> cursor_ok c" "cursor_sink s d = Some (b, s')"
  then show "(case s' of (c, m) \<Rightarrow> cursor_ok c) \<and> cursor_keeps s s'"
    by (cases s; cases s') (simp add: cursor_push_keeps del: cursor_keeps.simps)
next
  fix s :: cursor_state
  show "cursor_keeps s s" by (cases s) simp
next
  fix s s' s'' :: cursor_state
  assume "cursor_keeps s s'" "cursor_keeps s' s''"
  then show "cursor_keeps s s''" by (cases s; cases s'; cases s'') auto
qed

end
