(* ===== verification/Crypto.thy ===== *)
theory Crypto
  imports Hkdf Cursor
begin

text \<open>
  \<open>crypto.c\<close> and \<open>crypto.h\<close>: the encryption of messages after the handshake (BOLT 8). The
  AEAD of libsodium is a parameter, a record of functions; what the code relies on is the
  hypothesis \<open>aead_ok\<close>. The code is shown to implement the channel of the specification,
  \<open>bolt8_encrypt\<close> and \<open>bolt8_decrypt\<close>, and the locale \<open>channel\<close> says what its users get from it.
\<close>

section \<open>The library\<close>

text \<open>
  \<open>crypto_aead_chacha20poly1305_ietf_encrypt\<close> and \<open>_decrypt\<close>, on key, nonce, additional data
  and input: whether the returned value is 0, and the bytes written to the output buffer. When
  the buffers overlap the model hands the library the bytes that are in memory at the call.
\<close>

record aead =
  lib_host :: host
  aead_enc :: "bytes \<Rightarrow> bytes \<Rightarrow> bytes \<Rightarrow> bytes \<Rightarrow> bool \<times> bytes"
  aead_dec :: "bytes \<Rightarrow> bytes \<Rightarrow> bytes \<Rightarrow> bytes \<Rightarrow> bool \<times> bytes"

abbreviation lib_order :: "'a aead_scheme \<Rightarrow> byte_order" where
  "lib_order L \<equiv> host_order (lib_host L)"

text \<open>
  The documented behaviour: encryption succeeds and appends 16 bytes, and decryption with the
  same key, nonce and additional data gives the plaintext back; what decryption accepts is 16
  bytes longer than what it returns.
\<close>

definition aead_ok :: "'a aead_scheme \<Rightarrow> bool" where
  "aead_ok L \<longleftrightarrow>
     (\<forall>k n ad p. length k = 32 \<longrightarrow> length n = 12 \<longrightarrow>
        (\<exists>c. aead_enc L k n ad p = (True, c) \<and> length c = length p + 16 \<and> aead_dec L k n ad c = (True, p))) \<and>
     (\<forall>k n ad c p. aead_dec L k n ad c = (True, p) \<longrightarrow> length c = length p + 16)"

section \<open>State\<close>

record crypto_state =
  cs_rn :: u64
  cs_sn :: u64
  cs_sk :: bytes
  cs_rk :: bytes
  cs_s_ck :: bytes
  cs_r_ck :: bytes

section \<open>Nonces and keys\<close>

definition le64_nonce :: "byte_order \<Rightarrow> u64 \<Rightarrow> bytes" where
  "le64_nonce bo nonce = replicate (12 - 8) 0 @ host_bytes bo 8 (cpu_to_le64 bo nonce)"

text \<open>\<open>in2\<close> may be a null pointer.\<close>

definition hkdf_two_keys :: "host \<Rightarrow> bytes \<Rightarrow> bytes option \<Rightarrow> (bytes \<times> bytes) option" where
  "hkdf_two_keys H in1 in2 = do {
     okm \<leftarrow> hkdf_sha256 H 64 in1 (case in2 of None \<Rightarrow> [] | Some k \<Rightarrow> k) [];
     Some (take 32 okm, take 32 (drop 32 okm)) }"

definition maybe_rotate_key :: "host \<Rightarrow> u64 \<Rightarrow> bytes \<Rightarrow> bytes \<Rightarrow> (u64 \<times> bytes \<times> bytes) option" where
  "maybe_rotate_key H n k ck =
     (if n \<noteq> 1000 then Some (n, k, ck)
      else do {
        (new_ck, new_k) \<leftarrow> hkdf_two_keys H ck (Some k);
        Some (0, new_k, new_ck) })"

section \<open>Decryption\<close>

text \<open>
  \<open>cryptomsg_decrypt_size\<close> converts a \<open>size_t\<close> to an \<open>int\<close>; its result is compared with a
  \<open>size_t\<close>, which converts it back.
\<close>

definition cryptomsg_decrypt_size :: "nat \<Rightarrow> int" where
  "cryptomsg_decrypt_size inlen = sint (of_nat inlen - 16 :: 32 word)"

definition int_to_size :: "int \<Rightarrow> nat" where
  "int_to_size i = nat (i mod 2 ^ 64)"

definition cryptomsg_decrypt_body ::
  "'a aead_scheme \<Rightarrow> crypto_state \<Rightarrow> addr \<Rightarrow> nat \<Rightarrow> addr \<Rightarrow> nat \<Rightarrow> mem
    \<Rightarrow> (bool \<times> crypto_state \<times> mem) option" where
  "cryptomsg_decrypt_body L cs inp inlen out outcap m =
     (if inlen < 16 \<or> outcap < int_to_size (cryptomsg_decrypt_size inlen) then Some (False, cs, m)
      else do {
        let npub = le64_nonce (lib_order L) (cs_rn cs);
        let cs = cs\<lparr>cs_rn := cs_rn cs + 1\<rparr>;
        let (ok, p) = aead_dec L (cs_rk cs) npub [] (mread m inp inlen);
        let m = mwrite m out p;
        if \<not> ok then Some (False, cs, m)
        else do {
          c_assert (length p = int_to_size (cryptomsg_decrypt_size inlen));
          (rn, rk, r_ck) \<leftarrow> maybe_rotate_key (lib_host L) (cs_rn cs) (cs_rk cs) (cs_r_ck cs);
          Some (True, cs\<lparr>cs_rn := rn, cs_rk := rk, cs_r_ck := r_ck\<rparr>, m) } })"

text \<open>\<open>hdr\<close> are the 18 bytes at the pointer; the length is the out-parameter.\<close>

definition cryptomsg_decrypt_header ::
  "'a aead_scheme \<Rightarrow> crypto_state \<Rightarrow> bytes \<Rightarrow> (u16 option \<times> crypto_state) option" where
  "cryptomsg_decrypt_header L cs hdr = do {
     let npub = le64_nonce (lib_order L) (cs_rn cs);
     let cs = cs\<lparr>cs_rn := cs_rn cs + 1\<rparr>;
     let (ok, p) = aead_dec L (cs_rk cs) npub [] hdr;
     if \<not> ok then Some (None, cs)
     else do {
       c_assert (length p = 2);
       Some (Some (be16_to_cpu (lib_order L) (host_word (lib_order L) p)), cs) } }"

section \<open>Encryption\<close>

text \<open>
  The message is in memory and so is the output: the header's ciphertext is written before the
  message is read. The second encryption is taken to read its input before it writes; libsodium
  documents this for an output that is its input or apart from it. The result is the returned
  pointer, \<open>*outlen\<close>, and the new state.
\<close>

definition cryptomsg_encrypt_msg ::
  "'a aead_scheme \<Rightarrow> crypto_state \<Rightarrow> addr \<Rightarrow> nat \<Rightarrow> addr \<Rightarrow> nat \<Rightarrow> mem
    \<Rightarrow> (addr option \<times> nat \<times> crypto_state \<times> mem) option" where
  "cryptomsg_encrypt_msg L cs msg mlen out outcap m =
     (let bo = lib_order L; outlen = 2 + 16 + mlen + 16
      in if outcap < mlen then Some (None, 0, cs, m)
         else do {
           let l = cpu_to_be16 bo (of_nat mlen);
           let npub = le64_nonce bo (cs_sn cs);
           let cs = cs\<lparr>cs_sn := cs_sn cs + 1\<rparr>;
           let (ok, c) = aead_enc L (cs_sk cs) npub [] (host_bytes bo 2 l);
           let m = mwrite m out c;
           c_assert ok;
           c_assert (length c = 2 + 16);
           let npub = le64_nonce bo (cs_sn cs);
           let cs = cs\<lparr>cs_sn := cs_sn cs + 1\<rparr>;
           let (ok, c2) = aead_enc L (cs_sk cs) npub [] (mread m msg mlen);
           let m = mwrite m (out + length c) c2;
           c_assert ok;
           c_assert (length c2 = mlen + 16);
           (sn, sk, s_ck) \<leftarrow> maybe_rotate_key (lib_host L) (cs_sn cs) (cs_sk cs) (cs_s_ck cs);
           Some (Some out, outlen, cs\<lparr>cs_sn := sn, cs_sk := sk, cs_s_ck := s_ck\<rparr>, m) })"

section \<open>The channel of BOLT 8\<close>

text \<open>One direction: the key, the chaining key, and the nonce as a number.\<close>

record bolt8_chan =
  ch_k :: bytes
  ch_ck :: bytes
  ch_n :: nat

definition bolt8_nonce :: "nat \<Rightarrow> bytes" where
  "bolt8_nonce n = [0, 0, 0, 0] @ le_bytes 8 (of_nat n :: u64)"

text \<open>\<open>HKDF (salt, ikm)\<close>: 64 bytes, split in two keys.\<close>

definition bolt8_hkdf :: "bytes \<Rightarrow> bytes \<Rightarrow> bytes \<times> bytes" where
  "bolt8_hkdf salt ikm = (let okm = rfc5869_hkdf 64 salt ikm [] in (take 32 okm, drop 32 okm))"

definition bolt8_rotate :: "bolt8_chan \<Rightarrow> bolt8_chan" where
  "bolt8_rotate ch =
     (if ch_n ch = 1000
      then (case bolt8_hkdf (ch_ck ch) (ch_k ch) of (ck', k') \<Rightarrow> \<lparr>ch_k = k', ch_ck = ck', ch_n = 0\<rparr>)
      else ch)"

definition bolt8_encrypt :: "'a aead_scheme \<Rightarrow> bolt8_chan \<Rightarrow> bytes \<Rightarrow> bytes \<times> bolt8_chan" where
  "bolt8_encrypt L ch p =
     (let lc = snd (aead_enc L (ch_k ch) (bolt8_nonce (ch_n ch)) [] (be_bytes 2 (of_nat (length p) :: u16)));
          c = snd (aead_enc L (ch_k ch) (bolt8_nonce (ch_n ch + 1)) [] p)
      in (lc @ c, bolt8_rotate (ch\<lparr>ch_n := ch_n ch + 2\<rparr>)))"

text \<open>Well-formed channels: 32-byte keys, and at most 1000 uses of a key, two per message.\<close>

definition chan_ok :: "bolt8_chan \<Rightarrow> bool" where
  "chan_ok ch \<longleftrightarrow> length (ch_k ch) = 32 \<and> length (ch_ck ch) = 32 \<and> ch_n ch < 1000 \<and> even (ch_n ch)"

definition send_chan :: "crypto_state \<Rightarrow> bolt8_chan" where
  "send_chan cs = \<lparr>ch_k = cs_sk cs, ch_ck = cs_s_ck cs, ch_n = unat (cs_sn cs)\<rparr>"

definition recv_chan :: "crypto_state \<Rightarrow> bolt8_chan" where
  "recv_chan cs = \<lparr>ch_k = cs_rk cs, ch_ck = cs_r_ck cs, ch_n = unat (cs_rn cs)\<rparr>"

lemma length_bolt8_nonce [simp]: "length (bolt8_nonce n) = 12"
  by (simp add: bolt8_nonce_def)

lemma le64_nonce_eq: "le64_nonce bo n = bolt8_nonce (unat n)"
proof -
  have "replicate (12 - 8) (0 :: u8) = [0, 0, 0, 0]" by (simp add: numeral_eq_Suc)
  then show ?thesis by (simp add: le64_nonce_def bolt8_nonce_def bytes_simps)
qed

lemma length_rfc5869_hkdf [simp]: "length (rfc5869_hkdf L s k i) = L"
proof -
  have "length (concat (map (rfc5869_T prk i) [1..<Suc N])) = 32 * N" for prk N
    by (induction N) (simp_all add: length_rfc5869_T_Suc del: rfc5869_T.simps)
  then show ?thesis by (simp add: rfc5869_hkdf_def Let_def del: upt_Suc) 
qed

lemma length_bolt8_hkdf: "bolt8_hkdf s k = (a, b) \<Longrightarrow> length a = 32 \<and> length b = 32"
  by (auto simp: bolt8_hkdf_def Let_def)

lemma hkdf_two_keys_eq:
  assumes "length in1 < 2 ^ 61" "case in2 of None \<Rightarrow> True | Some k \<Rightarrow> length k < 2 ^ 60"
  shows "hkdf_two_keys H in1 in2 = Some (bolt8_hkdf in1 (case in2 of None \<Rightarrow> [] | Some k \<Rightarrow> k))"
  using assms by (cases in2) (simp_all add: hkdf_two_keys_def hkdf_sha256_eq bolt8_hkdf_def Let_def)

lemma maybe_rotate_key_eq:
  assumes "length k = 32" "length ck = 32"
    and "bolt8_rotate \<lparr>ch_k = k, ch_ck = ck, ch_n = unat n\<rparr> = \<lparr>ch_k = k', ch_ck = ck', ch_n = n'\<rparr>"
  shows "maybe_rotate_key H n k ck = Some (of_nat n', k', ck')"
proof -
  have "n = 1000 \<longleftrightarrow> unat n = 1000" by (simp add: word_unat_eq_iff)
  then show ?thesis
    using assms by (auto simp: maybe_rotate_key_def bolt8_rotate_def hkdf_two_keys_eq split: prod.splits if_splits)
qed

lemma bolt8_rotate_ok:
  assumes "length (ch_k ch) = 32" "length (ch_ck ch) = 32" "ch_n ch \<le> 1000" "even (ch_n ch)"
  shows "chan_ok (bolt8_rotate ch)"
  using assms by (auto simp: chan_ok_def bolt8_rotate_def split: prod.splits dest: length_bolt8_hkdf)

lemma bolt8_encrypt_ok: "chan_ok ch \<Longrightarrow> chan_ok (snd (bolt8_encrypt L ch p))"
  using bolt8_rotate_ok [of "ch\<lparr>ch_n := ch_n ch + 2\<rparr>"]
  by (auto simp: bolt8_encrypt_def Let_def chan_ok_def elim!: evenE)

section \<open>The code implements the channel\<close>

lemma aead_encE:
  assumes "aead_ok L" "length k = 32" "length n = 12"
  obtains c where "aead_enc L k n ad p = (True, c)" "length c = length p + 16" "aead_dec L k n ad c = (True, p)"
  using assms unfolding aead_ok_def by blast

lemma aead_enc_simps:
  assumes "aead_ok L" "length k = 32" "length n = 12"
  shows "fst (aead_enc L k n ad p)" "length (snd (aead_enc L k n ad p)) = length p + 16"
    "aead_dec L k n ad (snd (aead_enc L k n ad p)) = (True, p)"
proof -
  obtain c where "aead_enc L k n ad p = (True, c)" "length c = length p + 16" "aead_dec L k n ad c = (True, p)"
    by (rule aead_encE [OF assms])
  then show "fst (aead_enc L k n ad p)" "length (snd (aead_enc L k n ad p)) = length p + 16"
    "aead_dec L k n ad (snd (aead_enc L k n ad p)) = (True, p)" by simp_all
qed

lemma length_bolt8_packet:
  "aead_ok L \<Longrightarrow> chan_ok ch \<Longrightarrow> length (fst (bolt8_encrypt L ch p)) = length p + 34"
  by (simp add: bolt8_encrypt_def Let_def aead_enc_simps chan_ok_def)

lemma unat_plus_small: "unat (n :: u64) < 2 ^ 63 \<Longrightarrow> unat (n + 1) = unat n + 1"
  by (simp add: unat_word_ariths unsigned_1)

text \<open>The header of a packet depends on the length of the message only.\<close>

definition bolt8_header :: "'a aead_scheme \<Rightarrow> bolt8_chan \<Rightarrow> nat \<Rightarrow> bytes" where
  "bolt8_header L ch n = snd (aead_enc L (ch_k ch) (bolt8_nonce (ch_n ch)) [] (be_bytes 2 (of_nat n :: u16)))"

lemma length_bolt8_header: "aead_ok L \<Longrightarrow> chan_ok ch \<Longrightarrow> length (bolt8_header L ch n) = 18"
  by (simp add: bolt8_header_def aead_enc_simps chan_ok_def)

lemma encrypt_msg_in_place:
  assumes "aead_ok L" "chan_ok (send_chan cs)" "mlen \<le> outcap"
    and "p = mread (mwrite m out (bolt8_header L (send_chan cs) mlen)) msg mlen"
    and "bolt8_encrypt L (send_chan cs) p = (packet, ch)"
  shows "cryptomsg_encrypt_msg L cs msg mlen out outcap m =
    Some (Some out, mlen + 34,
      cs\<lparr>cs_sn := of_nat (ch_n ch), cs_sk := ch_k ch, cs_s_ck := ch_ck ch\<rparr>, mwrite m out packet)"
proof -
  let ?n = "unat (cs_sn cs)"
  have ok: "length (cs_sk cs) = 32" "length (cs_s_ck cs) = 32" "?n < 1000"
    using assms(2) by (simp_all add: chan_ok_def send_chan_def)
  have n1: "unat (cs_sn cs + 1) = ?n + 1" by (rule unat_plus_small) (use ok(3) in simp)
  have n2: "unat (cs_sn cs + 1 + 1) = ?n + 2"
    using unat_plus_small [of "cs_sn cs + 1"] n1 ok(3) by simp
  obtain c where c: "aead_enc L (cs_sk cs) (bolt8_nonce ?n) [] (be_bytes 2 (of_nat mlen :: u16)) = (True, c)"
      "length c = 18"
    by (rule aead_encE [OF assms(1) ok(1) length_bolt8_nonce [of ?n], of "[]" "be_bytes 2 (of_nat mlen :: u16)"]) simp
  obtain c2 where c2: "aead_enc L (cs_sk cs) (bolt8_nonce (?n + 1)) [] p = (True, c2)" "length c2 = length p + 16"
    by (rule aead_encE [OF assms(1) ok(1) length_bolt8_nonce [of "?n + 1"], of "[]" p])
  have len: "length p = mlen" by (simp add: assms(4))
  have packet: "packet = c @ c2" and ch: "ch = bolt8_rotate \<lparr>ch_k = cs_sk cs, ch_ck = cs_s_ck cs, ch_n = ?n + 2\<rparr>"
    using assms(5) c c2 len by (simp_all add: bolt8_encrypt_def send_chan_def Let_def)
  have rd: "mread (mwrite m out c) msg mlen = p"
    using assms(4) c by (simp add: bolt8_header_def send_chan_def)
  have rot: "maybe_rotate_key H (cs_sn cs + 1 + 1) (cs_sk cs) (cs_s_ck cs) = Some (of_nat (ch_n ch), ch_k ch, ch_ck ch)" for H
    by (rule maybe_rotate_key_eq [OF ok(1,2)]) (simp only: n2 flip: ch, simp)
  show ?thesis
    using assms(3) c c2 rd rot n1 len
    by (simp add: cryptomsg_encrypt_msg_def Let_def le64_nonce_eq bytes_simps packet
        mwrite_mwrite_append [of m out c, unfolded c(2)])
qed

lemma encrypt_msg_refines:
  assumes "aead_ok L" "chan_ok (send_chan cs)" "mlen \<le> outcap"
    and "msg + mlen \<le> out \<or> out + 18 \<le> msg"
    and "bolt8_encrypt L (send_chan cs) (mread m msg mlen) = (packet, ch)"
  shows "cryptomsg_encrypt_msg L cs msg mlen out outcap m =
    Some (Some out, mlen + 34,
      cs\<lparr>cs_sn := of_nat (ch_n ch), cs_sk := ch_k ch, cs_s_ck := ch_ck ch\<rparr>, mwrite m out packet)"
proof -
  have "mread m msg mlen = mread (mwrite m out (bolt8_header L (send_chan cs) mlen)) msg mlen"
    using assms(4) length_bolt8_header [OF assms(1,2), of mlen] by (intro mread_mwrite_disjoint [symmetric]) auto
  then show ?thesis using assms by (intro encrypt_msg_in_place)
qed

lemma send_chan_update [simp]:
  "chan_ok ch \<Longrightarrow> send_chan (cs\<lparr>cs_sn := of_nat (ch_n ch), cs_sk := ch_k ch, cs_s_ck := ch_ck ch\<rparr>) = ch"
  by (simp add: send_chan_def chan_ok_def unsigned_of_nat take_bit_nat_eq_self)

lemma recv_chan_update [simp]:
  "chan_ok ch \<Longrightarrow> recv_chan (cs\<lparr>cs_rn := of_nat (ch_n ch), cs_rk := ch_k ch, cs_r_ck := ch_ck ch\<rparr>) = ch"
  by (simp add: recv_chan_def chan_ok_def unsigned_of_nat take_bit_nat_eq_self)

lemma decrypt_header_packet:
  assumes "aead_ok L" "chan_ok (recv_chan cs)" "bolt8_encrypt L (recv_chan cs) p = (packet, ch)"
  shows "cryptomsg_decrypt_header L cs (take 18 packet) =
    Some (Some (of_nat (length p)), cs\<lparr>cs_rn := cs_rn cs + 1\<rparr>)"
proof -
  have ok: "length (cs_rk cs) = 32" using assms(2) by (simp add: chan_ok_def recv_chan_def)
  let ?l = "of_nat (length p) :: u16"
  obtain c where c: "aead_enc L (cs_rk cs) (bolt8_nonce (unat (cs_rn cs))) [] (be_bytes 2 ?l) = (True, c)"
      "length c = 18" "aead_dec L (cs_rk cs) (bolt8_nonce (unat (cs_rn cs))) [] c = (True, be_bytes 2 ?l)"
    by (rule aead_encE [OF assms(1) ok length_bolt8_nonce [of "unat (cs_rn cs)"], of "[]" "be_bytes 2 ?l"]) simp
  then have "take 18 packet = c" using assms(3) by (auto simp: bolt8_encrypt_def recv_chan_def Let_def)
  then show ?thesis
    using c by (simp add: cryptomsg_decrypt_header_def Let_def le64_nonce_eq bytes_simps be_word_be_bytes)
qed

lemma decrypt_size_small:
  assumes "n < 2 ^ 31"
  shows "cryptomsg_decrypt_size (n + 16) = int n" "int_to_size (int n) = n"
proof -
  show "cryptomsg_decrypt_size (n + 16) = int n"
    using c_int_small [OF assms] by (simp add: cryptomsg_decrypt_size_def c_int_def)
  show "int_to_size (int n) = n" using assms by (simp add: int_to_size_def)
qed

lemma decrypt_body_packet:
  assumes "aead_ok L" "chan_ok (recv_chan cs)" "bolt8_encrypt L (recv_chan cs) p = (packet, ch)"
    and "length p < 2 ^ 31" "length p \<le> outcap" "mread m inp (length p + 16) = drop 18 packet"
  shows "cryptomsg_decrypt_body L (cs\<lparr>cs_rn := cs_rn cs + 1\<rparr>) inp (length p + 16) out outcap m =
    Some (True, cs\<lparr>cs_rn := of_nat (ch_n ch), cs_rk := ch_k ch, cs_r_ck := ch_ck ch\<rparr>, mwrite m out p)"
proof -
  let ?n = "unat (cs_rn cs)"
  have ok: "length (cs_rk cs) = 32" "length (cs_r_ck cs) = 32" "?n < 1000"
    using assms(2) by (simp_all add: chan_ok_def recv_chan_def)
  have n1: "unat (cs_rn cs + 1) = ?n + 1" by (rule unat_plus_small) (use ok(3) in simp)
  have n2: "unat (cs_rn cs + 1 + 1) = ?n + 2"
    using unat_plus_small [of "cs_rn cs + 1"] n1 ok(3) by simp
  obtain c2 where c2: "aead_enc L (cs_rk cs) (bolt8_nonce (?n + 1)) [] p = (True, c2)"
      "aead_dec L (cs_rk cs) (bolt8_nonce (?n + 1)) [] c2 = (True, p)"
    by (rule aead_encE [OF assms(1) ok(1) length_bolt8_nonce [of "?n + 1"], of "[]" p]) simp
  have "length (snd (aead_enc L (cs_rk cs) (bolt8_nonce ?n) [] (be_bytes 2 (of_nat (length p) :: u16)))) = 18"
    using aead_enc_simps(2) [OF assms(1) ok(1) length_bolt8_nonce] by simp
  then have packet: "drop 18 packet = c2"
    and ch: "ch = bolt8_rotate \<lparr>ch_k = cs_rk cs, ch_ck = cs_r_ck cs, ch_n = ?n + 2\<rparr>"
    using assms(3) c2(1) by (auto simp: bolt8_encrypt_def recv_chan_def Let_def)
  have rot: "maybe_rotate_key H (cs_rn cs + 1 + 1) (cs_rk cs) (cs_r_ck cs) = Some (of_nat (ch_n ch), ch_k ch, ch_ck ch)" for H
    by (rule maybe_rotate_key_eq [OF ok(1,2)]) (simp only: n2 flip: ch, simp)
  show ?thesis
    using assms(4-6) c2(2) rot n1
    by (simp add: cryptomsg_decrypt_body_def Let_def le64_nonce_eq decrypt_size_small packet)
qed

section \<open>What the users of a channel get\<close>

text \<open>Running an operation over a list, with the state threaded through.\<close>

fun run_all :: "('s \<Rightarrow> 'a \<Rightarrow> ('b \<times> 's) option) \<Rightarrow> 's \<Rightarrow> 'a list \<Rightarrow> ('b list \<times> 's) option" where
  "run_all f s [] = Some ([], s)"
| "run_all f s (x # xs) = do {
     (y, s) \<leftarrow> f s x;
     (ys, s) \<leftarrow> run_all f s xs;
     Some (y # ys, s) }"

locale channel =
  fixes seal :: "'s \<Rightarrow> bytes \<Rightarrow> (bytes \<times> 's) option"
    and unseal :: "'r \<Rightarrow> bytes \<Rightarrow> (bytes \<times> 'r) option"
    and sync :: "'s \<Rightarrow> 'r \<Rightarrow> bool"
    and fits :: "bytes \<Rightarrow> bool"
  assumes deliver: "sync s r \<Longrightarrow> fits p \<Longrightarrow>
    \<exists>c s' r'. seal s p = Some (c, s') \<and> unseal r c = Some (p, r') \<and> sync s' r'"
begin

lemma deliver_all:
  "sync s r \<Longrightarrow> \<forall>p \<in> set ps. fits p \<Longrightarrow>
   \<exists>cs s' r'. run_all seal s ps = Some (cs, s') \<and> run_all unseal r cs = Some (ps, r') \<and> sync s' r'"
proof (induction ps arbitrary: s r)
  case Nil
  then show ?case by auto
next
  case (Cons p ps)
  obtain c s1 r1 where 1: "seal s p = Some (c, s1)" "unseal r c = Some (p, r1)" "sync s1 r1"
    using deliver [OF Cons.prems(1), of p] Cons.prems(2) by auto
  obtain cs s' r' where "run_all seal s1 ps = Some (cs, s')" "run_all unseal r1 cs = Some (ps, r')" "sync s' r'"
    using Cons.IH [OF 1(3)] Cons.prems(2) by auto
  with 1 show ?case by (intro exI [of _ "c # cs"] exI [of _ s'] exI [of _ r']) simp
qed

end

text \<open>
  The two ends of a connection, each calling the code with the message and the packet in
  adjacent buffers.
\<close>

definition seal_msg :: "'a aead_scheme \<Rightarrow> crypto_state \<Rightarrow> bytes \<Rightarrow> (bytes \<times> crypto_state) option" where
  "seal_msg L cs p =
     (let n = length p in
      case cryptomsg_encrypt_msg L cs 0 n n (n + 34) (mwrite (\<lambda>_. 0) 0 p) of
        Some (Some out, outlen, cs, m) \<Rightarrow> Some (mread m out outlen, cs)
      | _ \<Rightarrow> None)"

definition unseal_msg :: "'a aead_scheme \<Rightarrow> crypto_state \<Rightarrow> bytes \<Rightarrow> (bytes \<times> crypto_state) option" where
  "unseal_msg L cs packet =
     (case cryptomsg_decrypt_header L cs (take 18 packet) of
        Some (Some l, cs) \<Rightarrow>
          (let n = unat l in
           case cryptomsg_decrypt_body L cs 0 (n + 16) (n + 16) n (mwrite (\<lambda>_. 0) 0 (drop 18 packet)) of
             Some (True, cs, m) \<Rightarrow> Some (mread m (n + 16) n, cs)
           | _ \<Rightarrow> None)
      | _ \<Rightarrow> None)"

definition in_sync :: "crypto_state \<Rightarrow> crypto_state \<Rightarrow> bool" where
  "in_sync s r \<longleftrightarrow> chan_ok (send_chan s) \<and> recv_chan r = send_chan s"

lemma seal_msg_eq:
  assumes "aead_ok L" "chan_ok (send_chan cs)" "bolt8_encrypt L (send_chan cs) p = (packet, ch)"
  shows "seal_msg L cs p =
    Some (packet, cs\<lparr>cs_sn := of_nat (ch_n ch), cs_sk := ch_k ch, cs_s_ck := ch_ck ch\<rparr>)"
proof -
  have "length packet = length p + 34"
    using length_bolt8_packet [OF assms(1,2), of p] assms(3) by simp
  moreover have "bolt8_encrypt L (send_chan cs) (mread (mwrite (\<lambda>_. 0) 0 p) 0 (length p)) = (packet, ch)"
    using assms(3) by simp
  note encrypt_msg_refines [OF assms(1,2) _ _ this, of "length p + 34" "length p"]
  ultimately show ?thesis by (simp add: seal_msg_def Let_def)
qed

lemma unseal_msg_eq:
  assumes "aead_ok L" "chan_ok (recv_chan cs)" "bolt8_encrypt L (recv_chan cs) p = (packet, ch)"
    and "length p < 2 ^ 16"
  shows "unseal_msg L cs packet =
    Some (p, cs\<lparr>cs_rn := of_nat (ch_n ch), cs_rk := ch_k ch, cs_r_ck := ch_ck ch\<rparr>)"
proof -
  have len: "length (drop 18 packet) = length p + 16"
    using length_bolt8_packet [OF assms(1,2), of p] assms(3) by simp
  have l: "unat (of_nat (length p) :: u16) = length p"
    using assms(4) by (simp add: unsigned_of_nat take_bit_nat_eq_self)
  have "mread (mwrite (\<lambda>_. 0) 0 (drop 18 packet)) 0 (length p + 16) = drop 18 packet"
    using len by simp
  from decrypt_body_packet [OF assms(1-3) _ _ this, of "length p" "length p + 16"]
  show ?thesis
    using assms(4) by (simp add: unseal_msg_def decrypt_header_packet [OF assms(1-3)] l Let_def)
qed

lemma channel_deliver:
  assumes "aead_ok L" "in_sync s r" "length p < 2 ^ 16"
  shows "\<exists>c s' r'. seal_msg L s p = Some (c, s') \<and> unseal_msg L r c = Some (p, r') \<and> in_sync s' r'"
proof -
  obtain packet ch where e: "bolt8_encrypt L (send_chan s) p = (packet, ch)" by (cases "bolt8_encrypt L (send_chan s) p")
  have ok: "chan_ok (send_chan s)" "recv_chan r = send_chan s" using assms(2) by (simp_all add: in_sync_def)
  then have "chan_ok ch" using bolt8_encrypt_ok [of "send_chan s" L p] e by simp
  then show ?thesis
    using seal_msg_eq [OF assms(1) ok(1) e] unseal_msg_eq [of L r p packet ch] assms ok e
    by (auto simp: in_sync_def)
qed

text \<open>
  The channel's contract holds for the code with any library that behaves as documented: an
  end of it is the library with a crypto state.
\<close>

type_synonym 'a chan_end = "'a aead_scheme \<times> crypto_state"

fun end_seal :: "'a chan_end \<Rightarrow> bytes \<Rightarrow> (bytes \<times> 'a chan_end) option" where
  "end_seal (L, s) p = map_option (map_prod id (Pair L)) (seal_msg L s p)"

fun end_unseal :: "'a chan_end \<Rightarrow> bytes \<Rightarrow> (bytes \<times> 'a chan_end) option" where
  "end_unseal (L, r) c = map_option (map_prod id (Pair L)) (unseal_msg L r c)"

fun ends_sync :: "'a chan_end \<Rightarrow> 'a chan_end \<Rightarrow> bool" where
  "ends_sync (L, s) (L', r) \<longleftrightarrow> L' = L \<and> aead_ok L \<and> in_sync s r"

interpretation msgs: channel end_seal end_unseal ends_sync "\<lambda>p. length p < 2 ^ 16"
proof unfold_locales
  fix s r :: "'a chan_end" and p :: bytes
  assume *: "ends_sync s r" "length p < 2 ^ 16"
  obtain L cs cr where s: "s = (L, cs)" "r = (L, cr)" using *(1) by (cases s; cases r) auto
  with channel_deliver [of L cs cr p] * obtain c s' r' where
    "seal_msg L cs p = Some (c, s')" "unseal_msg L cr c = Some (p, r')" "in_sync s' r'" by auto
  then show "\<exists>c s' r'. end_seal s p = Some (c, s') \<and> end_unseal r c = Some (p, r') \<and> ends_sync s' r'"
    using s * by (intro exI [of _ c] exI [of _ "(L, s')"] exI [of _ "(L, r')"]) simp
qed

lemma run_end_seal: "run_all end_seal (L, s) ps = map_option (map_prod id (Pair L)) (run_all (seal_msg L) s ps)"
  by (induction ps arbitrary: s) (auto simp: bind_eq_Some_conv split: Option.bind_splits)

lemma run_end_unseal: "run_all end_unseal (L, r) cs = map_option (map_prod id (Pair L)) (run_all (unseal_msg L) r cs)"
  by (induction cs arbitrary: r) (auto simp: bind_eq_Some_conv split: Option.bind_splits)

lemma channel_deliver_all:
  assumes "aead_ok L" "in_sync s r" "\<forall>p \<in> set ps. length p < 2 ^ 16"
  shows "\<exists>cs s' r'. run_all (seal_msg L) s ps = Some (cs, s') \<and>
    run_all (unseal_msg L) r cs = Some (ps, r') \<and> in_sync s' r'"
  using msgs.deliver_all [of "(L, s)" "(L, r)" ps] assms
  by (auto simp: run_end_seal run_end_unseal)

section \<open>The key schedule\<close>

text \<open>
  Keys change every 500 messages: \<open>bolt8_epoch L k ck i\<close> are the chaining key and the key
  after \<open>i\<close> rotations.
\<close>

fun bolt8_epoch :: "bytes \<Rightarrow> bytes \<Rightarrow> nat \<Rightarrow> bytes \<times> bytes" where
  "bolt8_epoch ck k 0 = (ck, k)"
| "bolt8_epoch ck k (Suc i) = (case bolt8_epoch ck k i of (ck, k) \<Rightarrow> bolt8_hkdf ck k)"

definition bolt8_chan_at :: "bytes \<Rightarrow> bytes \<Rightarrow> nat \<Rightarrow> bolt8_chan" where
  "bolt8_chan_at ck k i =
     (case bolt8_epoch ck k (i div 500) of (ck, k) \<Rightarrow> \<lparr>ch_k = k, ch_ck = ck, ch_n = 2 * (i mod 500)\<rparr>)"

lemma bolt8_encrypt_at:
  "snd (bolt8_encrypt L (bolt8_chan_at ck k i) p) = bolt8_chan_at ck k (Suc i)"
proof (cases "i mod 500 = 499")
  case True
  then have "Suc i mod 500 = 0" "Suc i div 500 = Suc (i div 500)" by (simp_all add: mod_Suc div_Suc)
  then show ?thesis using True
    by (auto simp: bolt8_encrypt_def bolt8_chan_at_def bolt8_rotate_def Let_def split: prod.splits)
next
  case False
  then have "Suc i mod 500 = Suc (i mod 500)" "Suc i div 500 = i div 500" by (simp_all add: mod_Suc div_Suc)
  moreover have "i mod 500 < 500" by simp
  ultimately show ?thesis using False
    by (auto simp: bolt8_encrypt_def bolt8_chan_at_def bolt8_rotate_def Let_def split: prod.splits)
qed

lemma bolt8_epoch_lengths:
  "length ck = 32 \<Longrightarrow> length k = 32 \<Longrightarrow> bolt8_epoch ck k i = (ck', k') \<Longrightarrow> length ck' = 32 \<and> length k' = 32"
  by (induction i arbitrary: ck' k') (auto split: prod.splits dest: length_bolt8_hkdf)

lemma bolt8_chan_at_ok: "length ck = 32 \<Longrightarrow> length k = 32 \<Longrightarrow> chan_ok (bolt8_chan_at ck k i)"
  by (auto simp: bolt8_chan_at_def chan_ok_def split: prod.splits dest: bolt8_epoch_lengths)

text \<open>What the code sends: the packets of the specification, in order, with the scheduled keys.\<close>

lemma seal_all_transcript:
  assumes "aead_ok L" "length ck = 32" "length k = 32"
  shows "send_chan cs = bolt8_chan_at ck k i \<Longrightarrow>
    \<exists>cs'. run_all (seal_msg L) cs ps =
        Some (map (\<lambda>j. fst (bolt8_encrypt L (bolt8_chan_at ck k (i + j)) (ps ! j))) [0..<length ps], cs') \<and>
      send_chan cs' = bolt8_chan_at ck k (i + length ps) \<and> recv_chan cs' = recv_chan cs"
proof (induction ps arbitrary: cs i)
  case Nil
  then show ?case by simp
next
  case (Cons p ps)
  let ?ch = "bolt8_chan_at ck k i"
  have ok: "chan_ok (send_chan cs)" using Cons.prems assms bolt8_chan_at_ok by simp
  let ?packet = "fst (bolt8_encrypt L ?ch p)" and ?ch' = "bolt8_chan_at ck k (Suc i)"
  let ?cs = "cs\<lparr>cs_sn := of_nat (ch_n ?ch'), cs_sk := ch_k ?ch', cs_s_ck := ch_ck ?ch'\<rparr>"
  have "bolt8_encrypt L (send_chan cs) p = (?packet, ?ch')"
    using bolt8_encrypt_at [of L ck k i p] Cons.prems by (metis prod.collapse)
  from seal_msg_eq [OF assms(1) ok this]
  have seal: "seal_msg L cs p = Some (?packet, ?cs)" .
  have "send_chan ?cs = ?ch'" using assms bolt8_chan_at_ok by simp
  from Cons.IH [OF this] obtain cs' where cs':
    "run_all (seal_msg L) ?cs ps =
       Some (map (\<lambda>j. fst (bolt8_encrypt L (bolt8_chan_at ck k (Suc i + j)) (ps ! j))) [0..<length ps], cs')"
    "send_chan cs' = bolt8_chan_at ck k (Suc i + length ps)" "recv_chan cs' = recv_chan ?cs" by blast
  have "map (\<lambda>j. fst (bolt8_encrypt L (bolt8_chan_at ck k (i + j)) ((p # ps) ! j))) [0..<length (p # ps)] =
      ?packet # map (\<lambda>j. fst (bolt8_encrypt L (bolt8_chan_at ck k (Suc i + j)) (ps ! j))) [0..<length ps]"
    by (simp add: upt_conv_Cons o_def del: upt_Suc flip: map_Suc_upt)
  moreover have "recv_chan ?cs = recv_chan cs" by (simp add: recv_chan_def)
  ultimately show ?case using seal cs' by (intro exI [of _ cs']) simp
qed

section \<open>Failures\<close>

lemma decrypt_header_fails:
  assumes "\<not> fst (aead_dec L (cs_rk cs) (bolt8_nonce (unat (cs_rn cs))) [] hdr)"
  shows "cryptomsg_decrypt_header L cs hdr = Some (None, cs\<lparr>cs_rn := cs_rn cs + 1\<rparr>)"
  using assms by (simp add: cryptomsg_decrypt_header_def Let_def le64_nonce_eq case_prod_beta)

lemma decrypt_body_fails:
  assumes "16 \<le> inlen" "inlen < 2 ^ 31" "inlen - 16 \<le> outcap"
    and "aead_dec L (cs_rk cs) (bolt8_nonce (unat (cs_rn cs))) [] (mread m inp inlen) = (False, junk)"
  shows "cryptomsg_decrypt_body L cs inp inlen out outcap m =
    Some (False, cs\<lparr>cs_rn := cs_rn cs + 1\<rparr>, mwrite m out junk)"
  using assms decrypt_size_small [of "inlen - 16"]
  by (simp add: cryptomsg_decrypt_body_def Let_def le64_nonce_eq)

section \<open>An example library\<close>

text \<open>A trivial cipher with a checksum as its tag: it meets \<open>aead_ok\<close>, and rejects some inputs.\<close>

definition example_tag :: "bytes \<Rightarrow> bytes \<Rightarrow> bytes \<Rightarrow> bytes \<Rightarrow> bytes" where
  "example_tag k n ad p = replicate 16 (foldr (+) (k @ n @ ad @ p) 0)"

definition example_aead :: aead where
  "example_aead = \<lparr>lib_host = \<lparr>host_order = Little_Endian, host_aligned = True\<rparr>,
     aead_enc = (\<lambda>k n ad p. (True, p @ example_tag k n ad p)),
     aead_dec = (\<lambda>k n ad c.
       let p = take (length c - 16) c
       in (16 \<le> length c \<and> drop (length c - 16) c = example_tag k n ad p, p))\<rparr>"

lemma example_aead_ok: "aead_ok example_aead"
  by (auto simp: aead_ok_def example_aead_def example_tag_def Let_def)

definition example_state :: crypto_state where
  "example_state = \<lparr>cs_rn = 0, cs_sn = 0, cs_sk = replicate 32 1, cs_rk = replicate 32 2,
     cs_s_ck = replicate 32 3, cs_r_ck = replicate 32 3\<rparr>"

definition example_peer :: crypto_state where
  "example_peer = \<lparr>cs_rn = 0, cs_sn = 0, cs_sk = replicate 32 2, cs_rk = replicate 32 1,
     cs_s_ck = replicate 32 3, cs_r_ck = replicate 32 3\<rparr>"

lemma example_sync: "in_sync example_state example_peer" "in_sync example_peer example_state"
  by (simp_all add: in_sync_def send_chan_def recv_chan_def example_state_def example_peer_def chan_ok_def)

section \<open>Properties\<close>

text \<open>C8: Whatever sequence of messages (each below 65536 bytes) one end encrypts, of any number and so
  across any number of key rotations, the other end, started in the matching state, decrypts to
  the same sequence, and both ends stay synchronised. No assertion of the code fails.\<close>

theorem messages_delivered:
  assumes "aead_ok L" "in_sync s r" "\<forall>p \<in> set ps. length p < 2 ^ 16"
  shows "\<exists>cs s' r'. run_all (seal_msg L) s ps = Some (cs, s') \<and>
    run_all (unseal_msg L) r cs = Some (ps, r') \<and> in_sync s' r'"
  using assms by (rule channel_deliver_all)

theorem messages_delivered_witness:
  "\<exists>cs s' r'. run_all (seal_msg example_aead) example_state (replicate 1200 [1, 2, 3]) = Some (cs, s') \<and>
    run_all (unseal_msg example_aead) example_peer cs = Some (replicate 1200 [1, 2, 3], r') \<and> in_sync s' r'"
  by (rule messages_delivered [OF example_aead_ok example_sync(1)]) simp

text \<open>C9: The key schedule of BOLT 8: message \<open>j\<close> sent with \<open>cryptomsg_encrypt_msg\<close> after the handshake is the
  specification's packet, its length encrypted with nonce \<open>2 * (j mod 500)\<close> and its body with the
  next one, under the key obtained by \<open>j div 500\<close> rotations; so no key is used with the same nonce
  twice and no key more than 1000 times. Sending leaves the receiving direction alone.\<close>

theorem sending_follows_key_schedule:
  assumes "aead_ok L" "chan_ok (send_chan cs)" "cs_sn cs = 0"
  shows "\<exists>cs'. run_all (seal_msg L) cs ps =
      Some (map (\<lambda>j. fst (bolt8_encrypt L
          (case bolt8_epoch (cs_s_ck cs) (cs_sk cs) (j div 500) of
             (ck, k) \<Rightarrow> \<lparr>ch_k = k, ch_ck = ck, ch_n = 2 * (j mod 500)\<rparr>) (ps ! j))) [0..<length ps], cs') \<and>
    unat (cs_sn cs') = 2 * (length ps mod 500) \<and>
    (cs_s_ck cs', cs_sk cs') = bolt8_epoch (cs_s_ck cs) (cs_sk cs) (length ps div 500) \<and>
    recv_chan cs' = recv_chan cs"
proof -
  have len: "length (cs_s_ck cs) = 32" "length (cs_sk cs) = 32"
    using assms(2) by (simp_all add: chan_ok_def send_chan_def)
  have "send_chan cs = bolt8_chan_at (cs_s_ck cs) (cs_sk cs) 0"
    using assms(3) by (simp add: send_chan_def bolt8_chan_at_def)
  from seal_all_transcript [OF assms(1) len this, of ps] obtain cs' where
    "run_all (seal_msg L) cs ps = Some (map (\<lambda>j. fst (bolt8_encrypt L
        (bolt8_chan_at (cs_s_ck cs) (cs_sk cs) (0 + j)) (ps ! j))) [0..<length ps], cs')"
    "send_chan cs' = bolt8_chan_at (cs_s_ck cs) (cs_sk cs) (0 + length ps)" "recv_chan cs' = recv_chan cs" by blast
  then show ?thesis
    by (auto simp: bolt8_chan_at_def send_chan_def split: prod.splits)
qed

theorem sending_follows_key_schedule_witness:
  "\<exists>cs'. run_all (seal_msg example_aead) example_state (replicate 501 [7]) =
      Some (map (\<lambda>j. fst (bolt8_encrypt example_aead
          (case bolt8_epoch (cs_s_ck example_state) (cs_sk example_state) (j div 500) of
             (ck, k) \<Rightarrow> \<lparr>ch_k = k, ch_ck = ck, ch_n = 2 * (j mod 500)\<rparr>) (replicate 501 [7] ! j)))
        [0..<length (replicate 501 [7 :: u8])], cs') \<and>
    unat (cs_sn cs') = 2 * (length (replicate 501 [7 :: u8]) mod 500) \<and>
    (cs_s_ck cs', cs_sk cs') =
      bolt8_epoch (cs_s_ck example_state) (cs_sk example_state) (length (replicate 501 [7 :: u8]) div 500) \<and>
    recv_chan cs' = recv_chan example_state"
  by (rule sending_follows_key_schedule [OF example_aead_ok])
     (simp_all add: example_state_def send_chan_def chan_ok_def)

text \<open>C30: \<open>cryptomsg_encrypt_msg\<close> in memory: when the output does not overwrite the message, it writes exactly
  the specification's packet, \<open>mlen + 34\<close> bytes at \<open>out\<close>, changes nothing else in memory, and moves
  the sending state to the specification's next one. The capacity it checks is \<open>mlen\<close> only, so
  with \<open>outcap = mlen\<close> it writes 34 bytes past the end. (Of the outputs before the message, libsodium
  documents the one that starts 18 bytes before it and those that end before it.)\<close>

theorem encrypt_msg_in_memory:
  assumes "aead_ok L" "chan_ok (send_chan cs)" "mlen \<le> outcap" "msg + mlen \<le> out \<or> out + 18 \<le> msg"
  shows "\<exists>cs' m'. cryptomsg_encrypt_msg L cs msg mlen out outcap m = Some (Some out, mlen + 34, cs', m') \<and>
    (mread m' out (mlen + 34), send_chan cs') = bolt8_encrypt L (send_chan cs) (mread m msg mlen) \<and>
    recv_chan cs' = recv_chan cs \<and>
    (\<forall>a. a < out \<or> out + mlen + 34 \<le> a \<longrightarrow> m' a = m a)"
proof -
  obtain packet ch where e: "bolt8_encrypt L (send_chan cs) (mread m msg mlen) = (packet, ch)"
    by (cases "bolt8_encrypt L (send_chan cs) (mread m msg mlen)")
  have len: "length packet = mlen + 34" using length_bolt8_packet [OF assms(1,2), of "mread m msg mlen"] e by simp
  have "chan_ok ch" using bolt8_encrypt_ok [OF assms(2), of L "mread m msg mlen"] e by simp
  then show ?thesis
    using encrypt_msg_refines [OF assms e] e len by (simp add: mwrite_outside recv_chan_def)
qed

theorem encrypt_msg_in_memory_witness:
  "\<exists>cs' m'. cryptomsg_encrypt_msg example_aead example_state 0 3 100 3 (\<lambda>_. 5) = Some (Some 100, 3 + 34, cs', m') \<and>
    (mread m' 100 (3 + 34), send_chan cs') = bolt8_encrypt example_aead (send_chan example_state) (mread (\<lambda>_. 5) 0 3) \<and>
    recv_chan cs' = recv_chan example_state \<and>
    (\<forall>a. a < 100 \<or> 100 + 3 + 34 \<le> a \<longrightarrow> m' a = (\<lambda>_. 5) a)"
  by (rule encrypt_msg_in_memory [OF example_aead_ok]) (simp_all add: example_state_def send_chan_def chan_ok_def)

text \<open>A header that does not authenticate returns 0 and gives no length, but the nonce is spent: the
  channel has left the matching state, and nothing else has changed.\<close>

theorem decrypt_header_rejects:
  assumes "\<not> fst (aead_dec L (cs_rk cs) (bolt8_nonce (unat (cs_rn cs))) [] hdr)" "in_sync s cs"
  shows "cryptomsg_decrypt_header L cs hdr = Some (None, cs\<lparr>cs_rn := cs_rn cs + 1\<rparr>) \<and>
    \<not> in_sync s (cs\<lparr>cs_rn := cs_rn cs + 1\<rparr>)"
proof -
  have n: "unat (cs_sn s) < 1000" "unat (cs_rn cs) = unat (cs_sn s)"
    using assms(2) by (simp_all add: in_sync_def chan_ok_def send_chan_def recv_chan_def)
  then have "unat (cs_rn cs + 1) = unat (cs_sn s) + 1" using unat_plus_small [of "cs_rn cs"] by simp
  then have "\<not> in_sync s (cs\<lparr>cs_rn := cs_rn cs + 1\<rparr>)" by (simp add: in_sync_def send_chan_def recv_chan_def)
  with decrypt_header_fails [OF assms(1)] show ?thesis by blast
qed

theorem decrypt_header_rejects_witness:
  "cryptomsg_decrypt_header example_aead example_peer (replicate 18 0) =
     Some (None, example_peer\<lparr>cs_rn := cs_rn example_peer + 1\<rparr>) \<and>
   \<not> in_sync example_state (example_peer\<lparr>cs_rn := cs_rn example_peer + 1\<rparr>)"
proof (rule decrypt_header_rejects [OF _ example_sync(1)])
  have "\<not> fst (aead_dec example_aead (replicate 32 1) (bolt8_nonce 0) [] (replicate 18 0))" by code_simp
  then show "\<not> fst (aead_dec example_aead (cs_rk example_peer) (bolt8_nonce (unat (cs_rn example_peer))) [] (replicate 18 0))"
    by (simp add: example_peer_def)
qed

end
