(* ===== verification/Errors.thy ===== *)
theory Errors
  imports Cursor
begin

text \<open>
  \<open>error.c\<close> and \<open>error.h\<close>: the log of error messages, NUL-terminated strings pushed on a cursor
  of their own, and its printing. A message is given already formatted; the \<open>static char buf[512]\<close>
  it is formatted into overflows, a crash of the model, when it does not fit with its
  terminator. The abstract view is the list of the messages that found room.
\<close>

record errors =
  e_cur :: cursor
  e_enabled :: bool

definition cursor_push_error :: "cursor \<Rightarrow> bytes \<Rightarrow> mem \<Rightarrow> (bool \<times> cursor \<times> mem) option" where
  "cursor_push_error cur msg m = cursor_push_c_str cur msg m"

definition cursor_pull_error :: "cursor \<Rightarrow> mem \<Rightarrow> bool \<times> addr \<times> cursor" where
  "cursor_pull_error cur m = cursor_pull_c_str cur m"

text \<open>
  \<open>note_error_fmt\<close> (\<open>note_error_\<close> in the code) always returns 0, so its result is the state only. A message the arena has no
  room for is reported on \<open>stderr\<close> and lost.
\<close>

definition note_error_fmt :: "errors \<Rightarrow> bytes \<Rightarrow> mem \<Rightarrow> (errors \<times> mem) option" where
  "note_error_fmt errs msg m =
     (if \<not> e_enabled errs then Some (errs, m)
      else if length msg + 1 > 512 then None
      else case cursor_push_error (e_cur errs) msg m of
        None \<Rightarrow> None
      | Some (ok, c, m) \<Rightarrow> Some (errs\<lparr>e_cur := c\<rparr>, m))"

text \<open>Decimal digits, as \<open>%d\<close> and \<open>%ld\<close> print them.\<close>

fun dec_nat :: "nat \<Rightarrow> bytes" where
  "dec_nat n =
     (if n < 10 then [48 + of_nat n] else dec_nat (n div 10) @ [48 + of_nat (n mod 10)])"

declare dec_nat.simps [simp del]

definition dec_int :: "int \<Rightarrow> bytes" where
  "dec_int i = (if i < 0 then 45 # dec_nat (nat (- i)) else dec_nat (nat i))"

text \<open>
  The macro \<open>note_error\<close> puts \<open>__FUNCTION__:__FILE__:__LINE__:\<close> and a space before the
  message; \<open>src\<close> is that function, file and line.
\<close>

definition note_error :: "errors \<Rightarrow> string \<times> string \<times> nat \<Rightarrow> bytes \<Rightarrow> mem \<Rightarrow> (errors \<times> mem) option" where
  "note_error errs src msg m =
     (case src of (fn, file, line) \<Rightarrow>
        note_error_fmt errs (ascii fn @ ascii '':'' @ ascii file @ ascii '':'' @ dec_nat line
          @ ascii '': '' @ msg) m)"

text \<open>
  The loop of \<open>print_error_backtrace\<close> and the bytes it prints on \<open>stderr\<close>: every string up to
  its terminator, and a newline (10).
\<close>

lemma scan_nul_advances: "scan_nul m a e = (ok, a') \<Longrightarrow> a \<le> a' \<and> (ok \<longrightarrow> a < a')"
proof (induction m a e rule: scan_nul.induct)
  case (1 m a e)
  then show ?case by (subst (asm) (2) scan_nul.simps) (force split: if_splits)
qed

lemma cursor_pull_error_advances:
  "cursor_pull_error c m = (True, a, c') \<Longrightarrow> c_p c < c_p c'"
  using scan_nul_advances
  by (fastforce simp: cursor_pull_error_def cursor_pull_c_str_def split: prod.splits)

function print_errors_loop :: "mem \<Rightarrow> cursor \<Rightarrow> addr \<Rightarrow> bytes" where
  "print_errors_loop m errs limit =
     (if c_p errs < limit then
        (case cursor_pull_error errs m of
           (False, _, _) \<Rightarrow> ascii ''backtrace: couldn't pull error'' @ [10]
         | (True, a, errs) \<Rightarrow>
             mread m a (c_p errs - 1 - a) @ [10] @ print_errors_loop m errs limit)
      else [])"
  by pat_completeness auto
termination
  by (relation "measure (\<lambda>(m, errs, limit). limit - c_p errs)")
     (auto dest!: cursor_pull_error_advances [OF sym])

declare print_errors_loop.simps [simp del]

definition print_error_backtrace :: "errors \<Rightarrow> mem \<Rightarrow> bytes" where
  "print_error_backtrace errors m =
     (let errs = copy_cursor (e_cur errors)
      in print_errors_loop m (errs\<lparr>c_p := c_start errs\<rparr>) (c_p (e_cur errors)))"

section \<open>The log as a list of messages\<close>

definition log_bytes :: "bytes list \<Rightarrow> bytes" where
  "log_bytes msgs = concat (map (\<lambda>x. x @ [0]) msgs)"

definition log_holds :: "cursor \<Rightarrow> mem \<Rightarrow> bytes list \<Rightarrow> bool" where
  "log_holds c m msgs \<longleftrightarrow> cursor_ok c \<and> cursor_content (c, m) = log_bytes msgs \<and>
     (\<forall>x \<in> set msgs. 0 \<notin> set x)"

text \<open>Which of the messages find room, first come first served.\<close>

fun noted :: "nat \<Rightarrow> bytes list \<Rightarrow> bytes list" where
  "noted room [] = []"
| "noted room (x # xs) =
     (if length x < room then x # noted (room - length x - 1) xs else noted room xs)"

fun note_all :: "errors \<Rightarrow> bytes list \<Rightarrow> mem \<Rightarrow> (errors \<times> mem) option" where
  "note_all errs [] m = Some (errs, m)"
| "note_all errs (x # xs) m =
     (case note_error_fmt errs x m of None \<Rightarrow> None | Some (errs, m) \<Rightarrow> note_all errs xs m)"

lemma log_bytes_snoc: "log_bytes (msgs @ [x]) = log_bytes msgs @ x @ [0]"
  by (simp add: log_bytes_def)

lemma cursor_push_c_str_eq:
  assumes "cursor_ok c" "length str < 2 ^ 31"
  shows "cursor_push_c_str c str m =
    (if c_p c + length str < c_end c
     then Some (True, c\<lparr>c_p := c_p c + length str + 1\<rparr>, mwrite m (c_p c) (str @ [0]))
     else Some (False, c, m))"
  using assms
  by (simp add: cursor_push_c_str_def cursor_push_str_def cursor_push_eq cursor_push_byte_def
      mwrite_mwrite_append)

lemma note_error_holds:
  assumes "e_enabled errs" "length x < 512" "0 \<notin> set x" "log_holds (e_cur errs) m msgs"
  shows "\<exists>c m'. note_error_fmt errs x m = Some (errs\<lparr>e_cur := c\<rparr>, m') \<and>
    c_start c = c_start (e_cur errs) \<and> c_end c = c_end (e_cur errs) \<and>
    log_holds c m' (if length x < c_end (e_cur errs) - c_p (e_cur errs) then msgs @ [x] else msgs) \<and>
    c_p c = c_p (e_cur errs) +
      (if length x < c_end (e_cur errs) - c_p (e_cur errs) then length x + 1 else 0)"
proof -
  let ?c = "e_cur errs"
  have ok: "cursor_ok ?c" using assms(4) by (simp add: log_holds_def)
  have len: "length x < 2 ^ 31" using assms(2) by simp
  have fits: "c_p ?c + length x < c_end ?c \<longleftrightarrow> length x < c_end ?c - c_p ?c" by linarith
  have push: "cursor_push_error ?c x m =
      (if length x < c_end ?c - c_p ?c
       then Some (True, ?c\<lparr>c_p := c_p ?c + length (x @ [0])\<rparr>, mwrite m (c_p ?c) (x @ [0]))
       else Some (False, ?c, m))"
    unfolding cursor_push_error_def cursor_push_c_str_eq [OF ok len] fits by simp
  show ?thesis
  proof (cases "length x < c_end ?c - c_p ?c")
    case True
    let ?c' = "?c\<lparr>c_p := c_p ?c + length (x @ [0])\<rparr>" and ?m' = "mwrite m (c_p ?c) (x @ [0])"
    have "cursor_content (?c', ?m') = log_bytes (msgs @ [x])"
      using assms(4) cursor_content_write [OF ok, of "x @ [0]" m]
      by (simp add: log_holds_def log_bytes_snoc del: cursor_content.simps)
    moreover have "cursor_ok ?c'" using ok True by (auto simp: cursor_ok_def)
    ultimately have "log_holds ?c' ?m' (msgs @ [x])"
      using assms(3,4) by (auto simp: log_holds_def simp del: cursor_content.simps)
    moreover have "note_error_fmt errs x m = Some (errs\<lparr>e_cur := ?c'\<rparr>, ?m')"
      using True assms(1,2) by (simp add: note_error_fmt_def push)
    ultimately show ?thesis using True by (intro exI [of _ ?c'] exI [of _ ?m']) simp
  next
    case False
    then have "note_error_fmt errs x m = Some (errs\<lparr>e_cur := ?c\<rparr>, m)"
      using assms(1,2) by (simp add: note_error_fmt_def push)
    then show ?thesis using False assms(4) by (intro exI [of _ ?c] exI [of _ m]) simp
  qed
qed

lemma note_all_holds:
  assumes "e_enabled errs" "\<forall>x \<in> set xs. length x < 512 \<and> 0 \<notin> set x" "log_holds (e_cur errs) m msgs"
  shows "\<exists>c m'. note_all errs xs m = Some (errs\<lparr>e_cur := c\<rparr>, m') \<and>
    log_holds c m' (msgs @ noted (c_end (e_cur errs) - c_p (e_cur errs)) xs)"
  using assms
proof (induction xs arbitrary: errs m msgs)
  case Nil
  then show ?case by (intro exI [of _ "e_cur errs"] exI [of _ m]) simp
next
  case (Cons x xs)
  let ?room = "c_end (e_cur errs) - c_p (e_cur errs)"
  have x: "length x < 512" "0 \<notin> set x" using Cons.prems(2) by simp_all
  obtain c m1 where n: "note_error_fmt errs x m = Some (errs\<lparr>e_cur := c\<rparr>, m1)"
    and hold: "log_holds c m1 (if length x < ?room then msgs @ [x] else msgs)"
    and room: "c_end c - c_p c = (if length x < ?room then ?room - length x - 1 else ?room)"
    using note_error_holds [OF Cons.prems(1) x Cons.prems(3)] by auto
  obtain c' m' where "note_all (errs\<lparr>e_cur := c\<rparr>) xs m1 = Some (errs\<lparr>e_cur := c'\<rparr>, m')"
    and "log_holds c' m' ((if length x < ?room then msgs @ [x] else msgs) @ noted (c_end c - c_p c) xs)"
    using Cons.IH [of "errs\<lparr>e_cur := c\<rparr>" m1 "if length x < ?room then msgs @ [x] else msgs"]
      Cons.prems(1,2) hold by auto
  moreover have "(if length x < ?room then msgs @ [x] else msgs) @ noted (c_end c - c_p c) xs =
      msgs @ noted ?room (x # xs)"
    unfolding room by (cases "length x < ?room") simp_all
  ultimately show ?case using n by (intro exI [of _ c'] exI [of _ m']) simp
qed

lemma scan_nul_string:
  "0 \<notin> set x \<Longrightarrow> mread m a (length x + 1) = x @ [0] \<Longrightarrow> a + length x < e \<Longrightarrow>
   scan_nul m a e = (True, a + length x + 1)"
proof (induction x arbitrary: a)
  case Nil
  then show ?case by (simp add: scan_nul.simps mread_Suc)
next
  case (Cons b x)
  then have "m a = b" "mread m (Suc a) (length x + 1) = x @ [0]" by (simp_all add: mread_Suc)
  then show ?case using Cons by (subst scan_nul.simps) simp
qed

lemma print_errors_loop_log:
  "\<forall>x \<in> set msgs. 0 \<notin> set x \<Longrightarrow> mread m (c_p c) (length (log_bytes msgs)) = log_bytes msgs \<Longrightarrow>
   c_p c + length (log_bytes msgs) = limit \<Longrightarrow> limit \<le> c_end c \<Longrightarrow>
   print_errors_loop m c limit = concat (map (\<lambda>x. x @ [10]) msgs)"
proof (induction msgs arbitrary: c)
  case Nil
  then show ?case by (simp add: print_errors_loop.simps [of m c] log_bytes_def)
next
  case (Cons x msgs)
  have lb: "log_bytes (x # msgs) = (x @ [0]) @ log_bytes msgs" by (simp add: log_bytes_def)
  have len: "length (log_bytes (x # msgs)) = length x + 1 + length (log_bytes msgs)" by (simp add: lb)
  have "mread m (c_p c) (length x + 1) @ mread m (c_p c + (length x + 1)) (length (log_bytes msgs)) =
      (x @ [0]) @ log_bytes msgs"
    using Cons.prems(2) unfolding len mread_add [of m "c_p c" "length x + 1"] unfolding lb .
  moreover have "length (mread m (c_p c) (length x + 1)) = length (x @ [0])" by simp
  ultimately have r: "mread m (c_p c) (length x + 1) = x @ [0]"
    "mread m (c_p c + (length x + 1)) (length (log_bytes msgs)) = log_bytes msgs"
    by (metis append_eq_append_conv)+
  then have x: "mread m (c_p c) (length x) = x"
    using take_mread [of "length x" m "c_p c" "length x + 1"] by simp
  have "scan_nul m (c_p c) (c_end c) = (True, c_p c + length x + 1)"
    by (rule scan_nul_string) (use Cons.prems r len in auto)
  then have pull: "cursor_pull_error c m = (True, c_p c, c\<lparr>c_p := c_p c + length x + 1\<rparr>)"
    by (simp add: cursor_pull_error_def cursor_pull_c_str_def)
  have "print_errors_loop m (c\<lparr>c_p := c_p c + length x + 1\<rparr>) limit = concat (map (\<lambda>x. x @ [10]) msgs)"
    by (rule Cons.IH) (use Cons.prems r(2) len in \<open>simp_all add: add.assoc\<close>)
  then show ?case using pull x Cons.prems(3) len
    by (simp add: print_errors_loop.simps [of m c])
qed

lemma print_error_backtrace_log:
  assumes "log_holds (e_cur errs) m msgs"
  shows "print_error_backtrace errs m = concat (map (\<lambda>x. x @ [10]) msgs)"
proof -
  let ?c = "e_cur errs"
  have ok: "c_start ?c \<le> c_p ?c" "c_p ?c \<le> c_end ?c"
    and content: "mread m (c_start ?c) (c_p ?c - c_start ?c) = log_bytes msgs"
    and nul: "\<forall>x \<in> set msgs. 0 \<notin> set x"
    using assms by (auto simp: log_holds_def cursor_ok_def)
  have len: "length (log_bytes msgs) = c_p ?c - c_start ?c"
    using arg_cong [OF content, of length] by simp
  show ?thesis unfolding print_error_backtrace_def Let_def
    by (rule print_errors_loop_log) (use ok content nul len in \<open>simp_all add: copy_cursor_def\<close>)
qed

lemma log_holds_empty: "cursor_ok c \<Longrightarrow> log_holds (reset_cursor c) m []"
  by (simp add: log_holds_def log_bytes_def reset_cursor_def cursor_ok_def)

section \<open>Properties\<close>

text \<open>C39: The error log: after any messages (shorter than 512 bytes) are noted on an emptied log, nothing
  has crashed and \<open>print_error_backtrace\<close> prints, each on a line and in order, exactly those that
  found room when they came; the others are lost without damage to the rest.\<close>

theorem error_log_round_trip:
  assumes "e_enabled errs" "cursor_ok (e_cur errs)"
    and "\<forall>x \<in> set msgs. length x < 512 \<and> 0 \<notin> set x"
  shows "\<exists>errs' m'. note_all (errs\<lparr>e_cur := reset_cursor (e_cur errs)\<rparr>) msgs m = Some (errs', m') \<and>
    print_error_backtrace errs' m' =
      concat (map (\<lambda>x. x @ [10]) (noted (c_end (e_cur errs) - c_start (e_cur errs)) msgs))"
proof -
  let ?e = "errs\<lparr>e_cur := reset_cursor (e_cur errs)\<rparr>"
  have "log_holds (e_cur ?e) m []" using log_holds_empty [OF assms(2), of m] by simp
  moreover have "e_enabled ?e" using assms(1) by simp
  ultimately obtain c m' where n: "note_all ?e msgs m = Some (?e\<lparr>e_cur := c\<rparr>, m')"
      "log_holds c m' ([] @ noted (c_end (e_cur ?e) - c_p (e_cur ?e)) msgs)"
    using note_all_holds [of ?e msgs m "[]"] assms(3) by blast
  then have "print_error_backtrace (?e\<lparr>e_cur := c\<rparr>) m' =
      concat (map (\<lambda>x. x @ [10]) (noted (c_end (e_cur ?e) - c_p (e_cur ?e)) msgs))"
    using print_error_backtrace_log [of "?e\<lparr>e_cur := c\<rparr>" m'] by simp
  then show ?thesis using n(1) by (simp add: reset_cursor_def)
qed

theorem error_log_round_trip_witness:
  "\<exists>errs' m'. note_all (\<lparr>e_cur = make_cursor 10 20, e_enabled = True\<rparr>\<lparr>e_cur := reset_cursor (make_cursor 10 20)\<rparr>)
      [[1, 2], replicate 20 7, [3]] (\<lambda>_. 0) = Some (errs', m') \<and>
    print_error_backtrace errs' m' =
      concat (map (\<lambda>x. x @ [10]) (noted (c_end (make_cursor 10 20) - c_start (make_cursor 10 20))
        [[1, 2], replicate 20 7, [3]]))"
  using error_log_round_trip [of "\<lparr>e_cur = make_cursor 10 20, e_enabled = True\<rparr>" "[[1, 2], replicate 20 7, [3]]" "\<lambda>_. 0"]
  by (simp add: make_cursor_def reset_cursor_def cursor_ok_def)

end
