(* ===== verification/Peer_State.thy ===== *)
theory Peer_State
  imports Crypto Errors
begin

text \<open>
  The state of a connection, \<open>struct lnsocket\<close> with the structures of \<open>handshake.h\<close> inside it,
  and the library functions the handshake is built on. libsecp256k1 is a parameter like the
  AEAD: the record \<open>lib\<close> extends \<open>aead\<close>, and \<open>secp_ok\<close> is what the code relies on.
\<close>

section \<open>libsecp256k1\<close>

text \<open>
  Each function gives whether it returned a true value, and what it wrote to its output.
  A public key is the 64 opaque bytes of \<open>secp256k1_pubkey\<close>.
\<close>

record lib = aead +
  pubkey_create :: "bytes \<Rightarrow> bool \<times> bytes"
  pubkey_parse :: "bytes \<Rightarrow> bool \<times> bytes"
  pubkey_serialize :: "bytes \<Rightarrow> bytes"
  ecdh :: "bytes \<Rightarrow> bytes \<Rightarrow> bool \<times> bytes"

text \<open>
  Documented behaviour: the compressed form has 33 bytes and parses back to the key, the secret
  written has 32 bytes, and two key pairs agree on it.
\<close>

definition secp_ok :: "'a lib_scheme \<Rightarrow> bool" where
  "secp_ok L \<longleftrightarrow>
     (\<forall>p. length (pubkey_serialize L p) = 33) \<and>
     (\<forall>p d. length (snd (ecdh L p d)) = 32) \<and>
     (\<forall>d p. pubkey_create L d = (True, p) \<longrightarrow> pubkey_parse L (pubkey_serialize L p) = (True, p)) \<and>
     (\<forall>d1 p1 d2 p2. pubkey_create L d1 = (True, p1) \<longrightarrow> pubkey_create L d2 = (True, p2) \<longrightarrow>
        (\<exists>ss. ecdh L p2 d1 = (True, ss) \<and> ecdh L p1 d2 = (True, ss) \<and> length ss = 32))"

section \<open>Keys and handshake messages\<close>

record keypair =
  kp_pub :: bytes
  kp_priv :: bytes

datatype bolt8_side = INITIATOR | RESPONDER

record act_one =
  a1_v :: u8
  a1_pubkey :: bytes
  a1_tag :: bytes

record act_two =
  a2_v :: u8
  a2_pubkey :: bytes
  a2_tag :: bytes

record act_three =
  a3_v :: u8
  a3_ciphertext :: bytes
  a3_tag :: bytes

text \<open>The structures are arrays of bytes in a row, and are sent and received as such.\<close>

definition ACT_ONE_SIZE :: nat where "ACT_ONE_SIZE = 50"
definition ACT_TWO_SIZE :: nat where "ACT_TWO_SIZE = 50"
definition ACT_THREE_SIZE :: nat where "ACT_THREE_SIZE = 66"

definition act_one_bytes :: "act_one \<Rightarrow> bytes" where
  "act_one_bytes a = a1_v a # a1_pubkey a @ a1_tag a"

definition act_two_of_bytes :: "bytes \<Rightarrow> act_two" where
  "act_two_of_bytes bs =
     \<lparr>a2_v = bs ! 0, a2_pubkey = take 33 (drop 1 bs), a2_tag = take 16 (drop 34 bs)\<rparr>"

definition act_three_bytes :: "act_three \<Rightarrow> bytes" where
  "act_three_bytes a = a3_v a # a3_ciphertext a @ a3_tag a"

record handshake =
  hs_ck :: bytes
  hs_temp_k :: bytes
  hs_h :: bytes
  hs_e :: keypair
  hs_ss :: bytes
  hs_re :: bytes
  hs_act1 :: act_one
  hs_act2 :: act_two
  hs_act3 :: act_three
  hs_their_id :: bytes
  hs_side :: bolt8_side

section \<open>The connection\<close>

text \<open>
  \<open>struct lnsocket\<close>. Its \<open>errors\<close>, \<open>num_errors\<close> and \<open>responder_id\<close> are never read or written by
  the code, and \<open>secp\<close> is the library's own state.
\<close>

record lnsocket =
  ln_mem :: cursor
  ln_msgbuf :: cursor
  ln_errs :: errors
  ln_socket :: int
  ln_key :: keypair
  ln_handshake :: handshake
  ln_crypto_state :: crypto_state

text \<open>\<open>return note_error (&ln->errs, ...)\<close>, with the value returned left to the caller.\<close>

definition ln_note :: "lnsocket \<Rightarrow> string \<times> string \<times> nat \<Rightarrow> bytes \<Rightarrow> mem \<Rightarrow> (lnsocket \<times> mem) option" where
  "ln_note ln src msg m = do {
     (errs, m) \<leftarrow> note_error (ln_errs ln) src msg m;
     Some (ln\<lparr>ln_errs := errs\<rparr>, m) }"

lemma ln_note_keeps:
  assumes "ln_note ln src msg m = Some (ln', m')"
  shows "ln_crypto_state ln' = ln_crypto_state ln \<and> ln_handshake ln' = ln_handshake ln \<and>
    ln_key ln' = ln_key ln \<and> ln_socket ln' = ln_socket ln \<and> ln_msgbuf ln' = ln_msgbuf ln \<and>
    ln_mem ln' = ln_mem ln"
  using assms by (auto simp: ln_note_def bind_eq_Some_conv)

end
