(* ===== verification/Handshake.thy ===== *)
theory Handshake
  imports Peer_State
begin

text \<open>
  \<open>handshake.c\<close>: the initiator's side of the handshake of BOLT 8 up to the two structures it
  exchanges (the reads and writes are in \<open>Socket\<close>), and the proof that it agrees with a
  responder written from the specification: both ends derive the same keys.
\<close>

section \<open>Keys\<close>

text \<open>
  \<open>generate_key\<close> draws from the random source until a candidate is a valid secret key. The
  source is the list of the draws to come; the result is \<open>None\<close> when none of them is valid.
\<close>

fun generate_key :: "'a lib_scheme \<Rightarrow> bytes list \<Rightarrow> (keypair \<times> bytes list) option" where
  "generate_key L [] = None"
| "generate_key L (r # rs) =
     (case pubkey_create L r of
        (True, pub) \<Rightarrow> Some (\<lparr>kp_pub = pub, kp_priv = r\<rparr>, rs)
      | (False, _) \<Rightarrow> generate_key L rs)"

section \<open>Hashing and encryption\<close>

definition sha_mix_in :: "host \<Rightarrow> bytes \<Rightarrow> bytes \<Rightarrow> bytes option" where
  "sha_mix_in H h data = do {
     shactx \<leftarrow> sha256_update H sha256_init h;
     shactx \<leftarrow> sha256_update H shactx data;
     Some (fst (sha256_done H shactx)) }"

definition sha_mix_in_key :: "'a lib_scheme \<Rightarrow> bytes \<Rightarrow> bytes \<Rightarrow> bytes option" where
  "sha_mix_in_key L h key = do {
     let der = pubkey_serialize L key;
     c_assert (length der = 33);
     sha_mix_in (lib_host L) h der }"

definition encrypt_ad :: "'a aead_scheme \<Rightarrow> bytes \<Rightarrow> u64 \<Rightarrow> bytes \<Rightarrow> bytes \<Rightarrow> nat \<Rightarrow> bytes option" where
  "encrypt_ad L k nonce additional_data plaintext outputlen = do {
     c_assert (outputlen = length plaintext + 16);
     let npub = le64_nonce (lib_order L) nonce;
     let (ok, c) = aead_enc L k npub additional_data plaintext;
     c_assert ok;
     c_assert (length c = length plaintext + 16);
     Some c }"

text \<open>The inner \<open>None\<close> is the returned 0.\<close>

definition decrypt :: "'a aead_scheme \<Rightarrow> bytes \<Rightarrow> u64 \<Rightarrow> bytes \<Rightarrow> bytes \<Rightarrow> nat \<Rightarrow> bytes option option" where
  "decrypt L k nonce additional_data ciphertext outputlen = do {
     c_assert (int outputlen = int (length ciphertext) - 16);
     let npub = le64_nonce (lib_order L) nonce;
     let (ok, p) = aead_dec L k npub additional_data ciphertext;
     if \<not> ok then Some None
     else do {
       c_assert (int (length p) = int (length ciphertext) - 16);
       Some (Some p) } }"

section \<open>The three acts\<close>

definition new_handshake :: "'a lib_scheme \<Rightarrow> handshake \<Rightarrow> bytes \<Rightarrow> handshake option" where
  "new_handshake L hs responder_id = do {
     h \<leftarrow> sha256 (lib_host L) (ascii ''Noise_XK_secp256k1_ChaChaPoly_SHA256'');
     let hs = hs\<lparr>hs_h := h\<rparr>;
     let hs = hs\<lparr>hs_ck := hs_h hs\<rparr>;
     h \<leftarrow> sha_mix_in (lib_host L) (hs_h hs) (ascii ''lightning'');
     let hs = hs\<lparr>hs_h := h\<rparr>;
     h \<leftarrow> sha_mix_in_key L (hs_h hs) responder_id;
     Some (hs\<lparr>hs_h := h\<rparr>) }"

definition handshake_success :: "'a lib_scheme \<Rightarrow> lnsocket \<Rightarrow> handshake \<Rightarrow> lnsocket option" where
  "handshake_success L ln hs = do {
     let cs = ln_crypto_state ln;
     (k1, k2) \<leftarrow> hkdf_two_keys (lib_host L) (hs_ck hs) None;
     let cs = (if hs_side hs = RESPONDER then cs\<lparr>cs_rk := k1, cs_sk := k2\<rparr>
               else cs\<lparr>cs_sk := k1, cs_rk := k2\<rparr>);
     let cs = cs\<lparr>cs_rn := 0, cs_sn := 0\<rparr>;
     let cs = cs\<lparr>cs_r_ck := hs_ck hs, cs_s_ck := hs_ck hs\<rparr>;
     Some (ln\<lparr>ln_crypto_state := cs\<rparr>) }"

definition build_act_three ::
  "'a lib_scheme \<Rightarrow> lnsocket \<Rightarrow> mem \<Rightarrow> (act_three option \<times> lnsocket \<times> mem) option" where
  "build_act_three L ln m = do {
     let hs = ln_handshake ln;
     let spub = pubkey_serialize L (kp_pub (ln_key ln));
     c \<leftarrow> encrypt_ad L (hs_temp_k hs) 1 (hs_h hs) spub (33 + 16);
     let hs = hs\<lparr>hs_act3 := (hs_act3 hs)\<lparr>a3_ciphertext := c\<rparr>\<rparr>;
     h \<leftarrow> sha_mix_in (lib_host L) (hs_h hs) (a3_ciphertext (hs_act3 hs));
     let hs = hs\<lparr>hs_h := h\<rparr>;
     let (ok, ss) = ecdh L (hs_re hs) (kp_priv (ln_key ln));
     let hs = hs\<lparr>hs_ss := ss\<rparr>;
     if \<not> ok then do {
       (ln, m) \<leftarrow> ln_note (ln\<lparr>ln_handshake := hs\<rparr>) (''build_act_three'', ''handshake.c'', 264)
         (ascii ''act3 ecdh handshake failed'') m;
       Some (None, ln, m) }
     else do {
       (ck, temp_k) \<leftarrow> hkdf_two_keys (lib_host L) (hs_ck hs) (Some (hs_ss hs));
       let hs = hs\<lparr>hs_ck := ck, hs_temp_k := temp_k\<rparr>;
       t \<leftarrow> encrypt_ad L (hs_temp_k hs) 0 (hs_h hs) [] 16;
       let hs = hs\<lparr>hs_act3 := (hs_act3 hs)\<lparr>a3_tag := t\<rparr>\<rparr>;
       let hs = hs\<lparr>hs_act3 := (hs_act3 hs)\<lparr>a3_v := 0\<rparr>\<rparr>;
       ln \<leftarrow> handshake_success L (ln\<lparr>ln_handshake := hs\<rparr>) hs;
       Some (Some (hs_act3 hs), ln, m) } }"

definition lnsocket_act_two ::
  "'a lib_scheme \<Rightarrow> lnsocket \<Rightarrow> act_two \<Rightarrow> mem \<Rightarrow> (act_three option \<times> lnsocket \<times> mem) option" where
  "lnsocket_act_two L ln act2 m =
     (if a2_v act2 \<noteq> 0 then do {
        (ln, m) \<leftarrow> ln_note ln (''lnsocket_act_two'', ''handshake.c'', 310)
          (ascii ''unrecognized handshake version'') m;
        Some (None, ln, m) }
      else do {
        let hs = ln_handshake ln;
        let (ok, re) = pubkey_parse L (a2_pubkey act2);
        let hs = hs\<lparr>hs_re := re\<rparr>;
        if \<not> ok then do {
          (ln, m) \<leftarrow> ln_note (ln\<lparr>ln_handshake := hs\<rparr>) (''lnsocket_act_two'', ''handshake.c'', 325)
            (ascii ''failed to parse remote pubkey'') m;
          Some (None, ln, m) }
        else do {
          h \<leftarrow> sha_mix_in_key L (hs_h hs) (hs_re hs);
          let hs = hs\<lparr>hs_h := h\<rparr>;
          let (ok, ss) = ecdh L (hs_re hs) (kp_priv (hs_e hs));
          let hs = hs\<lparr>hs_ss := ss\<rparr>;
          if \<not> ok then do {
            (ln, m) \<leftarrow> ln_note (ln\<lparr>ln_handshake := hs\<rparr>) (''lnsocket_act_two'', ''handshake.c'', 341)
              (ascii ''act2 ecdh failed'') m;
            Some (None, ln, m) }
          else do {
            (ck, temp_k) \<leftarrow> hkdf_two_keys (lib_host L) (hs_ck hs) (Some (hs_ss hs));
            let hs = hs\<lparr>hs_ck := ck, hs_temp_k := temp_k\<rparr>;
            d \<leftarrow> decrypt L (hs_temp_k hs) 0 (hs_h hs) (a2_tag act2) 0;
            if d = None then do {
              (ln, m) \<leftarrow> ln_note (ln\<lparr>ln_handshake := hs\<rparr>) (''lnsocket_act_two'', ''handshake.c'', 361)
                (ascii ''handshake decrypt failed'') m;
              Some (None, ln, m) }
            else do {
              h \<leftarrow> sha_mix_in (lib_host L) (hs_h hs) (a2_tag act2);
              let hs = hs\<lparr>hs_h := h\<rparr>;
              build_act_three L (ln\<lparr>ln_handshake := hs\<rparr>) m } } } })"

text \<open>The returned \<open>int\<close>, the random draws left, and the state.\<close>

definition act_one_initiator_prep ::
  "'a lib_scheme \<Rightarrow> lnsocket \<Rightarrow> bytes list \<Rightarrow> mem \<Rightarrow> (bool \<times> bytes list \<times> lnsocket \<times> mem) option" where
  "act_one_initiator_prep L ln rnd m = do {
     let hs = ln_handshake ln;
     (e, rnd) \<leftarrow> generate_key L rnd;
     let hs = hs\<lparr>hs_e := e\<rparr>;
     h \<leftarrow> sha_mix_in_key L (hs_h hs) (kp_pub (hs_e hs));
     let hs = hs\<lparr>hs_h := h\<rparr>;
     let (ok, ss) = ecdh L (hs_their_id hs) (kp_priv (hs_e hs));
     let hs = hs\<lparr>hs_ss := ss\<rparr>;
     if \<not> ok then do {
       (ln, m) \<leftarrow> ln_note (ln\<lparr>ln_handshake := hs\<rparr>) (''act_one_initiator_prep'', ''handshake.c'', 402)
         (ascii ''handshake failed, secp256k1_ecdh error'') m;
       Some (False, rnd, ln, m) }
     else do {
       (ck, temp_k) \<leftarrow> hkdf_two_keys (lib_host L) (hs_ck hs) (Some (hs_ss hs));
       let hs = hs\<lparr>hs_ck := ck, hs_temp_k := temp_k\<rparr>;
       t \<leftarrow> encrypt_ad L (hs_temp_k hs) 0 (hs_h hs) [] 16;
       let hs = hs\<lparr>hs_act1 := (hs_act1 hs)\<lparr>a1_tag := t\<rparr>\<rparr>;
       h \<leftarrow> sha_mix_in (lib_host L) (hs_h hs) (a1_tag (hs_act1 hs));
       let hs = hs\<lparr>hs_h := h\<rparr>;
       let hs = hs\<lparr>hs_act1 := (hs_act1 hs)\<lparr>a1_v := 0\<rparr>\<rparr>;
       let hs = hs\<lparr>hs_act1 := (hs_act1 hs)\<lparr>a1_pubkey := pubkey_serialize L (kp_pub (hs_e hs))\<rparr>\<rparr>;
       Some (True, rnd, ln\<lparr>ln_handshake := hs\<rparr>, m) } }"

section \<open>The specification: the responder of BOLT 8\<close>

definition bolt8_mix :: "bytes \<Rightarrow> bytes \<Rightarrow> bytes" where
  "bolt8_mix h d = fips256_digest (h @ d)"

text \<open>The handshake hash and the chaining key before Act One, from the responder's key.\<close>

definition bolt8_start :: "bytes \<Rightarrow> bytes \<times> bytes" where
  "bolt8_start rs =
     (let ck = fips256_digest (ascii ''Noise_XK_secp256k1_ChaChaPoly_SHA256'')
      in (bolt8_mix (bolt8_mix ck (ascii ''lightning'')) rs, ck))"

text \<open>
  The responder's three steps: it receives Act One with its static key \<open>ls\<close>, sends Act Two
  with its ephemeral key \<open>e\<close>, receives Act Three and derives \<open>rk\<close> and \<open>sk\<close>.
\<close>

definition responder_act_one ::
  "'a lib_scheme \<Rightarrow> bytes \<Rightarrow> bytes \<times> bytes \<Rightarrow> bytes \<Rightarrow> (bytes \<times> bytes \<times> bytes) option" where
  "responder_act_one L ls st msg =
     (case st of (h, ck) \<Rightarrow>
      if length msg \<noteq> 50 \<or> msg ! 0 \<noteq> 0 then None
      else (case pubkey_parse L (take 33 (drop 1 msg)) of
        (False, _) \<Rightarrow> None
      | (True, re) \<Rightarrow>
          (let h = bolt8_mix h (pubkey_serialize L re); c = drop 34 msg
           in case ecdh L re ls of
             (False, _) \<Rightarrow> None
           | (True, es) \<Rightarrow>
               (case bolt8_hkdf ck es of (ck, temp_k1) \<Rightarrow>
                  if fst (aead_dec L temp_k1 (bolt8_nonce 0) h c)
                  then Some (bolt8_mix h c, ck, re) else None))))"

definition responder_act_two ::
  "'a lib_scheme \<Rightarrow> keypair \<Rightarrow> bytes \<times> bytes \<times> bytes \<Rightarrow> bytes \<times> (bytes \<times> bytes \<times> bytes)" where
  "responder_act_two L e st =
     (case st of (h, ck, re) \<Rightarrow>
      (let h = bolt8_mix h (pubkey_serialize L (kp_pub e));
           (ck, temp_k2) = bolt8_hkdf ck (snd (ecdh L re (kp_priv e)));
           c = snd (aead_enc L temp_k2 (bolt8_nonce 0) h [])
       in (0 # pubkey_serialize L (kp_pub e) @ c, bolt8_mix h c, ck, temp_k2)))"

definition responder_act_three ::
  "'a lib_scheme \<Rightarrow> keypair \<Rightarrow> bytes \<times> bytes \<times> bytes \<Rightarrow> bytes \<Rightarrow> (bytes \<times> bytes \<times> bytes \<times> bytes) option" where
  "responder_act_three L e st msg =
     (case st of (h, ck, temp_k2) \<Rightarrow>
      if length msg \<noteq> 66 \<or> msg ! 0 \<noteq> 0 then None
      else (let c = take 49 (drop 1 msg); t = drop 50 msg
        in case aead_dec L temp_k2 (bolt8_nonce 1) h c of
          (False, _) \<Rightarrow> None
        | (True, p) \<Rightarrow>
            (case pubkey_parse L p of
               (False, _) \<Rightarrow> None
             | (True, rs) \<Rightarrow>
                 (let h = bolt8_mix h c
                  in case ecdh L rs (kp_priv e) of
                    (False, _) \<Rightarrow> None
                  | (True, se) \<Rightarrow>
                      (case bolt8_hkdf ck se of (ck, temp_k3) \<Rightarrow>
                         if fst (aead_dec L temp_k3 (bolt8_nonce 0) h t)
                         then (case bolt8_hkdf ck [] of (rk, sk) \<Rightarrow> Some (rs, rk, sk, ck))
                         else None)))))"

section \<open>What each act computes\<close>

lemma length_bolt8_mix [simp]: "length (bolt8_mix h d) = 32"
  by (simp add: bolt8_mix_def)

lemma sha_mix_in_eq:
  assumes "length h + length d < 2 ^ 61"
  shows "sha_mix_in H h d = Some (bolt8_mix h d)"
  using sha256.hash_of_updates [of "[h, d]" H] assms
  by (auto simp: sha_mix_in_def bolt8_mix_def bind_eq_Some_conv)

lemma sha_mix_in_key_eq:
  assumes "secp_ok L" "length h = 32"
  shows "sha_mix_in_key L h key = Some (bolt8_mix h (pubkey_serialize L key))"
  using assms by (simp add: sha_mix_in_key_def sha_mix_in_eq secp_ok_def Let_def)

lemma encrypt_ad_eq:
  assumes "aead_ok L" "length k = 32" "n = length p + 16"
  shows "encrypt_ad L k nonce ad p n = Some (snd (aead_enc L k (bolt8_nonce (unat nonce)) ad p))"
  using assms(3) aead_enc_simps [OF assms(1,2) length_bolt8_nonce]
  by (simp add: encrypt_ad_def le64_nonce_eq Let_def case_prod_beta)

lemma new_handshake_eq:
  assumes "secp_ok L" "bolt8_start (pubkey_serialize L rid) = (h, ck)"
  shows "new_handshake L hs rid = Some (hs\<lparr>hs_h := h, hs_ck := ck\<rparr>)"
proof -
  define N where "N = ascii ''Noise_XK_secp256k1_ChaChaPoly_SHA256''"
  define P where "P = ascii ''lightning''"
  have len: "length N = 36" "length P = 9" by (simp_all only: N_def P_def length_ascii, simp_all)
  have "sha256 (lib_host L) N = Some (fips256_digest N)" by (rule sha256_eq) (simp add: len)
  moreover have "sha_mix_in (lib_host L) (fips256_digest N) P = Some (bolt8_mix (fips256_digest N) P)"
    by (rule sha_mix_in_eq) (simp add: len)
  ultimately show ?thesis
    using assms unfolding new_handshake_def bolt8_start_def N_def [symmetric] P_def [symmetric]
    by (simp add: sha_mix_in_key_eq Let_def) auto
qed

lemma act_one_prep_eq:
  assumes "aead_ok L" "secp_ok L" "generate_key L rnd = Some (e, rnd')"
    and "length (hs_h (ln_handshake ln)) = 32" "length (hs_ck (ln_handshake ln)) = 32"
    and "ecdh L (hs_their_id (ln_handshake ln)) (kp_priv e) = (True, es)" "length es = 32"
    and "bolt8_hkdf (hs_ck (ln_handshake ln)) es = (ck, temp_k)"
    and "h = bolt8_mix (hs_h (ln_handshake ln)) (pubkey_serialize L (kp_pub e))"
    and "t = snd (aead_enc L temp_k (bolt8_nonce 0) h [])"
  shows "act_one_initiator_prep L ln rnd m =
    Some (True, rnd', ln\<lparr>ln_handshake := (ln_handshake ln)\<lparr>hs_e := e, hs_h := bolt8_mix h t, hs_ss := es,
      hs_ck := ck, hs_temp_k := temp_k,
      hs_act1 := \<lparr>a1_v = 0, a1_pubkey = pubkey_serialize L (kp_pub e), a1_tag = t\<rparr>\<rparr>\<rparr>, m)"
proof -
  have k: "length temp_k = 32" "length ck = 32" using length_bolt8_hkdf [OF assms(8)] by simp_all
  have t: "length t = 16"
    using aead_enc_simps(2) [OF assms(1) k(1) length_bolt8_nonce] assms(10) by simp
  show ?thesis
    using assms k t
    by (simp add: act_one_initiator_prep_def sha_mix_in_key_eq hkdf_two_keys_eq encrypt_ad_eq sha_mix_in_eq Let_def)
qed

lemma handshake_success_eq:
  assumes "length (hs_ck hs) = 32" "bolt8_hkdf (hs_ck hs) [] = (k1, k2)"
  shows "handshake_success L ln hs = Some (ln\<lparr>ln_crypto_state :=
    \<lparr>cs_rn = 0, cs_sn = 0, cs_sk = (if hs_side hs = RESPONDER then k2 else k1),
     cs_rk = (if hs_side hs = RESPONDER then k1 else k2), cs_s_ck = hs_ck hs, cs_r_ck = hs_ck hs\<rparr>\<rparr>)"
  using assms by (simp add: handshake_success_def hkdf_two_keys_eq Let_def)

lemma build_act_three_eq:
  fixes ln :: lnsocket
  defines "hs \<equiv> ln_handshake ln"
  assumes "aead_ok L" "secp_ok L" "length (hs_h hs) = 32" "length (hs_ck hs) = 32" "length (hs_temp_k hs) = 32"
    and "hs_side hs = INITIATOR"
    and "c = snd (aead_enc L (hs_temp_k hs) (bolt8_nonce 1) (hs_h hs) (pubkey_serialize L (kp_pub (ln_key ln))))"
    and "h = bolt8_mix (hs_h hs) c"
    and "ecdh L (hs_re hs) (kp_priv (ln_key ln)) = (True, se)" "length se = 32"
    and "bolt8_hkdf (hs_ck hs) se = (ck, temp_k)"
    and "t = snd (aead_enc L temp_k (bolt8_nonce 0) h [])"
    and "bolt8_hkdf ck [] = (k1, k2)"
  shows "\<exists>hs'. build_act_three L ln m =
    Some (Some \<lparr>a3_v = 0, a3_ciphertext = c, a3_tag = t\<rparr>,
      ln\<lparr>ln_handshake := hs', ln_crypto_state :=
        \<lparr>cs_rn = 0, cs_sn = 0, cs_sk = k1, cs_rk = k2, cs_s_ck = ck, cs_r_ck = ck\<rparr>\<rparr>, m)"
proof -
  have k: "length temp_k = 32" "length ck = 32" using length_bolt8_hkdf [OF assms(12)] by simp_all
  have ser: "length (pubkey_serialize L (kp_pub (ln_key ln))) = 33" using assms(3) by (simp add: secp_ok_def)
  have c: "length c = 49"
    using aead_enc_simps(2) [OF assms(2,6) length_bolt8_nonce] assms(8) ser by simp
  show ?thesis
    using assms k c ser
    by (simp add: build_act_three_def sha_mix_in_eq hkdf_two_keys_eq encrypt_ad_eq handshake_success_eq Let_def
        unsigned_1 flip: hs_def) (rule exI, rule refl)
qed

lemma act_two_eq:
  fixes ln :: lnsocket
  defines "hs \<equiv> ln_handshake ln"
  assumes "aead_ok L" "secp_ok L" "length (hs_h hs) = 32" "length (hs_ck hs) = 32"
    and "a2_v act2 = 0" "pubkey_parse L (a2_pubkey act2) = (True, re)" "length (a2_tag act2) = 16"
    and "h = bolt8_mix (hs_h hs) (pubkey_serialize L re)"
    and "ecdh L re (kp_priv (hs_e hs)) = (True, ee)" "length ee = 32"
    and "bolt8_hkdf (hs_ck hs) ee = (ck, temp_k)"
    and "aead_dec L temp_k (bolt8_nonce 0) h (a2_tag act2) = (True, [])"
  shows "lnsocket_act_two L ln act2 m = build_act_three L
    (ln\<lparr>ln_handshake := hs\<lparr>hs_re := re, hs_ss := ee, hs_ck := ck, hs_temp_k := temp_k,
      hs_h := bolt8_mix h (a2_tag act2)\<rparr>\<rparr>) m"
proof -
  have k: "length temp_k = 32" "length ck = 32" using length_bolt8_hkdf [OF assms(12)] by simp_all
  show ?thesis
    using assms k
    by (simp add: lnsocket_act_two_def sha_mix_in_key_eq hkdf_two_keys_eq decrypt_def le64_nonce_eq sha_mix_in_eq
        Let_def flip: hs_def)
qed

section \<open>Both ends agree\<close>

lemma responder_accepts_act_one:
  assumes "aead_ok L" "secp_ok L" "pubkey_create L e_priv = (True, e_pub)"
    and "ecdh L e_pub ls = (True, es)" "bolt8_hkdf ck es = (ck', temp_k)"
    and "h' = bolt8_mix h (pubkey_serialize L e_pub)"
    and "t = snd (aead_enc L temp_k (bolt8_nonce 0) h' [])"
  shows "responder_act_one L ls (h, ck)
      (act_one_bytes \<lparr>a1_v = 0, a1_pubkey = pubkey_serialize L e_pub, a1_tag = t\<rparr>) =
    Some (bolt8_mix h' t, ck', e_pub)"
proof -
  have k: "length temp_k = 32" using length_bolt8_hkdf [OF assms(5)] by simp
  note a = aead_enc_simps [OF assms(1) k length_bolt8_nonce]
  have "length t = 16" using a(2) assms(7) by simp
  moreover have "length (pubkey_serialize L e_pub) = 33" "pubkey_parse L (pubkey_serialize L e_pub) = (True, e_pub)"
    using assms(2,3) by (auto simp: secp_ok_def)
  ultimately show ?thesis
    using assms(4-7) a(3) by (simp add: responder_act_one_def act_one_bytes_def Let_def)
qed

lemma responder_accepts_act_three:
  assumes "aead_ok L" "secp_ok L" "pubkey_create L s_priv = (True, s_pub)" "length temp_k = 32"
    and "c = snd (aead_enc L temp_k (bolt8_nonce 1) h (pubkey_serialize L s_pub))"
    and "ecdh L s_pub (kp_priv e) = (True, se)" "bolt8_hkdf ck se = (ck', temp_k3)"
    and "t = snd (aead_enc L temp_k3 (bolt8_nonce 0) (bolt8_mix h c) [])"
    and "bolt8_hkdf ck' [] = (k1, k2)"
  shows "responder_act_three L e (h, ck, temp_k)
      (act_three_bytes \<lparr>a3_v = 0, a3_ciphertext = c, a3_tag = t\<rparr>) = Some (s_pub, k1, k2, ck')"
proof -
  have k: "length temp_k3 = 32" using length_bolt8_hkdf [OF assms(7)] by simp
  note a = aead_enc_simps [OF assms(1) k length_bolt8_nonce]
    and b = aead_enc_simps [OF assms(1) assms(4) length_bolt8_nonce]
  have ser: "length (pubkey_serialize L s_pub) = 33" "pubkey_parse L (pubkey_serialize L s_pub) = (True, s_pub)"
    using assms(2,3) by (auto simp: secp_ok_def)
  then have "length t = 16" "length c = 49" using a(2) b(2) assms(5,8) by simp_all
  then show ?thesis
    using assms(5-9) a(3) b(3) ser by (simp add: responder_act_three_def act_three_bytes_def Let_def)
qed

definition initiate ::
  "'a lib_scheme \<Rightarrow> lnsocket \<Rightarrow> bytes \<Rightarrow> bytes list \<Rightarrow> mem \<Rightarrow> (bool \<times> bytes list \<times> lnsocket \<times> mem) option" where
  "initiate L ln their_id rnd m = do {
     hs \<leftarrow> new_handshake L (ln_handshake ln) their_id;
     act_one_initiator_prep L (ln\<lparr>ln_handshake := hs\<lparr>hs_side := INITIATOR, hs_their_id := their_id\<rparr>\<rparr>) rnd m }"

lemma generate_key_valid: "generate_key L rnd = Some (e, rnd') \<Longrightarrow> pubkey_create L (kp_priv e) = (True, kp_pub e)"
  by (induction L rnd rule: generate_key.induct) (auto split: prod.splits bool.splits)

lemma secp_agreeE:
  assumes "secp_ok L" "pubkey_create L d1 = (True, p1)" "pubkey_create L d2 = (True, p2)"
  obtains ss where "ecdh L p2 d1 = (True, ss)" "ecdh L p1 d2 = (True, ss)" "length ss = 32"
  using assms unfolding secp_ok_def by blast

text \<open>The handshake changes the handshake state and the keys only.\<close>

definition ln_same :: "lnsocket \<Rightarrow> lnsocket \<Rightarrow> bool" where
  "ln_same ln ln' \<longleftrightarrow> ln_mem ln' = ln_mem ln \<and> ln_msgbuf ln' = ln_msgbuf ln \<and> ln_errs ln' = ln_errs ln \<and>
     ln_socket ln' = ln_socket ln \<and> ln_key ln' = ln_key ln"

lemma handshake_agrees:
  assumes L: "aead_ok L" "secp_ok L"
    and ls: "pubkey_create L (kp_priv ls) = (True, kp_pub ls)"
    and re: "pubkey_create L (kp_priv re) = (True, kp_pub re)"
    and s: "pubkey_create L (kp_priv (ln_key ln)) = (True, kp_pub (ln_key ln))"
    and e: "generate_key L rnd = Some (e, rnd')"
  shows "\<exists>ln1 st1 msg2 st2 act3 rk sk ck.
    initiate L ln (kp_pub ls) rnd m = Some (True, rnd', ln1, m) \<and>
    responder_act_one L (kp_priv ls) (bolt8_start (pubkey_serialize L (kp_pub ls)))
      (act_one_bytes (hs_act1 (ln_handshake ln1))) = Some st1 \<and>
    ln_same ln ln1 \<and> hs_act2 (ln_handshake ln1) = hs_act2 (ln_handshake ln) \<and>
    length (act_one_bytes (hs_act1 (ln_handshake ln1))) = ACT_ONE_SIZE \<and>
    responder_act_two L re st1 = (msg2, st2) \<and> length msg2 = ACT_TWO_SIZE \<and>
    (\<forall>act2. \<exists>ln2. lnsocket_act_two L (ln1\<lparr>ln_handshake := (ln_handshake ln1)\<lparr>hs_act2 := act2\<rparr>\<rparr>) (act_two_of_bytes msg2) m =
        Some (Some act3, ln2, m) \<and> ln_same ln ln2 \<and>
      ln_crypto_state ln2 = \<lparr>cs_rn = 0, cs_sn = 0, cs_sk = rk, cs_rk = sk, cs_s_ck = ck, cs_r_ck = ck\<rparr>) \<and>
    length (act_three_bytes act3) = ACT_THREE_SIZE \<and>
    responder_act_three L re st2 (act_three_bytes act3) = Some (kp_pub (ln_key ln), rk, sk, ck) \<and>
    length rk = 32 \<and> length sk = 32 \<and> length ck = 32"
proof -
  let ?ser = "\<lambda>p. pubkey_serialize L p"
  have ser: "length (?ser p) = 33" for p using L(2) by (simp add: secp_ok_def)
  have parse: "pubkey_parse L (?ser (kp_pub re)) = (True, kp_pub re)" using L(2) re by (simp add: secp_ok_def)
  have e': "pubkey_create L (kp_priv e) = (True, kp_pub e)" using generate_key_valid [OF e] .
  obtain es where es: "ecdh L (kp_pub ls) (kp_priv e) = (True, es)" "ecdh L (kp_pub e) (kp_priv ls) = (True, es)" "length es = 32"
    by (rule secp_agreeE [OF L(2) e' ls])
  obtain ee where ee: "ecdh L (kp_pub re) (kp_priv e) = (True, ee)" "ecdh L (kp_pub e) (kp_priv re) = (True, ee)" "length ee = 32"
    by (rule secp_agreeE [OF L(2) e' re])
  obtain se where se: "ecdh L (kp_pub re) (kp_priv (ln_key ln)) = (True, se)"
      "ecdh L (kp_pub (ln_key ln)) (kp_priv re) = (True, se)" "length se = 32"
    by (rule secp_agreeE [OF L(2) s re])
  obtain h0 ck0 where st0: "bolt8_start (?ser (kp_pub ls)) = (h0, ck0)" by (cases "bolt8_start (?ser (kp_pub ls))")
  then have len0: "length h0 = 32" "length ck0 = 32" by (auto simp: bolt8_start_def Let_def)
  obtain ck1 tk1 where k1: "bolt8_hkdf ck0 es = (ck1, tk1)" by (cases "bolt8_hkdf ck0 es")
  obtain ck2 tk2 where k2: "bolt8_hkdf ck1 ee = (ck2, tk2)" by (cases "bolt8_hkdf ck1 ee")
  obtain ck3 tk3 where k3: "bolt8_hkdf ck2 se = (ck3, tk3)" by (cases "bolt8_hkdf ck2 se")
  obtain rk sk where k4: "bolt8_hkdf ck3 [] = (rk, sk)" by (cases "bolt8_hkdf ck3 []")
  note len = length_bolt8_hkdf [OF k1] length_bolt8_hkdf [OF k2]
  define h1 where "h1 = bolt8_mix h0 (?ser (kp_pub e))"
  define t1 where "t1 = snd (aead_enc L tk1 (bolt8_nonce 0) h1 [])"
  define h2 where "h2 = bolt8_mix (bolt8_mix h1 t1) (?ser (kp_pub re))"
  define t2 where "t2 = snd (aead_enc L tk2 (bolt8_nonce 0) h2 [])"
  define h3 where "h3 = bolt8_mix h2 t2"
  define c where "c = snd (aead_enc L tk2 (bolt8_nonce 1) h3 (?ser (kp_pub (ln_key ln))))"
  define t3 where "t3 = snd (aead_enc L tk3 (bolt8_nonce 0) (bolt8_mix h3 c) [])"
  define hs1 where "hs1 = (ln_handshake ln)\<lparr>hs_h := bolt8_mix h1 t1, hs_ck := ck1, hs_side := INITIATOR,
    hs_their_id := kp_pub ls, hs_e := e, hs_ss := es, hs_temp_k := tk1,
    hs_act1 := \<lparr>a1_v = 0, a1_pubkey = ?ser (kp_pub e), a1_tag = t1\<rparr>\<rparr>"
  let ?ln0 = "ln\<lparr>ln_handshake := (ln_handshake ln)\<lparr>hs_h := h0, hs_ck := ck0, hs_side := INITIATOR,
    hs_their_id := kp_pub ls\<rparr>\<rparr>"
  have "act_one_initiator_prep L ?ln0 rnd m = Some (True, rnd', ln\<lparr>ln_handshake := hs1\<rparr>, m)"
    using act_one_prep_eq [of L rnd e rnd' ?ln0 es ck1 tk1 h1 t1 m] L e es k1 len0
    by (simp add: hs1_def h1_def t1_def)
  then have init: "initiate L ln (kp_pub ls) rnd m = Some (True, rnd', ln\<lparr>ln_handshake := hs1\<rparr>, m)"
    by (simp add: initiate_def new_handshake_eq [OF L(2) st0])
  have r1: "responder_act_one L (kp_priv ls) (h0, ck0) (act_one_bytes (hs_act1 hs1)) =
      Some (bolt8_mix h1 t1, ck1, kp_pub e)"
    using responder_accepts_act_one [OF L e' es(2) k1 h1_def t1_def] by (simp add: hs1_def)
  have r2: "responder_act_two L re (bolt8_mix h1 t1, ck1, kp_pub e) =
      (0 # ?ser (kp_pub re) @ t2, h3, ck2, tk2)"
    using ee k2 by (simp add: responder_act_two_def Let_def h2_def t2_def h3_def)
  have t2: "length t2 = 16" "aead_dec L tk2 (bolt8_nonce 0) h2 t2 = (True, [])"
    using aead_enc_simps [OF L(1) _ length_bolt8_nonce] len by (simp_all add: t2_def)
  have parse2: "act_two_of_bytes (0 # ?ser (kp_pub re) @ t2) = \<lparr>a2_v = 0, a2_pubkey = ?ser (kp_pub re), a2_tag = t2\<rparr>"
    using ser t2(1) by (simp add: act_two_of_bytes_def)
  let ?hs2 = "\<lambda>act2. hs1\<lparr>hs_act2 := act2, hs_re := kp_pub re, hs_ss := ee, hs_ck := ck2, hs_temp_k := tk2, hs_h := h3\<rparr>"
  have a2: "lnsocket_act_two L (ln\<lparr>ln_handshake := hs1\<lparr>hs_act2 := act2\<rparr>\<rparr>) (act_two_of_bytes (0 # ?ser (kp_pub re) @ t2)) m =
      build_act_three L (ln\<lparr>ln_handshake := ?hs2 act2\<rparr>) m" for act2
    unfolding parse2 using L len parse t2 ee k2
    by (subst act_two_eq [where h = h2 and re = "kp_pub re" and ee = ee and ck = ck2 and temp_k = tk2])
       (simp_all add: hs1_def h2_def h3_def)
  have a3: "\<exists>hs'. build_act_three L (ln\<lparr>ln_handshake := ?hs2 act2\<rparr>) m =
      Some (Some \<lparr>a3_v = 0, a3_ciphertext = c, a3_tag = t3\<rparr>,
        ln\<lparr>ln_handshake := hs', ln_crypto_state :=
          \<lparr>cs_rn = 0, cs_sn = 0, cs_sk = rk, cs_rk = sk, cs_s_ck = ck3, cs_r_ck = ck3\<rparr>\<rparr>, m)" for act2
    using build_act_three_eq [of L "ln\<lparr>ln_handshake := ?hs2 act2\<rparr>" c "bolt8_mix h3 c" se ck3 tk3 t3 rk sk m]
      L len se k3 k4 by (auto simp: hs1_def h3_def c_def t3_def)
  have r3: "responder_act_three L re (h3, ck2, tk2)
      (act_three_bytes \<lparr>a3_v = 0, a3_ciphertext = c, a3_tag = t3\<rparr>) = Some (kp_pub (ln_key ln), rk, sk, ck3)"
    using responder_accepts_act_three [OF L s _ c_def se(2) k3 t3_def k4] len by simp
  have "length tk3 = 32" using length_bolt8_hkdf [OF k3] by simp
  then have lens: "length t1 = 16" "length c = 49" "length t3 = 16"
    using aead_enc_simps(2) [OF L(1) _ length_bolt8_nonce] len ser by (simp_all add: t1_def c_def t3_def)
  have keys: "length rk = 32" "length sk = 32" "length ck3 = 32"
    using length_bolt8_hkdf [OF k4] length_bolt8_hkdf [OF k3] by simp_all
  have a: "\<exists>ln2. lnsocket_act_two L (ln\<lparr>ln_handshake := hs1\<lparr>hs_act2 := act2\<rparr>\<rparr>) (act_two_of_bytes (0 # ?ser (kp_pub re) @ t2)) m =
        Some (Some \<lparr>a3_v = 0, a3_ciphertext = c, a3_tag = t3\<rparr>, ln2, m) \<and> ln_same ln ln2 \<and>
      ln_crypto_state ln2 = \<lparr>cs_rn = 0, cs_sn = 0, cs_sk = rk, cs_rk = sk, cs_s_ck = ck3, cs_r_ck = ck3\<rparr>" for act2
    using a2 [of act2] a3 [of act2] by (auto simp: ln_same_def)
  show ?thesis
    using init r1 r2 r3 a ser t2(1) lens keys st0
    by (intro exI [of _ "ln\<lparr>ln_handshake := hs1\<rparr>"] exI [of _ "(bolt8_mix h1 t1, ck1, kp_pub e)"]
        exI [of _ "0 # ?ser (kp_pub re) @ t2"] exI [of _ "(h3, ck2, tk2)"]
        exI [of _ "\<lparr>a3_v = 0, a3_ciphertext = c, a3_tag = t3\<rparr>"] exI [of _ rk] exI [of _ sk] exI [of _ ck3])
      (simp add: ACT_ONE_SIZE_def ACT_TWO_SIZE_def ACT_THREE_SIZE_def act_one_bytes_def act_three_bytes_def
        ln_same_def hs1_def)
qed

section \<open>What a failed Act Two leaves behind\<close>

lemma ln_note_SomeE:
  assumes "ln_note ln src msg m = Some (ln', m')"
  obtains errs where "ln' = ln\<lparr>ln_errs := errs\<rparr>"
  using assms by (auto simp: ln_note_def bind_eq_Some_conv)

lemma build_act_three_keeps_crypto:
  assumes "build_act_three L ln m = Some (None, ln', m')"
  shows "ln_crypto_state ln' = ln_crypto_state ln"
  using assms
  by (auto simp: build_act_three_def Let_def case_prod_beta bind_eq_Some_conv split: if_splits elim!: ln_note_SomeE)

lemma act_two_keeps_crypto:
  assumes "lnsocket_act_two L ln act2 m = Some (None, ln', m')"
  shows "ln_crypto_state ln' = ln_crypto_state ln"
  using assms
  by (auto simp: lnsocket_act_two_def Let_def case_prod_beta bind_eq_Some_conv
      split: if_splits elim!: ln_note_SomeE dest!: build_act_three_keeps_crypto)

section \<open>An example library\<close>

definition example_lib :: lib where
  "example_lib = aead.extend example_aead
     (lib.fields (\<lambda>d. (length d = 32 \<and> d \<noteq> replicate 32 0, d @ replicate 32 0))
       (\<lambda>b. (length b = 33 \<and> hd b = 2, drop 1 b @ replicate 32 0))
       (\<lambda>p. 2 # take 32 (p @ replicate 32 0))
       (\<lambda>p d. (True, take 32 (map2 (XOR) (take 32 p) d @ replicate 32 0))))"

lemma example_lib_ok: "aead_ok example_lib" "secp_ok example_lib"
proof -
  show "aead_ok example_lib"
    by (auto simp: aead_ok_def example_lib_def aead.defs lib.defs example_aead_def example_tag_def Let_def)
  have "map2 (XOR) x y = map2 (XOR) y x" for x y :: bytes
    by (induction x y rule: list_induct2') (simp_all add: xor.commute)
  then show "secp_ok example_lib"
    by (auto simp: secp_ok_def example_lib_def aead.defs lib.defs)
qed

section \<open>What an accepted Act Two has shown\<close>

lemma act_two_accepted:
  assumes "secp_ok L" "length (hs_h (ln_handshake ln)) = 32" "length (hs_ck (ln_handshake ln)) = 32"
    and "lnsocket_act_two L ln act2 m = Some (Some act3, ln', m')"
  shows "a2_v act2 = 0 \<and> (\<exists>re ee. pubkey_parse L (a2_pubkey act2) = (True, re) \<and>
    ecdh L re (kp_priv (hs_e (ln_handshake ln))) = (True, ee) \<and>
    aead_dec L (snd (bolt8_hkdf (hs_ck (ln_handshake ln)) ee)) (bolt8_nonce 0)
      (bolt8_mix (hs_h (ln_handshake ln)) (pubkey_serialize L re)) (a2_tag act2) = (True, []))"
proof -
  obtain okp re where p: "pubkey_parse L (a2_pubkey act2) = (okp, re)" by force
  obtain oke ee where e: "ecdh L re (kp_priv (hs_e (ln_handshake ln))) = (oke, ee)" by force
  obtain ck tk where k: "bolt8_hkdf (hs_ck (ln_handshake ln)) ee = (ck, tk)" by force
  have "length ee = 32" using assms(1) e unfolding secp_ok_def by (metis snd_conv)
  then show ?thesis
    using assms p e k
    by (auto simp: lnsocket_act_two_def Let_def case_prod_beta bind_eq_Some_conv sha_mix_in_key_eq
        hkdf_two_keys_eq decrypt_def le64_nonce_eq prod_eq_iff split: if_splits)
qed

section \<open>Properties\<close>

text \<open>C1: The handshake of BOLT 8 succeeds against a responder written from the specification, for any
  key pairs and any random source with a valid draw: the responder accepts Act One, the code
  accepts its Act Two, the responder accepts Act Three and learns our static key, and both ends
  hold the same keys crosswise, the same chaining key, and nonces at 0. Nothing is written to memory.\<close>

theorem handshake_establishes_keys:
  assumes "aead_ok L" "secp_ok L"
    and "pubkey_create L (kp_priv ls) = (True, kp_pub ls)"
    and "pubkey_create L (kp_priv re) = (True, kp_pub re)"
    and "pubkey_create L (kp_priv (ln_key ln)) = (True, kp_pub (ln_key ln))"
    and "generate_key L rnd = Some (e, rnd')"
  shows "\<exists>ln1 st1 msg2 st2 act3 ln2 rk sk ck.
    initiate L ln (kp_pub ls) rnd m = Some (True, rnd', ln1, m) \<and>
    responder_act_one L (kp_priv ls) (bolt8_start (pubkey_serialize L (kp_pub ls)))
      (act_one_bytes (hs_act1 (ln_handshake ln1))) = Some st1 \<and>
    responder_act_two L re st1 = (msg2, st2) \<and>
    lnsocket_act_two L ln1 (act_two_of_bytes msg2) m = Some (Some act3, ln2, m) \<and>
    responder_act_three L re st2 (act_three_bytes act3) = Some (kp_pub (ln_key ln), rk, sk, ck) \<and>
    ln_crypto_state ln2 = \<lparr>cs_rn = 0, cs_sn = 0, cs_sk = rk, cs_rk = sk, cs_s_ck = ck, cs_r_ck = ck\<rparr>"
proof -
  obtain ln1 st1 msg2 st2 act3 rk sk ck where h: "initiate L ln (kp_pub ls) rnd m = Some (True, rnd', ln1, m)"
      "responder_act_one L (kp_priv ls) (bolt8_start (pubkey_serialize L (kp_pub ls)))
        (act_one_bytes (hs_act1 (ln_handshake ln1))) = Some st1"
      "responder_act_two L re st1 = (msg2, st2)"
      "responder_act_three L re st2 (act_three_bytes act3) = Some (kp_pub (ln_key ln), rk, sk, ck)"
      "\<forall>act2. \<exists>ln2. lnsocket_act_two L (ln1\<lparr>ln_handshake := (ln_handshake ln1)\<lparr>hs_act2 := act2\<rparr>\<rparr>) (act_two_of_bytes msg2) m =
        Some (Some act3, ln2, m) \<and> ln_same ln ln2 \<and>
        ln_crypto_state ln2 = \<lparr>cs_rn = 0, cs_sn = 0, cs_sk = rk, cs_rk = sk, cs_s_ck = ck, cs_r_ck = ck\<rparr>"
    using handshake_agrees [OF assms, of m] by blast
  have "ln1\<lparr>ln_handshake := (ln_handshake ln1)\<lparr>hs_act2 := hs_act2 (ln_handshake ln1)\<rparr>\<rparr> = ln1" by simp
  then obtain ln2 where "lnsocket_act_two L ln1 (act_two_of_bytes msg2) m = Some (Some act3, ln2, m)"
      "ln_crypto_state ln2 = \<lparr>cs_rn = 0, cs_sn = 0, cs_sk = rk, cs_rk = sk, cs_s_ck = ck, cs_r_ck = ck\<rparr>"
    using h(5) [rule_format, of "hs_act2 (ln_handshake ln1)"] by auto
  then show ?thesis using h(1-4) by blast
qed

definition example_pair :: "u8 \<Rightarrow> keypair" where
  "example_pair b = \<lparr>kp_pub = replicate 32 b @ replicate 32 0, kp_priv = replicate 32 b\<rparr>"

lemma example_pair_valid:
  "b \<noteq> 0 \<Longrightarrow> pubkey_create example_lib (kp_priv (example_pair b)) = (True, kp_pub (example_pair b))"
  by (simp add: example_lib_def example_pair_def aead.defs lib.defs replicate_eq_replicate)

definition example_handshake :: handshake where
  "example_handshake = \<lparr>hs_ck = replicate 32 0, hs_temp_k = replicate 32 0, hs_h = replicate 32 0,
     hs_e = example_pair 0, hs_ss = [], hs_re = [], hs_act1 = \<lparr>a1_v = 0, a1_pubkey = [], a1_tag = []\<rparr>,
     hs_act2 = \<lparr>a2_v = 0, a2_pubkey = replicate 33 0, a2_tag = replicate 16 0\<rparr>,
     hs_act3 = \<lparr>a3_v = 0, a3_ciphertext = [], a3_tag = []\<rparr>, hs_their_id = [], hs_side = INITIATOR\<rparr>"

definition example_ln :: lnsocket where
  "example_ln = \<lparr>ln_mem = make_cursor 0 200000, ln_msgbuf = make_cursor 1000 132072,
     ln_errs = \<lparr>e_cur = make_cursor 132072 136168, e_enabled = True\<rparr>, ln_socket = 3,
     ln_key = example_pair 1, ln_handshake = example_handshake, ln_crypto_state = example_state\<rparr>"

theorem handshake_establishes_keys_witness:
  "\<exists>ln1 st1 msg2 st2 act3 ln2 rk sk ck.
    initiate example_lib example_ln (kp_pub (example_pair 2)) [replicate 32 0, replicate 32 4] (\<lambda>_. 0) =
      Some (True, [], ln1, \<lambda>_. 0) \<and>
    responder_act_one example_lib (kp_priv (example_pair 2))
      (bolt8_start (pubkey_serialize example_lib (kp_pub (example_pair 2))))
      (act_one_bytes (hs_act1 (ln_handshake ln1))) = Some st1 \<and>
    responder_act_two example_lib (example_pair 3) st1 = (msg2, st2) \<and>
    lnsocket_act_two example_lib ln1 (act_two_of_bytes msg2) (\<lambda>_. 0) = Some (Some act3, ln2, \<lambda>_. 0) \<and>
    responder_act_three example_lib (example_pair 3) st2 (act_three_bytes act3) =
      Some (kp_pub (ln_key example_ln), rk, sk, ck) \<and>
    ln_crypto_state ln2 = \<lparr>cs_rn = 0, cs_sn = 0, cs_sk = rk, cs_rk = sk, cs_s_ck = ck, cs_r_ck = ck\<rparr>"
proof (rule handshake_establishes_keys [OF example_lib_ok])
  show "pubkey_create example_lib (kp_priv (example_pair 2)) = (True, kp_pub (example_pair 2))"
    and "pubkey_create example_lib (kp_priv (example_pair 3)) = (True, kp_pub (example_pair 3))"
    by (rule example_pair_valid, simp)+
  show "pubkey_create example_lib (kp_priv (ln_key example_ln)) = (True, kp_pub (ln_key example_ln))"
    using example_pair_valid [of 1] by (simp add: example_ln_def)
  have "pubkey_create example_lib (replicate 32 0) = (False, replicate 64 0)"
    by (simp add: example_lib_def aead.defs lib.defs flip: replicate_add)
  then show "generate_key example_lib [replicate 32 0, replicate 32 4] = Some (example_pair 4, [])"
    using example_pair_valid [of 4] by (simp add: example_pair_def)
qed

text \<open>C10: \<open>lnsocket_act_two\<close> authenticates: it returns Act Three only for version 0, a public key that
  parses, and a tag that authenticates under the derived key, with the hash of the whole
  transcript as associated data; and when it returns NULL the connection's keys and nonces are
  as before.\<close>

theorem act_two_authenticates:
  assumes "secp_ok L" "length (hs_h (ln_handshake ln)) = 32" "length (hs_ck (ln_handshake ln)) = 32"
    and "lnsocket_act_two L ln act2 m = Some (r, ln', m')"
  shows "(r = None \<longrightarrow> ln_crypto_state ln' = ln_crypto_state ln) \<and>
    (r \<noteq> None \<longrightarrow> a2_v act2 = 0 \<and> (\<exists>re ee. pubkey_parse L (a2_pubkey act2) = (True, re) \<and>
      ecdh L re (kp_priv (hs_e (ln_handshake ln))) = (True, ee) \<and>
      aead_dec L (snd (bolt8_hkdf (hs_ck (ln_handshake ln)) ee)) (bolt8_nonce 0)
        (bolt8_mix (hs_h (ln_handshake ln)) (pubkey_serialize L re)) (a2_tag act2) = (True, [])))"
  using act_two_keeps_crypto [of L ln act2 m ln' m'] act_two_accepted [OF assms(1-3), of act2 m _ ln' m'] assms(4)
  by (cases r) auto

theorem act_two_authenticates_witness:
  "\<exists>ln' m'. (lnsocket_act_two example_lib example_ln \<lparr>a2_v = 1, a2_pubkey = [], a2_tag = []\<rparr> (\<lambda>_. 0) = Some (None, ln', m')) \<and>
    (((None :: act_three option) = None \<longrightarrow> ln_crypto_state ln' = ln_crypto_state example_ln) \<and>
    ((None :: act_three option) \<noteq> None \<longrightarrow> a2_v \<lparr>a2_v = 1, a2_pubkey = [], a2_tag = []\<rparr> = 0 \<and>
      (\<exists>re ee. pubkey_parse example_lib (a2_pubkey \<lparr>a2_v = 1, a2_pubkey = [], a2_tag = []\<rparr>) = (True, re) \<and>
      ecdh example_lib re (kp_priv (hs_e (ln_handshake example_ln))) = (True, ee) \<and>
      aead_dec example_lib (snd (bolt8_hkdf (hs_ck (ln_handshake example_ln)) ee)) (bolt8_nonce 0)
        (bolt8_mix (hs_h (ln_handshake example_ln)) (pubkey_serialize example_lib re))
        (a2_tag \<lparr>a2_v = 1, a2_pubkey = [], a2_tag = []\<rparr>) = (True, []))))"
proof -
  let ?msg = "ascii ''lnsocket_act_two'' @ ascii '':'' @ ascii ''handshake.c'' @ ascii '':'' @ dec_nat 310
      @ ascii '': '' @ ascii ''unrecognized handshake version''"
  have dec: "length (dec_nat 310) = 3" by (simp add: dec_nat.simps)
  have ok: "cursor_ok (make_cursor 132072 136168)" by (simp add: cursor_ok_def make_cursor_def)
  have len: "length ?msg = 64" using dec by simp
  then have "length ?msg < 2 ^ 31" "length ?msg + 1 \<le> 512" by simp_all
  then have "note_error_fmt (ln_errs example_ln) ?msg (\<lambda>_. 0) =
      Some ((ln_errs example_ln)\<lparr>e_cur := (make_cursor 132072 136168)\<lparr>c_p := 132072 + length ?msg + 1\<rparr>\<rparr>,
        mwrite (\<lambda>_. 0) 132072 (?msg @ [0]))"
    using cursor_push_c_str_eq [OF ok, of ?msg "\<lambda>_. 0"] len
    by (simp add: note_error_fmt_def cursor_push_error_def example_ln_def make_cursor_def del: ascii_simps)
  then obtain ln' m' where ln': "lnsocket_act_two example_lib example_ln \<lparr>a2_v = 1, a2_pubkey = [], a2_tag = []\<rparr> (\<lambda>_. 0) =
      Some (None, ln', m')"
    by (simp add: lnsocket_act_two_def ln_note_def note_error_def del: ascii_simps)
  have h: "length (hs_h (ln_handshake example_ln)) = 32" "length (hs_ck (ln_handshake example_ln)) = 32"
    by (simp_all add: example_ln_def example_handshake_def)
  show ?thesis
    using act_two_authenticates [OF example_lib_ok(2) h ln'] ln' by blast
qed

end
