(* ===== verification/Codes.thy ===== *)
theory Codes
  imports Prelude
begin

text \<open>
  The contract of the variable-length integer codes (\<open>bigsize.c\<close>, \<open>varint.c\<close>). A \<open>put\<close>
  writes a value as bytes, a \<open>get\<close> gets a buffer and the number of bytes that may be read
  from it and answers the number it consumed (0 on failure) and what it stored in its
  out-parameter. \<open>prefix_code\<close> is what a reader of a stream relies on, \<open>canonical_code\<close> adds
  that every value has one encoding only.
\<close>

locale prefix_code =
  fixes put :: "'v \<Rightarrow> bytes"
    and len :: "'v \<Rightarrow> nat"
    and get :: "bytes \<Rightarrow> nat \<Rightarrow> nat \<times> 'v option"
  assumes length_put: "length (put v) = len v"
    and len_pos: "0 < len v"
    and get_put: "len v \<le> n \<Longrightarrow> get (put v @ r) n = (len v, Some v)"
begin

lemma put_append_inject: "put v @ r = put w @ s \<longleftrightarrow> v = w \<and> r = s"
proof
  assume eq: "put v @ r = put w @ s"
  have "get (put v @ r) (max (len v) (len w)) = (len v, Some v)" by (rule get_put) simp
  moreover have "get (put w @ s) (max (len v) (len w)) = (len w, Some w)" by (rule get_put) simp
  ultimately have "v = w" using eq by simp
  with eq show "v = w \<and> r = s" by simp
qed simp

lemma put_inject: "put v = put w \<longleftrightarrow> v = w"
  using put_append_inject [of v "[]" w "[]"] by simp

lemma put_neq_Nil [simp]: "put v \<noteq> []"
  using length_put [of v] len_pos [of v] by auto

lemma concat_put_inject: "concat (map put vs) = concat (map put ws) \<longleftrightarrow> vs = ws"
proof (induction vs arbitrary: ws)
  case Nil
  then show ?case by (cases ws) auto
next
  case (Cons v vs)
  then show ?case by (cases ws) (auto simp: put_append_inject)
qed

lemma get_put_exact: "get (put v) (len v) = (len v, Some v)"
  using get_put [of v "len v" "[]"] by simp

end

locale canonical_code = prefix_code +
  assumes put_get: "get p n = (k, v) \<Longrightarrow> 0 < k \<Longrightarrow> n \<le> length p \<Longrightarrow>
      k \<le> n \<and> (\<exists>w. v = Some w \<and> take k p = put w)"
begin

lemma get_iff:
  assumes "n \<le> length p" "0 < k"
  shows "get p n = (k, Some v) \<longleftrightarrow> k = len v \<and> k \<le> n \<and> (\<exists>r. p = put v @ r)"
proof
  assume g: "get p n = (k, Some v)"
  then have "k \<le> n" "take k p = put v" using put_get [OF g] assms by auto
  moreover have "p = take k p @ drop k p" by simp
  ultimately show "k = len v \<and> k \<le> n \<and> (\<exists>r. p = put v @ r)"
    using assms length_put [of v] by (metis length_take min.absorb2 order_trans)
next
  assume "k = len v \<and> k \<le> n \<and> (\<exists>r. p = put v @ r)"
  then show "get p n = (k, Some v)" by (auto simp: get_put)
qed

lemma get_injective:
  assumes "get p (length p) = (length p, Some v)" "get q (length q) = (length q, Some v)" "p \<noteq> []" "q \<noteq> []"
  shows "p = q"
  using put_get [OF assms(1)] put_get [OF assms(2)] assms(3,4) by auto

end

end
