(* ===== verification/Bigsize.thy ===== *)
theory Bigsize
  imports Codes Cursor
begin

text \<open>
  \<open>bigsize.c\<close>: the big-endian variable-length integer of the peer protocol, in which only the
  shortest encoding of a value is accepted, and its two cursor functions.
\<close>

type_synonym bigsize_t = u64

definition BIGSIZE_MAX_LEN :: nat where
  "BIGSIZE_MAX_LEN = 9"

definition bigsize_len :: "bigsize_t \<Rightarrow> nat" where
  "bigsize_len v =
     (if v < 0xfd then 1
      else if v \<le> 0xffff then 3
      else if v \<le> 0xffffffff then 5
      else 9)"

text \<open>The bytes written to \<open>buf\<close>; the returned \<open>p - buf\<close> is their number.\<close>

definition bigsize_put :: "bigsize_t \<Rightarrow> bytes" where
  "bigsize_put v =
     (if v < 0xfd then [ucast v]
      else if v \<le> 0xffff then [0xfd, ucast (drop_bit 8 v), ucast v]
      else if v \<le> 0xffffffff then
        [0xfe, ucast (drop_bit 24 v), ucast (drop_bit 16 v), ucast (drop_bit 8 v), ucast v]
      else
        [0xff, ucast (drop_bit 56 v), ucast (drop_bit 48 v), ucast (drop_bit 40 v),
         ucast (drop_bit 32 v), ucast (drop_bit 24 v), ucast (drop_bit 16 v),
         ucast (drop_bit 8 v), ucast v])"

text \<open>
  \<open>p\<close> are the bytes at the pointer, \<open>maxlen\<close> how many may be read. The second component is the
  value stored through the out-parameter, if one was.
\<close>

definition bigsize_get :: "bytes \<Rightarrow> nat \<Rightarrow> nat \<times> bigsize_t option" where
  "bigsize_get p maxlen =
     (if maxlen < 1 then (0, None)
      else if p ! 0 = 0xfd then
        (if maxlen < 3 then (0, None)
         else (let val = push_bit 8 (ucast (p ! 1)) + ucast (p ! 2) in
           if val < 0xfd then (0, Some val) else (3, Some val)))
      else if p ! 0 = 0xfe then
        (if maxlen < 5 then (0, None)
         else (let val = push_bit 24 (ucast (p ! 1)) + push_bit 16 (ucast (p ! 2))
                 + push_bit 8 (ucast (p ! 3)) + ucast (p ! 4) in
           if drop_bit 16 val = 0 then (0, Some val) else (5, Some val)))
      else if p ! 0 = 0xff then
        (if maxlen < 9 then (0, None)
         else (let val = push_bit 56 (ucast (p ! 1)) + push_bit 48 (ucast (p ! 2))
                 + push_bit 40 (ucast (p ! 3)) + push_bit 32 (ucast (p ! 4))
                 + push_bit 24 (ucast (p ! 5)) + push_bit 16 (ucast (p ! 6))
                 + push_bit 8 (ucast (p ! 7)) + ucast (p ! 8) in
           if drop_bit 32 val = 0 then (0, Some val) else (9, Some val)))
      else (1, Some (ucast (p ! 0))))"

text \<open>The cursor is read but not advanced.\<close>

definition cursor_pull_bigsize :: "cursor \<Rightarrow> mem \<Rightarrow> nat \<times> bigsize_t option" where
  "cursor_pull_bigsize cur m =
     bigsize_get (mread m (c_p cur) (c_end cur - c_p cur)) (c_end cur - c_p cur)"

definition cursor_push_bigsize :: "cursor \<Rightarrow> bigsize_t \<Rightarrow> mem \<Rightarrow> (bool \<times> cursor \<times> mem) option" where
  "cursor_push_bigsize cur val m =
     (let buf = bigsize_put val; len = length buf in cursor_push cur buf (c_int len) m)"

section \<open>The four classes of values\<close>

lemma be_bytes_234:
  "be_bytes 2 w = [ucast (drop_bit 8 w), ucast w]"
  "be_bytes 4 w = [ucast (drop_bit 24 w), ucast (drop_bit 16 w), ucast (drop_bit 8 w), ucast w]"
  "be_bytes 8 w = [ucast (drop_bit 56 w), ucast (drop_bit 48 w), ucast (drop_bit 40 w),
     ucast (drop_bit 32 w), ucast (drop_bit 24 w), ucast (drop_bit 16 w), ucast (drop_bit 8 w), ucast w]"
  by (simp_all add: be_bytes_def le_bytes_def upt_rec)

lemma be_word_sums:
  "be_word [a, b] = (push_bit 8 (ucast a) + ucast b :: u64)"
  "be_word [a, b, c, d] =
     (push_bit 24 (ucast a) + push_bit 16 (ucast b) + push_bit 8 (ucast c) + ucast d :: u64)"
  "be_word [a, b, c, d, e, f, g, h] =
     (push_bit 56 (ucast a) + push_bit 48 (ucast b) + push_bit 40 (ucast c) + push_bit 32 (ucast d)
      + push_bit 24 (ucast e) + push_bit 16 (ucast f) + push_bit 8 (ucast g) + ucast h :: u64)"
  by (simp_all add: be_word_def le_word_Cons_plus push_bit_add ac_simps del: le_word.simps(2))

lemma bigsize_put_eq:
  "bigsize_put v =
     (if v < 0xfd then [ucast v]
      else if v \<le> 0xffff then 0xfd # be_bytes 2 v
      else if v \<le> 0xffffffff then 0xfe # be_bytes 4 v
      else 0xff # be_bytes 8 v)"
  by (simp add: bigsize_put_def be_bytes_234)

lemma bigsize_get_eq:
  assumes "maxlen \<le> length p"
  shows "bigsize_get p maxlen =
     (if maxlen < 1 then (0, None)
      else if p ! 0 = 0xfd then
        (if maxlen < 3 then (0, None)
         else (let val = be_word (take 2 (drop 1 p)) in
           if val < 0xfd then (0, Some val) else (3, Some val)))
      else if p ! 0 = 0xfe then
        (if maxlen < 5 then (0, None)
         else (let val = be_word (take 4 (drop 1 p)) in
           if val < 0x10000 then (0, Some val) else (5, Some val)))
      else if p ! 0 = 0xff then
        (if maxlen < 9 then (0, None)
         else (let val = be_word (take 8 (drop 1 p)) in
           if val < 0x100000000 then (0, Some val) else (9, Some val)))
      else (1, Some (ucast (p ! 0))))"
proof -
  have nths: "take k (drop 1 p) = map (\<lambda>i. p ! (1 + i)) [0..<k]" if "1 + k \<le> maxlen" for k
    using that assms by (intro nth_equalityI) auto
  have "take 2 (drop 1 p) = [p ! 1, p ! 2]" if "\<not> maxlen < 3"
    using that nths [of 2] by (simp add: upt_rec numeral_eq_Suc)
  moreover have "take 4 (drop 1 p) = [p ! 1, p ! 2, p ! 3, p ! 4]" if "\<not> maxlen < 5"
    using that nths [of 4] by (simp add: upt_rec numeral_eq_Suc)
  moreover have "take 8 (drop 1 p) = [p ! 1, p ! 2, p ! 3, p ! 4, p ! 5, p ! 6, p ! 7, p ! 8]" if "\<not> maxlen < 9"
    using that nths [of 8] by (simp add: upt_rec numeral_eq_Suc)
  ultimately show ?thesis
    by (simp add: bigsize_get_def be_word_sums drop_bit_word_0_iff Let_def)
qed

section \<open>The contract\<close>

lemma bigsize_small:
  fixes v :: u64
  assumes "v < 0xfd"
  shows "ucast (ucast v :: u8) = v" "(ucast v :: u8) < 0xfd"
proof -
  have "v < 2 ^ 8" using assms by (simp add: word_less_nat_alt)
  then have "be_word (be_bytes 1 v) = v"
    using take_bit_word_self_iff [of 8 v] by (simp add: be_word_be_bytes_take)
  then show "ucast (ucast v :: u8) = v"
    by (simp add: be_word_def be_bytes_def le_bytes_def)
  have "unat (ucast v :: u8) = unat v"
    using \<open>v < 2 ^ 8\<close> by (simp add: unsigned_ucast_eq take_bit_nat_eq_self_iff word_less_nat_alt)
  then show "(ucast v :: u8) < 0xfd" using assms by (simp add: word_less_nat_alt)
qed

lemma bigsize_sums:
  fixes v :: u64
  shows "v \<le> 0xffff \<Longrightarrow>
      push_bit 8 (ucast (ucast (drop_bit 8 v) :: u8)) + ucast (ucast v :: u8) = v"
    and "v \<le> 0xffffffff \<Longrightarrow>
      push_bit 24 (ucast (ucast (drop_bit 24 v) :: u8)) + push_bit 16 (ucast (ucast (drop_bit 16 v) :: u8))
      + push_bit 8 (ucast (ucast (drop_bit 8 v) :: u8)) + ucast (ucast v :: u8) = v"
    and "push_bit 56 (ucast (ucast (drop_bit 56 v) :: u8)) + push_bit 48 (ucast (ucast (drop_bit 48 v) :: u8))
      + push_bit 40 (ucast (ucast (drop_bit 40 v) :: u8)) + push_bit 32 (ucast (ucast (drop_bit 32 v) :: u8))
      + push_bit 24 (ucast (ucast (drop_bit 24 v) :: u8)) + push_bit 16 (ucast (ucast (drop_bit 16 v) :: u8))
      + push_bit 8 (ucast (ucast (drop_bit 8 v) :: u8)) + ucast (ucast v :: u8) = v"
proof -
  show "push_bit 8 (ucast (ucast (drop_bit 8 v) :: u8)) + ucast (ucast v :: u8) = v" if "v \<le> 0xffff"
    using that take_bit_word_self_iff [of 16 v] be_word_be_bytes_take [of 2 v, where 'a = 64]
    by (simp add: be_bytes_234 be_word_sums word_less_nat_alt word_le_nat_alt)
  show "push_bit 24 (ucast (ucast (drop_bit 24 v) :: u8)) + push_bit 16 (ucast (ucast (drop_bit 16 v) :: u8))
      + push_bit 8 (ucast (ucast (drop_bit 8 v) :: u8)) + ucast (ucast v :: u8) = v" if "v \<le> 0xffffffff"
    using that take_bit_word_self_iff [of 32 v] be_word_be_bytes_take [of 4 v, where 'a = 64]
    by (simp add: be_bytes_234 be_word_sums word_less_nat_alt word_le_nat_alt)
  show "push_bit 56 (ucast (ucast (drop_bit 56 v) :: u8)) + push_bit 48 (ucast (ucast (drop_bit 48 v) :: u8))
      + push_bit 40 (ucast (ucast (drop_bit 40 v) :: u8)) + push_bit 32 (ucast (ucast (drop_bit 32 v) :: u8))
      + push_bit 24 (ucast (ucast (drop_bit 24 v) :: u8)) + push_bit 16 (ucast (ucast (drop_bit 16 v) :: u8))
      + push_bit 8 (ucast (ucast (drop_bit 8 v) :: u8)) + ucast (ucast v :: u8) = v"
    using be_word_be_bytes [of 8 v] by (simp only: be_bytes_234 be_word_sums) simp
qed

lemma bigsize_put_length: "length (bigsize_put v) = bigsize_len v"
  by (simp add: bigsize_put_def bigsize_len_def)

lemma bigsize_get_of_put:
  assumes "bigsize_len v \<le> n"
  shows "bigsize_get (bigsize_put v @ r) n = (bigsize_len v, Some v)"
proof -
  have small: "(ucast v :: u8) \<noteq> 0xfd \<and> (ucast v :: u8) \<noteq> 0xfe \<and> (ucast v :: u8) \<noteq> 0xff" if "v < 0xfd"
    using bigsize_small(2) [OF that] by (auto simp: word_less_nat_alt)
  have "\<not> v < 0x10000" if "\<not> v \<le> 0xffff"
    using that by (simp add: word_less_nat_alt word_le_nat_alt)
  moreover have "\<not> v < 0x100000000" if "\<not> v \<le> 0xffffffff"
    using that by (simp add: word_less_nat_alt word_le_nat_alt)
  ultimately show ?thesis
    using assms small
    by (auto simp: bigsize_get_def bigsize_put_def bigsize_len_def bigsize_small bigsize_sums
        drop_bit_word_0_iff Let_def split: if_splits)
qed

lemma bigsize_put_of_get:
  assumes "bigsize_get p n = (k, v)" "0 < k" "n \<le> length p"
  shows "k \<le> n \<and> (\<exists>w. v = Some w \<and> take k p = bigsize_put w)"
proof -
  have hd: "take k p = p ! 0 # take (k - 1) (drop 1 p)" if "p \<noteq> []"
    using that assms(2) by (cases p; cases k) auto
  define w2 w4 w8 :: u64 where
    "w2 = be_word (take 2 (drop 1 p))" and "w4 = be_word (take 4 (drop 1 p))" and
    "w8 = be_word (take 8 (drop 1 p))"
  have b2: "be_bytes 2 w2 = take 2 (drop 1 p)" "w2 \<le> 0xffff" if "\<not> n < 3"
    using that assms(3) le_word_less [of "rev (take 2 (drop 1 p))" 16, where 'a = 64]
    by (simp_all add: w2_def be_bytes_be_word_wide) (simp add: be_word_def word_less_nat_alt word_le_nat_alt)
  have b4: "be_bytes 4 w4 = take 4 (drop 1 p)" "w4 \<le> 0xffffffff" if "\<not> n < 5"
    using that assms(3) le_word_less [of "rev (take 4 (drop 1 p))" 32, where 'a = 64]
    by (simp_all add: w4_def be_bytes_be_word_wide) (simp add: be_word_def word_less_nat_alt word_le_nat_alt)
  have b8: "be_bytes 8 w8 = take 8 (drop 1 p)" if "\<not> n < 9"
    using that assms(3) by (simp add: w8_def be_bytes_be_word_wide)
  have b0: "ucast (p ! 0) < (0xfd :: u64)" if "p ! 0 \<noteq> 0xfd" "p ! 0 \<noteq> 0xfe" "p ! 0 \<noteq> 0xff"
  proof -
    have "unat (p ! 0) < 2 ^ LENGTH(8)" by (rule unsigned_less)
    then show ?thesis
      using that by (simp add: word_less_nat_alt word_unat_eq_iff unsigned_ucast_eq take_bit_nat_eq_self)
  qed
  have u0: "(ucast (ucast (p ! 0) :: u64) :: u8) = p ! 0"
    by (rule bit_word_eqI) (simp add: bit_ucast_iff)
  have ne: "p \<noteq> []" using assms by (auto simp: bigsize_get_def)
  consider "k = 3" "p ! 0 = 0xfd" "v = Some w2" "\<not> n < 3" "\<not> w2 < 0xfd"
    | "k = 5" "p ! 0 = 0xfe" "v = Some w4" "\<not> n < 5" "\<not> w4 < 0x10000"
    | "k = 9" "p ! 0 = 0xff" "v = Some w8" "\<not> n < 9" "\<not> w8 < 0x100000000"
    | "k = 1" "v = Some (ucast (p ! 0))" "p ! 0 \<noteq> 0xfd" "p ! 0 \<noteq> 0xfe" "p ! 0 \<noteq> 0xff" "0 < n"
    using assms(1,2) unfolding bigsize_get_eq [OF assms(3)] w2_def w4_def w8_def Let_def
    by (auto split: if_splits)
  then show ?thesis
  proof cases
    case 1
    then show ?thesis using b2 hd [OF ne] by (simp add: bigsize_put_eq)
  next
    case 2
    then have "\<not> w4 < 0xfd" "\<not> w4 \<le> 0xffff" by (simp_all add: word_less_nat_alt word_le_nat_alt)
    with 2 show ?thesis using b4 hd [OF ne] by (simp add: bigsize_put_eq)
  next
    case 3
    then have "\<not> w8 < 0xfd" "\<not> w8 \<le> 0xffff" "\<not> w8 \<le> 0xffffffff"
      by (simp_all add: word_less_nat_alt word_le_nat_alt)
    with 3 show ?thesis using b8 hd [OF ne] by (simp add: bigsize_put_eq)
  next
    case 4
    then show ?thesis using b0 u0 hd [OF ne] by (simp add: bigsize_put_eq)
  qed
qed

interpretation bigsize: canonical_code bigsize_put bigsize_len bigsize_get
  by unfold_locales (auto simp: bigsize_put_length bigsize_get_of_put bigsize_len_def dest: bigsize_put_of_get)

section \<open>Properties\<close>

text \<open>C35: \<open>bigsize_get\<close> accepts exactly the shortest encodings: on a buffer of at least \<open>n\<close> bytes it consumes
  \<open>k\<close> bytes and returns \<open>v\<close> if and only if the buffer starts with what \<open>bigsize_put\<close> writes for
  \<open>v\<close>, and those \<open>k\<close> bytes are within the first \<open>n\<close>.\<close>

theorem bigsize_get_canonical:
  assumes "n \<le> length p" "0 < k"
  shows "bigsize_get p n = (k, Some v) \<longleftrightarrow>
    k = length (bigsize_put v) \<and> k \<le> n \<and> take k p = bigsize_put v"
  using bigsize.get_iff [OF assms, of v] bigsize_put_length [of v]
  by (metis append_eq_conv_conj append_take_drop_id)

theorem bigsize_get_canonical_witness:
  "bigsize_get [0xfd, 1, 0, 9] 4 = (3, Some 0x100) \<longleftrightarrow>
    (3::nat) = length (bigsize_put 0x100) \<and> (3::nat) \<le> 4 \<and> take 3 [0xfd, 1, 0, 9] = bigsize_put 0x100"
  by (rule bigsize_get_canonical) simp_all

text \<open>Encodings are self-delimiting: two sequences of values with the same bytes on the wire are the same
  sequence, and a value is read back whatever follows it.\<close>

theorem bigsize_self_delimiting:
  "(concat (map bigsize_put vs) = concat (map bigsize_put ws) \<longleftrightarrow> vs = ws) \<and>
   bigsize_get (bigsize_put v @ r) (length (bigsize_put v) + n) = (bigsize_len v, Some v)"
  using bigsize.concat_put_inject [of vs ws] bigsize_get_of_put [of v "length (bigsize_put v) + n" r]
  by (simp add: bigsize_put_length)

end
