(* ===== verification/Messages.thy ===== *)
theory Messages
  imports Bigsize
begin

text \<open>
  The message builders of \<open>lnsocket.c\<close> and \<open>commando.c\<close>, and its small parsers (hexadecimal
  node ids, \<open>host:port\<close>, feature bits). A builder gets a buffer \<open>buf\<close> of \<open>buflen\<close> bytes in
  memory and returns how many bytes it wrote, 0 on failure. The abstract view of a builder is
  the list of the fields of the message; the interface between the two is \<open>byte_sink\<close>.
\<close>

section \<open>Message types\<close>

definition WIRE_INIT :: u16 where "WIRE_INIT = 16"
definition WIRE_PING :: u16 where "WIRE_PING = 18"
definition WIRE_PONG :: u16 where "WIRE_PONG = 19"
definition COMMANDO_CMD :: u16 where "COMMANDO_CMD = 0x4c4f"
definition COMMANDO_REPLY_CONTINUES :: u16 where "COMMANDO_REPLY_CONTINUES = 0x594b"
definition COMMANDO_REPLY_TERM :: u16 where "COMMANDO_REPLY_TERM = 0x594d"

section \<open>TLV fields\<close>

record tlv =
  tlv_type :: u64
  tlv_length :: nat
  tlv_value :: addr

definition cursor_push_tlv :: "cursor \<Rightarrow> tlv \<Rightarrow> mem \<Rightarrow> (bool \<times> cursor \<times> mem) option" where
  "cursor_push_tlv cur tlv m =
     c_and (cursor_push_bigsize cur (tlv_type tlv) m) (\<lambda>(cur, m).
     c_and (cursor_push_bigsize cur (of_nat (tlv_length tlv)) m) (\<lambda>(cur, m).
     cursor_push cur (mread m (tlv_value tlv) (tlv_length tlv)) (c_int (tlv_length tlv)) m))"

fun cursor_push_tlvs :: "cursor \<Rightarrow> tlv list \<Rightarrow> mem \<Rightarrow> (bool \<times> cursor \<times> mem) option" where
  "cursor_push_tlvs cur [] m = Some (True, cur, m)"
| "cursor_push_tlvs cur (t # ts) m =
     c_and (cursor_push_tlv cur t m) (\<lambda>(cur, m). cursor_push_tlvs cur ts m)"

text \<open>The loop over the block ids, each at an address.\<close>

fun push_blockids :: "cursor \<Rightarrow> addr list \<Rightarrow> mem \<Rightarrow> (bool \<times> cursor \<times> mem) option" where
  "push_blockids cur [] m = Some (True, cur, m)"
| "push_blockids cur (b # bs) m =
     c_and (cursor_push cur (mread m b 32) 32 m) (\<lambda>(cur, m). push_blockids cur bs m)"

text \<open>\<open>tlv_out\<close> may be null; its type and value are set even when the function fails.\<close>

definition lnsocket_make_network_tlv ::
  "addr \<Rightarrow> nat \<Rightarrow> addr list \<Rightarrow> tlv option \<Rightarrow> mem \<Rightarrow> (bool \<times> tlv option \<times> mem) option" where
  "lnsocket_make_network_tlv buf buflen blockids tlv_out m =
     (case tlv_out of
        None \<Rightarrow> Some (False, None, m)
      | Some t \<Rightarrow> do {
          let t = t\<lparr>tlv_type := 1\<rparr>;
          let t = t\<lparr>tlv_value := buf\<rparr>;
          let cur = make_cursor buf (buf + buflen);
          (ok, cur, m) \<leftarrow> push_blockids cur blockids m;
          if \<not> ok then Some (False, Some t, m)
          else Some (True, Some (t\<lparr>tlv_length := c_p cur - c_start cur\<rparr>), m) })"

section \<open>Ping and pong\<close>

definition lnsocket_make_pong_msg :: "byte_order \<Rightarrow> addr \<Rightarrow> nat \<Rightarrow> u16 \<Rightarrow> mem \<Rightarrow> (nat \<times> mem) option" where
  "lnsocket_make_pong_msg bo buf buflen num_pong_bytes m = do {
     let msg = make_cursor buf (buf + buflen);
     (ok, msg, m) \<leftarrow> cursor_push_u16 bo msg WIRE_PONG m;
     if \<not> ok then Some (0, m)
     else do {
       let num_pong_bytes = (if num_pong_bytes \<le> 4 then 0 else num_pong_bytes - 4);
       (ok, msg, m) \<leftarrow> cursor_push_u16 bo msg num_pong_bytes m;
       if \<not> ok then Some (0, m)
       else if c_p msg + unat num_pong_bytes > c_end msg then Some (0, m)
       else do {
         let m = mwrite m (c_p msg) (replicate (unat num_pong_bytes) 0);
         let msg = msg\<lparr>c_p := c_p msg + unat num_pong_bytes\<rparr>;
         Some (c_p msg - c_start msg, m) } } }"

definition lnsocket_decode_ping_payload :: "byte_order \<Rightarrow> addr \<Rightarrow> nat \<Rightarrow> mem \<Rightarrow> u16 option option" where
  "lnsocket_decode_ping_payload bo payload payload_len m = do {
     let msg = make_cursor payload (payload + payload_len);
     (r, msg) \<leftarrow> cursor_pull_u16 bo msg m;
     Some r }"

definition lnsocket_make_pong_from_ping ::
  "byte_order \<Rightarrow> addr \<Rightarrow> nat \<Rightarrow> addr \<Rightarrow> nat \<Rightarrow> mem \<Rightarrow> (nat \<times> mem) option" where
  "lnsocket_make_pong_from_ping bo buf buflen ping ping_len m = do {
     r \<leftarrow> lnsocket_decode_ping_payload bo ping ping_len m;
     case r of
       None \<Rightarrow> Some (0, m)
     | Some pong_bytes \<Rightarrow> lnsocket_make_pong_msg bo buf buflen pong_bytes m }"

text \<open>The loop \<open>for (i = 0; i < ignored_bytes; i++)\<close> of \<open>lnsocket_make_ping_msg\<close>.\<close>

fun push_ignored :: "nat \<Rightarrow> cursor \<Rightarrow> mem \<Rightarrow> bool \<times> cursor \<times> mem" where
  "push_ignored 0 msg m = (True, msg, m)"
| "push_ignored (Suc n) msg m =
     (case cursor_push_byte msg 0 m of
        (ok, msg, m) \<Rightarrow> if ok then push_ignored n msg m else (False, msg, m))"

definition lnsocket_make_ping_msg ::
  "byte_order \<Rightarrow> addr \<Rightarrow> nat \<Rightarrow> u16 \<Rightarrow> u16 \<Rightarrow> mem \<Rightarrow> (nat \<times> mem) option" where
  "lnsocket_make_ping_msg bo buf buflen num_pong_bytes ignored_bytes m = do {
     let msg = make_cursor buf (buf + buflen);
     (ok, msg, m) \<leftarrow> cursor_push_u16 bo msg WIRE_PING m;
     if \<not> ok then Some (0, m) else do {
     (ok, msg, m) \<leftarrow> cursor_push_u16 bo msg num_pong_bytes m;
     if \<not> ok then Some (0, m) else do {
     (ok, msg, m) \<leftarrow> cursor_push_u16 bo msg ignored_bytes m;
     if \<not> ok then Some (0, m) else do {
     let (ok, msg, m) = push_ignored (unat ignored_bytes) msg m;
     if \<not> ok then Some (0, m) else Some (c_p msg - c_start msg, m) } } } }"

section \<open>Init\<close>

text \<open>The result is \<open>*outlen\<close> when the function returns 1.\<close>

definition lnsocket_make_init_msg ::
  "byte_order \<Rightarrow> addr \<Rightarrow> nat \<Rightarrow> bytes \<Rightarrow> u16 \<Rightarrow> bytes \<Rightarrow> u16 \<Rightarrow> tlv list \<Rightarrow> mem
    \<Rightarrow> (u16 option \<times> mem) option" where
  "lnsocket_make_init_msg bo buf buflen globalfeatures gflen features flen tlvs m = do {
     let msg = make_cursor buf (buf + buflen);
     (ok, msg, m) \<leftarrow> cursor_push_u16 bo msg WIRE_INIT m;
     if \<not> ok then Some (None, m) else do {
     (ok, msg, m) \<leftarrow> cursor_push_u16 bo msg gflen m;
     if \<not> ok then Some (None, m) else do {
     (ok, msg, m) \<leftarrow> cursor_push msg globalfeatures (uint gflen) m;
     if \<not> ok then Some (None, m) else do {
     (ok, msg, m) \<leftarrow> cursor_push_u16 bo msg flen m;
     if \<not> ok then Some (None, m) else do {
     (ok, msg, m) \<leftarrow> cursor_push msg features (uint flen) m;
     if \<not> ok then Some (None, m) else do {
     (ok, msg, m) \<leftarrow> cursor_push_tlvs msg tlvs m;
     if \<not> ok then Some (None, m)
     else Some (Some (of_nat (c_p msg - c_start msg)), m) } } } } } }"

definition lnsocket_make_default_initmsg :: "byte_order \<Rightarrow> addr \<Rightarrow> nat \<Rightarrow> mem \<Rightarrow> (nat \<times> mem) option" where
  "lnsocket_make_default_initmsg bo msgbuf buflen m = do {
     let global_features = replicate 2 0;
     let features = replicate 5 0;
     (r, m) \<leftarrow> lnsocket_make_init_msg bo msgbuf buflen
        global_features (of_nat (length global_features)) features (of_nat (length features)) [] m;
     case r of None \<Rightarrow> Some (0, m) | Some len \<Rightarrow> Some (unat len, m) }"

section \<open>Commando\<close>

definition commando_make_rpc_msg ::
  "byte_order \<Rightarrow> bytes \<Rightarrow> bytes option \<Rightarrow> bytes \<Rightarrow> u32 \<Rightarrow> addr \<Rightarrow> nat \<Rightarrow> mem \<Rightarrow> (nat \<times> mem) option" where
  "commando_make_rpc_msg bo method params rune req_id buf buflen m = do {
     let msgbuf = make_cursor buf (buf + buflen);
     let params = (if params = None \<or> params = Some [] then ascii ''[]'' else the params);
     (ok, msgbuf, m) \<leftarrow> cursor_push_u16 bo msgbuf COMMANDO_CMD m;
     if \<not> ok then Some (0, m) else do {
     (ok, msgbuf, m) \<leftarrow> cursor_push_u64 bo msgbuf (ucast req_id) m;
     if \<not> ok then Some (0, m) else do {
     (ok, msgbuf, m) \<leftarrow>
       c_and (cursor_push_str msgbuf (ascii ''{\"method\":\"'') m) (\<lambda>(msgbuf, m).
       c_and (cursor_push_str msgbuf method m) (\<lambda>(msgbuf, m).
       c_and (cursor_push_str msgbuf (ascii ''\",\"params\":'') m) (\<lambda>(msgbuf, m).
       c_and (cursor_push_str msgbuf params m) (\<lambda>(msgbuf, m).
       c_and (cursor_push_str msgbuf (ascii '',\"rune\":\"'') m) (\<lambda>(msgbuf, m).
       c_and (cursor_push_str msgbuf rune m) (\<lambda>(msgbuf, m).
       cursor_push_str msgbuf (ascii ''\",\"id\":\"d0\",\"jsonrpc\":\"2.0\"}'') m))))));
     if \<not> ok then Some (0, m) else Some (c_p msgbuf - c_start msgbuf, m) } } }"

section \<open>Feature bits\<close>

text \<open>The loop of \<open>highest_byte\<close>, at index \<open>i\<close>.\<close>

fun highest_byte_loop :: "nat \<Rightarrow> nat \<Rightarrow> bytes \<Rightarrow> nat" where
  "highest_byte_loop i highest [] = highest"
| "highest_byte_loop i highest (b # bs) = highest_byte_loop (i + 1) (if b \<noteq> 0 then i else highest) bs"

definition highest_byte :: "bytes \<Rightarrow> nat" where
  "highest_byte buf = highest_byte_loop 0 0 buf"

text \<open>
  The buffer has \<open>length buf\<close> bytes, and the caller's \<open>newlen\<close> is not null. The result is \<open>*newlen\<close> and the buffer, or \<open>None\<close> when
  the function returns 0.
\<close>

definition lnsocket_set_feature_bit :: "bytes \<Rightarrow> nat \<Rightarrow> (nat \<times> bytes) option" where
  "lnsocket_set_feature_bit buf b =
     (if b div 8 \<ge> length buf then None
      else (let newlen = max (highest_byte buf) (b div 8 + 1);
                i = newlen - 1 - b div 8
            in Some (newlen, buf[i := buf ! i OR ucast (push_bit (b mod 8) 1 :: u32)])))"

section \<open>Text\<close>

definition char_to_hex :: "u8 \<Rightarrow> u8 option" where
  "char_to_hex c =
     (if c \<ge> 48 \<and> c \<le> 57 then Some (c - 48)
      else if c \<ge> 97 \<and> c \<le> 102 then Some (c - 97 + 10)
      else if c \<ge> 65 \<and> c \<le> 70 then Some (c - 65 + 10)
      else None)"

text \<open>\<open>slen\<close> is the length of the list. The bytes are those written to the buffer.\<close>

fun hex_decode :: "bytes \<Rightarrow> nat \<Rightarrow> bool \<times> bytes" where
  "hex_decode (a # b # str) bufsize =
     (case (char_to_hex a, char_to_hex b) of
        (Some v1, Some v2) \<Rightarrow>
          (if bufsize = 0 then (False, [])
           else (case hex_decode str (bufsize - 1) of
                   (ok, out) \<Rightarrow> (ok, (push_bit 4 v1 OR v2) # out)))
      | _ \<Rightarrow> (False, []))"
| "hex_decode str bufsize = (length str = 0 \<and> bufsize = 0, [])"

definition parse_node_id :: "bytes \<Rightarrow> bool \<times> bytes" where
  "parse_node_id str = hex_decode str 33"

fun is_zero :: "bytes \<Rightarrow> bool" where
  "is_zero [] = True"
| "is_zero (b # bs) = (if b \<noteq> 0 then False else is_zero bs)"

text \<open>
  \<open>parse_port\<close> cuts the string at its first colon, and returns what follows. The result is the
  string left in \<open>host\<close>, and the port.
\<close>

fun parse_port :: "bytes \<Rightarrow> bytes \<times> bytes option" where
  "parse_port [] = ([], None)"
| "parse_port (c # cs) =
     (if c = 58 then ([], Some cs)
      else (case parse_port cs of (host, port) \<Rightarrow> (c # host, port)))"

section \<open>Builders as lists of fields\<close>

lemma push_u16_sink: "cursor_push_u16 bo c i m = cursor_sink (c, m) (be_bytes 2 i)"
  by (simp add: cursor_push_u16_eq)

lemma push_u64_sink: "cursor_push_u64 bo c i m = cursor_sink (c, m) (be_bytes 8 i)"
  by (simp add: cursor_push_u64_eq)

lemma push_str_sink: "cursor_push_str c str m = cursor_sink (c, m) str"
  by (simp add: cursor_push_str_def)

lemma push_bigsize_sink: "cursor_push_bigsize c v m = cursor_sink (c, m) (bigsize_put v)"
  by (simp add: cursor_push_bigsize_def Let_def)

lemma push_sized_sink: "unat n = length d \<Longrightarrow> cursor_push c d (uint (n :: u16)) m = cursor_sink (c, m) d"
proof -
  assume n: "unat n = length d"
  have "unat n < 2 ^ LENGTH(16)" by (rule unsigned_less)
  then have "length d < 2 ^ 31" using n by simp
  then have "c_int (length d) = uint n" using c_int_small n by (metis uint_nat)
  then show ?thesis by simp
qed

lemma cursor_sink_alt: "cursor_sink s d = cursor_push (fst s) d (c_int (length d)) (snd s)"
  by (cases s) simp

text \<open>The builders return early, with \<open>z\<close>, when a push fails; \<open>built z f r\<close> is that on the result \<open>r\<close>.\<close>

definition built :: "'b \<Rightarrow> (cursor \<Rightarrow> mem \<Rightarrow> ('b \<times> mem) option) \<Rightarrow> (bool \<times> cursor \<times> mem) option \<Rightarrow> ('b \<times> mem) option" where
  "built z f r = (case r of None \<Rightarrow> None | Some (ok, c, m) \<Rightarrow> if ok then f c m else Some (z, m))"

lemma built_last:
  "(r \<bind> (\<lambda>(ok, c, m). if \<not> ok then Some (z, m) else f c m)) = built z f r"
  by (cases r) (auto simp: built_def)

lemma built_step: "built z (\<lambda>c m. built z f (g c m)) r = built z f (c_and r (\<lambda>(c, m). g c m))"
  by (cases r) (auto simp: built_def c_and_def)

definition wrote :: "addr \<Rightarrow> nat \<Rightarrow> bytes \<Rightarrow> mem \<Rightarrow> mem \<Rightarrow> bool" where
  "wrote buf buflen bs m m' \<longleftrightarrow> mread m' buf (length bs) = bs \<and>
     (\<forall>a. a < buf \<or> buf + buflen \<le> a \<longrightarrow> m' a = m a)"

lemma built_fields:
  fixes buf buflen :: nat and m :: mem
  assumes "length (concat ds) < 2 ^ 31" "ds \<noteq> []"
  defines "s \<equiv> (make_cursor buf (buf + buflen), m)"
  shows "if length (concat ds) < buflen
    then \<exists>m'. built z f (push_all cursor_sink s ds) =
        f ((make_cursor buf (buf + buflen))\<lparr>c_p := buf + length (concat ds)\<rparr>) m' \<and> wrote buf buflen (concat ds) m m'
    else \<exists>m'. built z f (push_all cursor_sink s ds) = Some (z, m') \<and> wrote buf buflen [] m m'"
proof -
  have ok: "case s of (c, m) \<Rightarrow> cursor_ok c" by (simp add: s_def cursor_ok_def make_cursor_def)
  have room: "cursor_room s = buflen" by (simp add: s_def make_cursor_def)
  show ?thesis
  proof (cases "length (concat ds) < buflen")
    case True
    then obtain s' where s': "push_all cursor_sink s ds = Some (True, s')" "cursor_content s' = cursor_content s @ concat ds"
        "case s' of (c, m) \<Rightarrow> cursor_ok c" "cursor_keeps s s'"
      using sink.push_all_fits [OF ok assms(1)] unfolding room by blast
    obtain c' m' where c': "s' = (c', m')" by (cases s')
    have c: "c_start c' = buf" "c_end c' = buf + buflen" "\<forall>a. a < buf \<or> buf + buflen \<le> a \<longrightarrow> m' a = m a"
      using s'(4) by (auto simp: c' s_def make_cursor_def)
    have content: "mread m' buf (c_p c' - buf) = concat ds"
      using s'(2) c(1) by (simp add: c' s_def make_cursor_def)
    then have "c_p c' - buf = length (concat ds)" by (metis length_mread)
    moreover have "buf \<le> c_p c'" using s'(3) c(1) by (simp add: c' cursor_ok_def)
    ultimately have "c' = (make_cursor buf (buf + buflen))\<lparr>c_p := buf + length (concat ds)\<rparr>"
      using c by (intro cursor.equality) (simp_all add: make_cursor_def)
    then show ?thesis using True s'(1) c(3) content \<open>c_p c' - buf = length (concat ds)\<close>
      by (auto simp: c' built_def wrote_def)
  next
    case False
    then obtain s' where s': "push_all cursor_sink s ds = Some (False, s')" "cursor_keeps s s'"
      using sink.push_all_full [OF ok assms(1,2)] unfolding room by auto
    then show ?thesis unfolding if_not_P [OF False]
      by (cases s') (auto simp: built_def wrote_def s_def make_cursor_def)
  qed
qed

section \<open>TLV\<close>

definition tlv_fields :: "mem \<Rightarrow> tlv \<Rightarrow> bytes list" where
  "tlv_fields m t = [bigsize_put (tlv_type t), bigsize_put (of_nat (tlv_length t)), mread m (tlv_value t) (tlv_length t)]"

lemma push_tlv_fields:
  assumes "cursor_ok c" "tlv_value t + tlv_length t \<le> c_start c \<or> c_end c \<le> tlv_value t"
  shows "cursor_push_tlv c t m = push_all cursor_sink (c, m) (tlv_fields m t)"
proof -
  have 1: "mread m' (tlv_value t) (tlv_length t) = mread m (tlv_value t) (tlv_length t)"
    if "cursor_keeps (c, m) (c', m')" for c' m'
    using that assms(2) by (intro mread_eqI) auto
  have ok: "case (c, m) of (c, m) \<Rightarrow> cursor_ok c" using assms(1) by simp
  have "c_and (cursor_sink s (bigsize_put (of_nat (tlv_length t)))) (\<lambda>(cur, m').
      cursor_sink (cur, m') (mread m' (tlv_value t) (tlv_length t))) =
    c_and (cursor_sink s (bigsize_put (of_nat (tlv_length t)))) (\<lambda>s.
      cursor_sink s (mread m (tlv_value t) (tlv_length t)))"
    if s: "case s of (c, m) \<Rightarrow> cursor_ok c" "cursor_keeps (c, m) s" for s
  proof (cases "cursor_sink s (bigsize_put (of_nat (tlv_length t)))")
    case (Some r)
    obtain b c' m' where r: "r = (b, c', m')" by (cases r)
    have "cursor_keeps (c, m) (c', m')"
      using sink.push_keeps [OF s(1)] sink.keeps_trans [OF s(2)] Some r by blast
    note 1 [OF this]
    then show ?thesis unfolding Some r by (cases b) simp_all
  qed simp
  note 2 = this
  have e1: "c_and (cursor_sink (c, m) (bigsize_put (tlv_type t))) (\<lambda>s. c_and (cursor_sink s (bigsize_put (of_nat (tlv_length t)))) (\<lambda>(cur, m').
      cursor_sink (cur, m') (mread m' (tlv_value t) (tlv_length t)))) =
    c_and (cursor_sink (c, m) (bigsize_put (tlv_type t))) (\<lambda>s. c_and (cursor_sink s (bigsize_put (of_nat (tlv_length t)))) (\<lambda>s.
      cursor_sink s (mread m (tlv_value t) (tlv_length t))))"
  proof (cases "cursor_sink (c, m) (bigsize_put (tlv_type t))")
    case (Some r)
    obtain b s' where r: "r = (b, s')" by (cases r)
    have "(case s' of (c, m) \<Rightarrow> cursor_ok c)" "cursor_keeps (c, m) s'"
      using sink.push_keeps [OF ok] Some r by blast+
    then show ?thesis using Some r 2 [of s'] by (cases b) simp_all
  qed simp
  have e2: "c_and r (\<lambda>s. Some (True, s)) = r" for r :: "(bool \<times> cursor_state) option"
    by (cases r) (auto simp: c_and_def)
  have "cursor_push_tlv c t m =
    c_and (cursor_sink (c, m) (bigsize_put (tlv_type t))) (\<lambda>s. c_and (cursor_sink s (bigsize_put (of_nat (tlv_length t)))) (\<lambda>(cur, m').
      cursor_sink (cur, m') (mread m' (tlv_value t) (tlv_length t))))"
    by (simp add: cursor_push_tlv_def cursor_push_bigsize_def cursor_sink_alt Let_def case_prod_unfold)
  then show ?thesis unfolding tlv_fields_def push_all.simps e1 e2 .
qed

lemma push_tlvs_fields:
  assumes "cursor_ok c" "\<forall>t \<in> set ts. tlv_value t + tlv_length t \<le> c_start c \<or> c_end c \<le> tlv_value t"
  shows "cursor_push_tlvs c ts m = push_all cursor_sink (c, m) (concat (map (tlv_fields m) ts))"
  using assms
proof (induction ts arbitrary: c m)
  case Nil
  then show ?case by simp
next
  case (Cons t ts)
  have ok: "case (c, m) of (c, m) \<Rightarrow> cursor_ok c" using Cons.prems(1) by simp
  have t: "cursor_push_tlv c t m = push_all cursor_sink (c, m) (tlv_fields m t)"
    using Cons.prems by (intro push_tlv_fields) auto
  show ?case
  proof (cases "push_all cursor_sink (c, m) (tlv_fields m t)")
    case None
    then show ?thesis using t by (simp add: push_all_append)
  next
    case (Some r)
    obtain b c' m' where r: "r = (b, c', m')" by (cases r)
    have k: "cursor_ok c'" "cursor_keeps (c, m) (c', m')"
      using sink.push_all_keeps [OF ok] Some r by blast+
    have "tlv_fields m' t' = tlv_fields m t'" if "t' \<in> set ts" for t'
      using Cons.prems(2) k(2) that unfolding tlv_fields_def
      by (auto intro!: mread_eqI) 
    then have e: "map (tlv_fields m') ts = map (tlv_fields m) ts" by simp
    have "cursor_push_tlvs c' ts m' = push_all cursor_sink (c', m') (concat (map (tlv_fields m') ts))"
      using Cons.prems(2) k by (intro Cons.IH) auto
    note this [unfolded e]
    then show ?thesis using t Some r by (cases b) (simp_all add: push_all_append)
  qed
qed

section \<open>The messages\<close>

definition init_fields :: "mem \<Rightarrow> bytes \<Rightarrow> bytes \<Rightarrow> tlv list \<Rightarrow> bytes list" where
  "init_fields m gf f tlvs =
     [be_bytes 2 WIRE_INIT, be_bytes 2 (of_nat (length gf) :: u16), gf, be_bytes 2 (of_nat (length f) :: u16), f]
     @ concat (map (tlv_fields m) tlvs)"

lemma uint_c_int: "length d < 2 ^ 16 \<Longrightarrow> uint (of_nat (length d) :: u16) = c_int (length d)"
  by (simp add: c_int_small unsigned_of_nat take_bit_nat_eq_self uint_nat)

lemma make_init_msg_fields:
  assumes "length gf < 2 ^ 16" "length f < 2 ^ 16"
    and "\<forall>t \<in> set tlvs. tlv_value t + tlv_length t \<le> buf \<or> buf + buflen \<le> tlv_value t"
  shows "lnsocket_make_init_msg bo buf buflen gf (of_nat (length gf)) f (of_nat (length f)) tlvs m =
    built None (\<lambda>c m. Some (Some (of_nat (c_p c - c_start c)), m))
      (push_all cursor_sink (make_cursor buf (buf + buflen), m) (init_fields m gf f tlvs))"
proof -
  let ?c = "make_cursor buf (buf + buflen)"
  let ?hd = "[be_bytes 2 WIRE_INIT, be_bytes 2 (of_nat (length gf) :: u16), gf, be_bytes 2 (of_nat (length f) :: u16), f]"
  have ok: "case (?c, m) of (c, m) \<Rightarrow> cursor_ok c" by (simp add: cursor_ok_def make_cursor_def)
  have "c_and (push_all cursor_sink (?c, m) ?hd) (\<lambda>(c, m). cursor_push_tlvs c tlvs m) =
      c_and (push_all cursor_sink (?c, m) ?hd) (\<lambda>s. push_all cursor_sink s (concat (map (tlv_fields m) tlvs)))"
  proof (cases "push_all cursor_sink (?c, m) ?hd")
    case (Some r)
    obtain b c' m' where r: "r = (b, c', m')" by (cases r)
    have k: "cursor_ok c'" "cursor_keeps (?c, m) (c', m')"
      using sink.push_all_keeps [OF ok] Some r by blast+
    have e: "map (tlv_fields m') tlvs = map (tlv_fields m) tlvs"
      using assms(3) k(2) by (auto simp: tlv_fields_def make_cursor_def intro!: mread_eqI)
    have "cursor_push_tlvs c' tlvs m' = push_all cursor_sink (c', m') (concat (map (tlv_fields m') tlvs))"
      using assms(3) k by (intro push_tlvs_fields) (auto simp: make_cursor_def)
    note this [unfolded e]
    then show ?thesis unfolding Some r by (cases b) simp_all
  qed simp
  then have "push_all cursor_sink (?c, m) (init_fields m gf f tlvs) =
      c_and (push_all cursor_sink (?c, m) ?hd) (\<lambda>(c, m). cursor_push_tlvs c tlvs m)"
    unfolding init_fields_def push_all_append by simp
  then show ?thesis
    unfolding lnsocket_make_init_msg_def built_last Let_def
    by (simp add: built_step c_and_assoc uint_c_int [OF assms(1)] uint_c_int [OF assms(2)]
        cursor_push_u16_eq cursor_sink_alt case_prod_unfold)
qed

lemma make_init_msg_eq:
  assumes "length gf < 2 ^ 16" "length f < 2 ^ 16"
    and "\<forall>t \<in> set tlvs. tlv_value t + tlv_length t \<le> buf \<or> buf + buflen \<le> tlv_value t"
    and "length (concat (init_fields m gf f tlvs)) < 2 ^ 31"
  shows "\<exists>r m'. lnsocket_make_init_msg bo buf buflen gf (of_nat (length gf)) f (of_nat (length f)) tlvs m = Some (r, m') \<and>
    (if length (concat (init_fields m gf f tlvs)) < buflen
     then r = Some (of_nat (length (concat (init_fields m gf f tlvs)))) \<and>
       wrote buf buflen (concat (init_fields m gf f tlvs)) m m'
     else r = None \<and> wrote buf buflen [] m m')"
proof -
  have "init_fields m gf f tlvs \<noteq> []" by (simp add: init_fields_def)
  from built_fields [OF assms(4) this, where buf = buf and buflen = buflen and m = m and z = None
      and f = "\<lambda>c m. Some (Some (of_nat (c_p c - c_start c) :: u16), m)"]
  show ?thesis
    unfolding make_init_msg_fields [OF assms(1-3)]
    by (cases "length (concat (init_fields m gf f tlvs)) < buflen") (auto simp: make_cursor_def)
qed

text \<open>The default init message: no features, two and five bytes of them.\<close>

lemma make_default_initmsg_eq:
  "\<exists>m'. lnsocket_make_default_initmsg bo buf buflen m =
     Some (if 13 < buflen then 13 else 0, m') \<and>
     wrote buf buflen (if 13 < buflen then [0, 16, 0, 2, 0, 0, 0, 5, 0, 0, 0, 0, 0] else []) m m'"
proof -
  have fs: "concat (init_fields m (replicate 2 0) (replicate 5 0) []) = [0, 16, 0, 2, 0, 0, 0, 5, 0, 0, 0, 0, 0]"
  proof -
    have "replicate 2 (0 :: u8) = [0, 0]" "replicate 5 (0 :: u8) = [0, 0, 0, 0, 0]" by (simp_all add: numeral_eq_Suc)
    then show ?thesis by (simp add: init_fields_def WIRE_INIT_def be_bytes_234)
  qed
  then have len: "length (concat (init_fields m (replicate 2 0) (replicate 5 0) [])) = 13" by simp
  obtain r m' where r: "lnsocket_make_init_msg bo buf buflen (replicate 2 0) (of_nat (length (replicate 2 (0 :: u8))))
      (replicate 5 0) (of_nat (length (replicate 5 (0 :: u8)))) [] m = Some (r, m')"
    "if 13 < buflen then r = Some 13 \<and> wrote buf buflen [0, 16, 0, 2, 0, 0, 0, 5, 0, 0, 0, 0, 0] m m'
     else r = None \<and> wrote buf buflen [] m m'"
    using make_init_msg_eq [of "replicate 2 0" "replicate 5 0" "[]" buf buflen m bo] unfolding fs by auto
  then show ?thesis
    by (cases "13 < buflen") (simp_all add: lnsocket_make_default_initmsg_def Let_def)
qed

text \<open>The last part of a ping or a pong: \<open>n\<close> zero bytes, up to the end of the buffer.\<close>

lemma wrote_more:
  assumes "wrote buf buflen bs m m'" "length bs + length ds \<le> buflen"
  shows "wrote buf buflen (bs @ ds) m (mwrite m' (buf + length bs) ds)"
  using assms by (auto simp: wrote_def mread_add mem_simps)

definition pong_size :: "u16 \<Rightarrow> nat" where
  "pong_size num = (if num \<le> 4 then 0 else unat num - 4)"

lemma make_pong_msg_eq:
  fixes num :: u16
  defines "n \<equiv> pong_size num"
  shows "\<exists>m'. lnsocket_make_pong_msg bo buf buflen num m =
      Some (if 4 < buflen \<and> 4 + n \<le> buflen then 4 + n else 0, m') \<and>
    wrote buf buflen (if 4 < buflen \<and> 4 + n \<le> buflen
      then [0, 19] @ be_bytes 2 (of_nat n :: u16) @ replicate n 0 else []) m m'"
proof -
  let ?num = "if num \<le> 4 then 0 else num - 4"
  have n: "unat ?num = n" by (simp add: n_def pong_size_def word_le_nat_alt unat_sub)
  have num: "?num = of_nat n" unfolding n [symmetric] by simp
  let ?fs = "[be_bytes 2 WIRE_PONG, be_bytes 2 ?num]"
  have fs: "concat ?fs = [0, 19] @ be_bytes 2 (of_nat n :: u16)"
    unfolding num by (simp add: WIRE_PONG_def be_bytes_234)
  define f where "f = (\<lambda>(c :: cursor) (m :: mem). if c_p c + n > c_end c then Some (0, m)
      else Some (c_p (c\<lparr>c_p := c_p c + n\<rparr>) - c_start (c\<lparr>c_p := c_p c + n\<rparr>), mwrite m (c_p c) (replicate n 0)))"
  have def_eq: "lnsocket_make_pong_msg bo buf buflen num m =
      built 0 f (push_all cursor_sink (make_cursor buf (buf + buflen), m) ?fs)"
    unfolding lnsocket_make_pong_msg_def built_last Let_def f_def n
    by (simp add: built_step cursor_push_u16_eq cursor_sink_alt case_prod_unfold)
  show ?thesis
  proof (cases "4 < buflen")
    case True
    then obtain m' where m': "lnsocket_make_pong_msg bo buf buflen num m =
        f ((make_cursor buf (buf + buflen))\<lparr>c_p := buf + 4\<rparr>) m'" "wrote buf buflen (concat ?fs) m m'"
      using built_fields [of ?fs buflen 0 f buf m] unfolding def_eq fs by auto
    show ?thesis
    proof (cases "4 + n \<le> buflen")
      case fits: True
      have "wrote buf buflen (concat ?fs @ replicate n 0) m (mwrite m' (buf + 4) (replicate n 0))"
        using wrote_more [OF m'(2), of "replicate n 0"] fits unfolding fs by simp
      note this [unfolded fs append_assoc]
      then show ?thesis using True fits m'(1) by (simp add: f_def make_cursor_def)
    next
      case False
      then show ?thesis using m' by (auto simp: f_def make_cursor_def wrote_def)
    qed
  next
    case False
    then show ?thesis using built_fields [of ?fs buflen 0 f buf m] unfolding def_eq fs by auto
  qed
qed

lemma push_ignored_eq:
  "c_p c \<le> c_end c \<Longrightarrow>
   \<exists>c' m'. push_ignored n c m = (c_p c + n \<le> c_end c, c', m') \<and> c_start c' = c_start c \<and>
     (c_p c + n \<le> c_end c \<longrightarrow> c_p c' = c_p c + n \<and> m' = mwrite m (c_p c) (replicate n 0)) \<and>
     (\<forall>a. a < c_p c \<or> c_end c \<le> a \<longrightarrow> m' a = m a)"
proof (induction n arbitrary: c m)
  case 0
  then show ?case by simp
next
  case (Suc n)
  show ?case
  proof (cases "c_p c + 1 \<le> c_end c")
    case True
    let ?c = "c\<lparr>c_p := c_p c + 1\<rparr>" and ?m = "mwrite m (c_p c) [0]"
    have w: "mwrite ?m (c_p c + 1) bs = mwrite m (c_p c) (0 # bs)" for bs
      using mwrite_mwrite_append [of m "c_p c" "[0]" bs] by simp
    obtain c' m' where IH: "push_ignored n ?c ?m = (c_p ?c + n \<le> c_end ?c, c', m')" "c_start c' = c_start ?c"
        "c_p ?c + n \<le> c_end ?c \<longrightarrow> c_p c' = c_p ?c + n \<and> m' = mwrite ?m (c_p ?c) (replicate n 0)"
        "\<forall>a. a < c_p ?c \<or> c_end ?c \<le> a \<longrightarrow> m' a = ?m a"
      using Suc.IH [of ?c ?m] True by auto
    have "m' a = m a" if "a < c_p c \<or> c_end c \<le> a" for a
      using IH(4) that True by (auto simp: mwrite_outside)
    then show ?thesis using IH(1-3) True w by (auto simp: cursor_push_byte_def)
  next
    case False
    then show ?thesis using Suc.prems by (simp add: cursor_push_byte_def)
  qed
qed

lemma make_ping_msg_eq:
  fixes ignored :: u16
  defines "n \<equiv> unat ignored"
  shows "\<exists>m'. lnsocket_make_ping_msg bo buf buflen num ignored m =
      Some (if 6 < buflen \<and> 6 + n \<le> buflen then 6 + n else 0, m') \<and>
    wrote buf buflen (if 6 < buflen \<and> 6 + n \<le> buflen
      then [0, 18] @ be_bytes 2 num @ be_bytes 2 ignored @ replicate n 0 else []) m m'"
proof -
  let ?fs = "[be_bytes 2 WIRE_PING, be_bytes 2 num, be_bytes 2 ignored]"
  have fs: "concat ?fs = [0, 18] @ be_bytes 2 num @ be_bytes 2 ignored"
    by (simp add: WIRE_PING_def be_bytes_234)
  define f where "f = (\<lambda>(c :: cursor) (m :: mem). case push_ignored n c m of (ok, c, m) \<Rightarrow>
      if \<not> ok then Some (0, m) else Some (c_p c - c_start c, m))"
  have def_eq: "lnsocket_make_ping_msg bo buf buflen num ignored m =
      built 0 f (push_all cursor_sink (make_cursor buf (buf + buflen), m) ?fs)"
    unfolding lnsocket_make_ping_msg_def built_last Let_def f_def n_def
    by (simp add: built_step cursor_push_u16_eq cursor_sink_alt case_prod_unfold)
  show ?thesis
  proof (cases "6 < buflen")
    case True
    let ?c = "(make_cursor buf (buf + buflen))\<lparr>c_p := buf + 6\<rparr>"
    obtain m1 where m1: "lnsocket_make_ping_msg bo buf buflen num ignored m = f ?c m1" "wrote buf buflen (concat ?fs) m m1"
      using True built_fields [of ?fs buflen 0 f buf m] unfolding def_eq fs by auto
    obtain c' m' where i: "push_ignored n ?c m1 = (6 + n \<le> buflen, c', m')" "c_start c' = buf"
        "6 + n \<le> buflen \<longrightarrow> c_p c' = buf + 6 + n \<and> m' = mwrite m1 (buf + 6) (replicate n 0)"
        "\<forall>a. a < buf + 6 \<or> buf + buflen \<le> a \<longrightarrow> m' a = m1 a"
      using push_ignored_eq [of ?c n m1] True by (auto simp: make_cursor_def)
    show ?thesis
    proof (cases "6 + n \<le> buflen")
      case fits: True
      have "wrote buf buflen (concat ?fs @ replicate n 0) m (mwrite m1 (buf + 6) (replicate n 0))"
        using wrote_more [OF m1(2), of "replicate n 0"] fits unfolding fs by simp
      note this [unfolded fs append_assoc]
      then show ?thesis using True fits m1(1) i by (simp add: f_def)
    next
      case False
      then show ?thesis using m1 i(1,4) by (auto simp: f_def wrote_def)
    qed
  next
    case False
    then show ?thesis using built_fields [of ?fs buflen 0 f buf m] unfolding def_eq fs by auto
  qed
qed

text \<open>The JSON of a commando request.\<close>

definition commando_json :: "bytes \<Rightarrow> bytes \<Rightarrow> bytes \<Rightarrow> bytes" where
  "commando_json method params rune =
     ascii ''{\"method\":\"'' @ method @ ascii ''\",\"params\":'' @ params @ ascii '',\"rune\":\"'' @ rune
     @ ascii ''\",\"id\":\"d0\",\"jsonrpc\":\"2.0\"}''"

definition commando_params :: "bytes option \<Rightarrow> bytes" where
  "commando_params params = (if params = None \<or> params = Some [] then ascii ''[]'' else the params)"

lemma commando_eq:
  fixes req_id :: u32 and rune meth :: bytes and params :: "bytes option"
  defines "msg \<equiv> be_bytes 2 COMMANDO_CMD @ be_bytes 8 (ucast req_id :: u64) @
    commando_json meth (commando_params params) rune"
  assumes "length msg < 2 ^ 31"
  shows "\<exists>m'. commando_make_rpc_msg bo meth params rune req_id buf buflen m =
      Some (if length msg < buflen then length msg else 0, m') \<and>
    wrote buf buflen (if length msg < buflen then msg else []) m m'"
proof -
  let ?fs = "[be_bytes 2 COMMANDO_CMD, be_bytes 8 (ucast req_id :: u64), ascii ''{\"method\":\"'', meth,
    ascii ''\",\"params\":'', commando_params params, ascii '',\"rune\":\"'', rune, ascii ''\",\"id\":\"d0\",\"jsonrpc\":\"2.0\"}'']"
  have fs: "concat ?fs = msg" by (simp add: msg_def commando_json_def del: ascii_simps)
  have def_eq: "commando_make_rpc_msg bo meth params rune req_id buf buflen m =
      built 0 (\<lambda>c m. Some (c_p c - c_start c, m)) (push_all cursor_sink (make_cursor buf (buf + buflen), m) ?fs)"
    unfolding commando_make_rpc_msg_def built_last Let_def commando_params_def [symmetric]
    by (simp add: built_step cursor_push_u16_eq cursor_push_u64_eq cursor_push_str_def cursor_sink_alt
        case_prod_unfold del: ascii_simps)
  show ?thesis
    using built_fields [of ?fs buflen 0 "\<lambda>c m. Some (c_p c - c_start c, m)" buf m] assms(2)
    unfolding def_eq fs by (cases "length msg < buflen") (auto simp: make_cursor_def)
qed

lemma push_blockids_fields:
  assumes "cursor_ok c" "\<forall>b \<in> set bs. b + 32 \<le> c_start c \<or> c_end c \<le> b"
  shows "push_blockids c bs m = push_all cursor_sink (c, m) (map (\<lambda>b. mread m b 32) bs)"
  using assms
proof (induction bs arbitrary: c m)
  case Nil
  then show ?case by simp
next
  case (Cons b bs)
  have ok: "case (c, m) of (c, m) \<Rightarrow> cursor_ok c" using Cons.prems(1) by simp
  have s: "cursor_push c (mread m b 32) 32 m = cursor_sink (c, m) (mread m b 32)" by (simp add: c_int_small)
  show ?case
  proof (cases "cursor_sink (c, m) (mread m b 32)")
    case None
    then show ?thesis unfolding push_blockids.simps list.map push_all.simps s by simp
  next
    case (Some r)
    obtain ok' c' m' where r: "r = (ok', c', m')" by (cases r)
    have k: "cursor_ok c'" "cursor_keeps (c, m) (c', m')"
      using sink.push_keeps [OF ok] Some r by blast+
    have e: "map (\<lambda>b. mread m' b 32) bs = map (\<lambda>b. mread m b 32) bs"
      using Cons.prems(2) k(2) by (auto intro!: mread_eqI)
    have "push_blockids c' bs m' = push_all cursor_sink (c', m') (map (\<lambda>b. mread m' b 32) bs)"
      using Cons.prems(2) k by (intro Cons.IH) auto
    note this [unfolded e]
    then show ?thesis unfolding push_blockids.simps list.map push_all.simps s Some r by (cases ok') simp_all
  qed
qed

section \<open>Hexadecimal\<close>

definition hex_digit :: "u8 \<Rightarrow> u8" where
  "hex_digit v = (if v < 10 then 48 + v else 87 + v)"

definition hex_encode :: "bytes \<Rightarrow> bytes" where
  "hex_encode bs = concat (map (\<lambda>b. [hex_digit (drop_bit 4 b), hex_digit (take_bit 4 b)]) bs)"

lemma char_to_hex_digit: "v < 16 \<Longrightarrow> char_to_hex (hex_digit v) = Some v"
proof -
  assume "v < 16"
  then have "unat v < 16" by (simp add: word_less_nat_alt)
  then have "unat v \<in> set [0..<16]" by simp
  then have "v \<in> of_nat ` set [0..<16]" by (intro image_eqI [where x = "unat v"]) simp_all
  then have "v = 0 \<or> v = 1 \<or> v = 2 \<or> v = 3 \<or> v = 4 \<or> v = 5 \<or> v = 6 \<or> v = 7 \<or> v = 8 \<or> v = 9 \<or> v = 10
      \<or> v = 11 \<or> v = 12 \<or> v = 13 \<or> v = 14 \<or> v = 15"
    unfolding upt_16 by simp
  then show ?thesis by (elim disjE) (simp_all add: char_to_hex_def hex_digit_def)
qed

lemma nibbles_less: "drop_bit 4 (b :: u8) < 16" "take_bit 4 (b :: u8) < 16"
proof -
  have "take_bit 4 (drop_bit 4 b) = drop_bit 4 b" "take_bit 4 (take_bit 4 b) = take_bit 4 b"
    by (rule bit_word_eqI, auto simp: bit_simps dest: bit_imp_le_length)+
  then show "drop_bit 4 b < 16" "take_bit 4 b < 16"
    using take_bit_word_self_iff [of 4 "drop_bit 4 b"] take_bit_word_self_iff [of 4 "take_bit 4 b"] by simp_all
qed

lemma hex_decode_encode:
  "hex_decode (hex_encode bs) (length bs) = (True, bs)"
proof (induction bs)
  case Nil
  then show ?case by (simp add: hex_encode_def)
next
  case (Cons b bs)
  have "push_bit 4 (drop_bit 4 b) OR take_bit 4 b = b"
    by (rule bit_word_eqI) (auto simp: bit_simps)
  moreover have "char_to_hex (hex_digit (drop_bit 4 b)) = Some (drop_bit 4 b)"
    "char_to_hex (hex_digit (take_bit 4 b)) = Some (take_bit 4 b)"
    using char_to_hex_digit nibbles_less by blast+
  ultimately show ?case using Cons by (simp add: hex_encode_def)
qed

lemma hex_decode_bounds:
  "hex_decode str n = (ok, out) \<Longrightarrow> length out \<le> n \<and>
     (ok \<longleftrightarrow> length str = 2 * n \<and> (\<forall>c \<in> set str. char_to_hex c \<noteq> None)) \<and> (ok \<longrightarrow> length out = n)"
proof (induction str n arbitrary: ok out rule: hex_decode.induct)
  case (1 a b str n)
  show ?case
  proof (cases "char_to_hex a = None \<or> char_to_hex b = None \<or> n = 0")
    case True
    then show ?thesis using 1(2) by (auto split: option.splits if_splits)
  next
    case False
    then obtain v1 v2 where v: "char_to_hex a = Some v1" "char_to_hex b = Some v2" "n \<noteq> 0" by auto
    obtain o' out' where r: "hex_decode str (n - 1) = (o', out')" by force
    then have "length out' \<le> n - 1 \<and> (o' \<longleftrightarrow> length str = 2 * (n - 1) \<and> (\<forall>c \<in> set str. char_to_hex c \<noteq> None))
        \<and> (o' \<longrightarrow> length out' = n - 1)"
      using 1(1) [OF refl v(1,2,3)] by blast
    moreover have "ok = o'" "out = (push_bit 4 v1 OR v2) # out'" using 1(2) v r by auto
    ultimately show ?thesis using v by auto
  qed
qed auto

section \<open>Feature bits, zero checks, ports\<close>

lemma highest_byte_loop_zero: "\<forall>b \<in> set bs. b = 0 \<Longrightarrow> highest_byte_loop i h bs = h"
  by (induction bs arbitrary: i) auto

lemma highest_byte_loop_less: "highest_byte_loop i h bs < max (Suc h) (i + length bs)"
proof (induction bs arbitrary: i h)
  case (Cons b bs)
  show ?case using Cons.IH [of "i + 1" "if b \<noteq> 0 then i else h"] by (auto split: if_splits simp: max_def)
qed simp

lemma set_feature_bit_zero:
  assumes "b div 8 < n"
  shows "lnsocket_set_feature_bit (replicate n 0) b =
    Some (b div 8 + 1, (replicate n 0)[0 := ucast (push_bit (b mod 8) 1 :: u32)])"
  using assms by (simp add: lnsocket_set_feature_bit_def highest_byte_def highest_byte_loop_zero)

lemma is_zero_iff: "is_zero bs \<longleftrightarrow> (\<forall>b \<in> set bs. b = 0)"
  by (induction bs) auto

lemma parse_port_eq:
  "parse_port s = (h, p) \<Longrightarrow> 58 \<notin> set h \<and> s = h @ (case p of None \<Rightarrow> [] | Some q \<Rightarrow> 58 # q)"
  by (induction s arbitrary: h) (auto split: if_splits prod.splits)

section \<open>Properties\<close>

text \<open>C31: The init message: \<open>lnsocket_make_init_msg\<close> writes the type 16, the two feature fields with their
  16-bit lengths, and the TLV fields with minimally encoded types and lengths, in this order,
  exactly when they leave a byte of room in the buffer, and returns their length; otherwise it
  fails. No byte outside the buffer changes.\<close>

theorem init_message_format:
  assumes "length gf < 2 ^ 16" "length f < 2 ^ 16"
    and "\<forall>t \<in> set tlvs. tlv_value t + tlv_length t \<le> buf \<or> buf + buflen \<le> tlv_value t"
    and "msg = [0, 16] @ be_bytes 2 (of_nat (length gf) :: u16) @ gf @ be_bytes 2 (of_nat (length f) :: u16) @ f @
      concat (map (\<lambda>t. bigsize_put (tlv_type t) @ bigsize_put (of_nat (tlv_length t)) @
        mread m (tlv_value t) (tlv_length t)) tlvs)"
    and "length msg < 2 ^ 31"
  shows "\<exists>m'. lnsocket_make_init_msg bo buf buflen gf (of_nat (length gf)) f (of_nat (length f)) tlvs m =
      Some (if length msg < buflen then Some (of_nat (length msg)) else None, m') \<and>
    (length msg < buflen \<longrightarrow> mread m' buf (length msg) = msg) \<and>
    (\<forall>a. a < buf \<or> buf + buflen \<le> a \<longrightarrow> m' a = m a)"
proof -
  have "concat (concat (map (tlv_fields m) tlvs)) = concat (map (\<lambda>t. bigsize_put (tlv_type t) @
      bigsize_put (of_nat (tlv_length t)) @ mread m (tlv_value t) (tlv_length t)) tlvs)"
    by (induction tlvs) (simp_all add: tlv_fields_def)
  then have msg: "concat (init_fields m gf f tlvs) = msg"
    by (simp add: init_fields_def assms(4) WIRE_INIT_def be_bytes_234)
  from make_init_msg_eq [OF assms(1-3), of m bo] assms(5) show ?thesis
    unfolding msg by (cases "length msg < buflen") (auto simp: wrote_def)
qed

theorem init_message_format_witness:
  "\<exists>m'. lnsocket_make_init_msg Big_Endian 100 50 [1] (of_nat (length [1 :: u8])) [2, 3] (of_nat (length [2, 3 :: u8]))
      [\<lparr>tlv_type = 1, tlv_length = 2, tlv_value = 10\<rparr>] (\<lambda>_. 9) =
      Some (if length [0, 16, 0, 1, 1, 0, 2, 2, 3, 1, 2, 9, 9 :: u8] < 50
        then Some (of_nat (length [0, 16, 0, 1, 1, 0, 2, 2, 3, 1, 2, 9, 9 :: u8])) else None, m') \<and>
    (length [0, 16, 0, 1, 1, 0, 2, 2, 3, 1, 2, 9, 9 :: u8] < 50 \<longrightarrow>
      mread m' 100 (length [0, 16, 0, 1, 1, 0, 2, 2, 3, 1, 2, 9, 9 :: u8]) = [0, 16, 0, 1, 1, 0, 2, 2, 3, 1, 2, 9, 9]) \<and>
    (\<forall>a. a < 100 \<or> 100 + 50 \<le> a \<longrightarrow> m' a = (\<lambda>_. 9) a)"
proof (rule init_message_format)
  have "mread (\<lambda>_. 9) 10 2 = [9, 9]" "bigsize_put 1 = [1]" "bigsize_put 2 = [2]"
    by (simp add: mread_def upt_rec, simp_all add: bigsize_put_def)
  then show "[0, 16, 0, 1, 1, 0, 2, 2, 3, 1, 2, 9, 9 :: u8] = [0, 16] @ be_bytes 2 (of_nat (length [1 :: u8]) :: u16) @
      [1] @ be_bytes 2 (of_nat (length [2, 3 :: u8]) :: u16) @ [2, 3] @
      concat (map (\<lambda>t. bigsize_put (tlv_type t) @ bigsize_put (of_nat (tlv_length t)) @
        mread (\<lambda>_. 9) (tlv_value t) (tlv_length t)) [\<lparr>tlv_type = 1, tlv_length = 2, tlv_value = 10\<rparr>])"
    by (simp add: be_bytes_234)
qed simp_all

text \<open>C32: Ping and pong: a ping built by \<open>lnsocket_make_ping_msg\<close>, with its two type bytes dropped, is
  answered by \<open>lnsocket_make_pong_from_ping\<close> in the 65535-byte buffer of \<open>lnsocket_pong\<close>. The
  answer always fits, and is the type 19, a length \<open>n\<close>, and \<open>n\<close> zero bytes, where \<open>n\<close> is the
  number asked for less 4, or 0. (BOLT 1 asks for exactly the number.)\<close>

theorem ping_is_answered:
  assumes "6 < buflen" "6 + unat ignored \<le> buflen"
    and "lnsocket_make_ping_msg bo buf buflen num ignored m = Some (r, m1)"
  shows "r = 6 + unat ignored \<and>
    mread m1 buf r = [0, 18] @ be_bytes 2 num @ be_bytes 2 ignored @ replicate (unat ignored) 0 \<and>
    (\<exists>m2. lnsocket_make_pong_from_ping bo' out 0xFFFF (buf + 2) (r - 2) m1 = Some (4 + (unat num - 4), m2) \<and>
      mread m2 out (4 + (unat num - 4)) =
        [0, 19] @ be_bytes 2 (of_nat (unat num - 4) :: u16) @ replicate (unat num - 4) 0 \<and>
      (\<forall>a. a < out \<or> out + 0xFFFF \<le> a \<longrightarrow> m2 a = m1 a))"
proof -
  let ?ping = "[0, 18] @ be_bytes 2 num @ be_bytes 2 ignored @ replicate (unat ignored) 0"
  have r: "r = 6 + unat ignored" and "wrote buf buflen ?ping m m1"
    using make_ping_msg_eq [of bo buf buflen num ignored m] assms by auto
  then have "mread m1 buf (length ?ping) = ?ping" by (simp only: wrote_def)
  moreover have "length ?ping = r" by (simp add: r)
  ultimately have w: "mread m1 buf r = ?ping" by metis
  have "mread m1 (buf + 2) 2 = be_bytes 2 num"
    using arg_cong [OF w, of "\<lambda>x. take 2 (drop 2 x)"] r by simp
  moreover have "\<not> 2 + uint ignored < 0" using uint_nonnegative [of ignored] by linarith
  ultimately have ping: "lnsocket_decode_ping_payload bo' (buf + 2) (r - 2) m1 = Some (Some num)"
    using r by (simp add: lnsocket_decode_ping_payload_def Let_def cursor_pull_u16_def cursor_pull_def make_cursor_def
        bytes_simps be_word_be_bytes)
  let ?n = "unat num - 4"
  let ?pong = "[0, 19] @ be_bytes 2 (of_nat ?n :: u16) @ replicate ?n 0"
  have "unat num < 2 ^ LENGTH(16)" by (rule unsigned_less)
  then have fits: "(4 :: nat) < 0xFFFF \<and> 4 + ?n \<le> 0xFFFF" by simp
  have n: "pong_size num = ?n" by (simp add: pong_size_def word_le_nat_alt)
  from make_pong_msg_eq [of bo' out "0xFFFF" num m1] obtain m2 where
    m2: "lnsocket_make_pong_msg bo' out 0xFFFF num m1 = Some (4 + ?n, m2)" "wrote out 0xFFFF ?pong m1 m2"
    unfolding n if_P [OF fits] by blast
  then have "mread m2 out (length ?pong) = ?pong" by (simp only: wrote_def)
  moreover have "length ?pong = 4 + ?n" by simp
  ultimately have "mread m2 out (4 + ?n) = ?pong" by metis
  then show ?thesis using r w ping m2 by (simp add: lnsocket_make_pong_from_ping_def wrote_def)
qed

theorem ping_is_answered_witness:
  "\<exists>r m1. lnsocket_make_ping_msg Big_Endian 0 100 7 3 (\<lambda>_. 9) = Some (r, m1) \<and> r = 6 + unat (3 :: u16) \<and>
    mread m1 0 r = [0, 18] @ be_bytes 2 (7 :: u16) @ be_bytes 2 (3 :: u16) @ replicate (unat (3 :: u16)) 0 \<and>
    (\<exists>m2. lnsocket_make_pong_from_ping Little_Endian 200 0xFFFF (0 + 2) (r - 2) m1 = Some (4 + (unat (7 :: u16) - 4), m2) \<and>
      mread m2 200 (4 + (unat (7 :: u16) - 4)) =
        [0, 19] @ be_bytes 2 (of_nat (unat (7 :: u16) - 4) :: u16) @ replicate (unat (7 :: u16) - 4) 0 \<and>
      (\<forall>a. a < 200 \<or> 200 + 0xFFFF \<le> a \<longrightarrow> m2 a = m1 a))"
proof -
  obtain m1 where "lnsocket_make_ping_msg Big_Endian 0 100 7 3 (\<lambda>_. 9) = Some (6 + unat (3 :: u16), m1)"
    using make_ping_msg_eq [of Big_Endian 0 100 7 3 "\<lambda>_. 9"] by auto
  from this ping_is_answered [OF _ _ this, of Little_Endian 200] show ?thesis by auto
qed

text \<open>C33: A commando request: \<open>commando_make_rpc_msg\<close> writes its type, the request id in 8 bytes and the
  JSON object with the method, the parameters (\<open>[]\<close> when there are none) and the rune between
  fixed texts, exactly when all of it leaves a byte of room, and returns its length; otherwise it
  returns 0. No byte outside the buffer changes.\<close>

theorem commando_request_format:
  assumes "msg = [0x4c, 0x4f] @ be_bytes 8 (ucast (req_id :: u32) :: u64) @
      ascii ''{\"method\":\"'' @ meth @ ascii ''\",\"params\":'' @
      (if params = None \<or> params = Some [] then ascii ''[]'' else the params) @
      ascii '',\"rune\":\"'' @ rune @ ascii ''\",\"id\":\"d0\",\"jsonrpc\":\"2.0\"}''"
    and "length msg < 2 ^ 31"
  shows "\<exists>m'. commando_make_rpc_msg bo meth params rune req_id buf buflen m =
      Some (if length msg < buflen then length msg else 0, m') \<and>
    (length msg < buflen \<longrightarrow> mread m' buf (length msg) = msg) \<and>
    (\<forall>a. a < buf \<or> buf + buflen \<le> a \<longrightarrow> m' a = m a)"
proof -
  have msg: "be_bytes 2 COMMANDO_CMD @ be_bytes 8 (ucast req_id :: u64) @
      commando_json meth (commando_params params) rune = msg"
    unfolding assms(1) by (simp add: commando_json_def commando_params_def COMMANDO_CMD_def be_bytes_234 del: ascii_simps)
  from commando_eq [of req_id meth params rune bo buf buflen m] assms(2) show ?thesis
    unfolding msg by (cases "length msg < buflen") (auto simp: wrote_def)
qed

theorem commando_request_format_witness:
  "let msg = [0x4c, 0x4f] @ be_bytes 8 (ucast (1 :: u32) :: u64) @
      ascii ''{\"method\":\"'' @ ascii ''getinfo'' @ ascii ''\",\"params\":'' @
      (if (None :: bytes option) = None \<or> None = Some ([] :: bytes) then ascii ''[]'' else the None) @
      ascii '',\"rune\":\"'' @ ascii ''x'' @ ascii ''\",\"id\":\"d0\",\"jsonrpc\":\"2.0\"}''
   in \<exists>m'. commando_make_rpc_msg Little_Endian (ascii ''getinfo'') None (ascii ''x'') 1 0 4096 (\<lambda>_. 0) =
      Some (if length msg < 4096 then length msg else 0, m') \<and>
    (length msg < 4096 \<longrightarrow> mread m' 0 (length msg) = msg) \<and>
    (\<forall>a. a < 0 \<or> 0 + 4096 \<le> a \<longrightarrow> m' a = (\<lambda>_. 0) a)"
  unfolding Let_def by (rule commando_request_format [OF refl]) simp

text \<open>\<open>parse_node_id\<close> accepts exactly the strings of 66 hexadecimal digits, and reads the 33 bytes they
  spell; whatever the string, it never writes more than the 33 bytes of the node id.\<close>

theorem node_id_round_trip:
  assumes "length key = 33"
  shows "parse_node_id (hex_encode key) = (True, key) \<and>
    (fst (parse_node_id str) \<longleftrightarrow> length str = 66 \<and>
      (\<forall>c \<in> set str. c \<in> {48..57} \<or> c \<in> {65..70} \<or> c \<in> {97..102})) \<and>
    length (snd (parse_node_id str)) \<le> 33"
proof -
  obtain ok out where p: "parse_node_id str = (ok, out)" by force
  have "char_to_hex c \<noteq> None \<longleftrightarrow> c \<in> {48..57} \<or> c \<in> {65..70} \<or> c \<in> {97..102}" for c
    by (auto simp: char_to_hex_def)
  with hex_decode_bounds [of str 33 ok out] hex_decode_encode [of key] p assms show ?thesis
    by (simp add: parse_node_id_def)
qed

theorem node_id_round_trip_witness:
  "parse_node_id (hex_encode (replicate 33 0x2a)) = (True, replicate 33 0x2a) \<and>
    (fst (parse_node_id [48, 49]) \<longleftrightarrow> length [48, 49 :: u8] = 66 \<and>
      (\<forall>c \<in> set [48, 49 :: u8]. c \<in> {48..57} \<or> c \<in> {65..70} \<or> c \<in> {97..102})) \<and>
    length (snd (parse_node_id [48, 49])) \<le> 33"
  by (rule node_id_round_trip) simp

text \<open>
  A feature field of \<open>len\<close> bytes is big-endian: bit 0 is the lowest bit of its last byte.
\<close>

definition feature_bit :: "bytes \<Rightarrow> nat \<Rightarrow> nat \<Rightarrow> bool" where
  "feature_bit buf len i \<longleftrightarrow> i div 8 < len \<and> bit (buf ! (len - 1 - i div 8)) (i mod 8)"

lemma bit_one_shifted: "k < 8 \<Longrightarrow> i < 8 \<Longrightarrow> bit (ucast (push_bit k 1 :: u32) :: u8) i \<longleftrightarrow> i = k"
  by (auto simp: bit_simps)

lemma set_feature_bit_first:
  assumes "b div 8 < length buf" "\<forall>x \<in> set (tl buf). x = 0"
  shows "lnsocket_set_feature_bit buf b =
    Some (b div 8 + 1, buf[0 := buf ! 0 OR ucast (push_bit (b mod 8) 1 :: u32)])"
proof (cases buf)
  case (Cons x xs)
  then have "highest_byte buf = 0" using assms(2) by (simp add: highest_byte_def highest_byte_loop_zero)
  then show ?thesis using assms(1) by (simp add: lnsocket_set_feature_bit_def)
qed (use assms in simp)

lemma feature_bit_first:
  assumes "l \<le> length buf" "0 < l" "\<forall>x \<in> set (tl buf). x = 0"
  shows "feature_bit buf l i \<longleftrightarrow> i div 8 = l - 1 \<and> bit (buf ! 0) (i mod 8)"
proof (cases "i div 8 < l - 1")
  case True
  then have "buf ! (l - 1 - i div 8) \<in> set (tl buf)"
    using assms(1) by (cases buf) (auto simp: nth_Cons' nth_mem)
  then have "buf ! (l - 1 - i div 8) = 0" using assms(3) by blast
  then show ?thesis using True by (simp add: feature_bit_def)
qed (use assms in \<open>auto simp: feature_bit_def\<close>)

text \<open>C34: Feature bits: on a zeroed buffer \<open>lnsocket_set_feature_bit\<close> gives the field with exactly the
  wanted bit. A second call always moves the first bit into the byte of the second: afterwards the
  bits set are \<open>b2\<close> and the one at \<open>b1\<close>'s place in \<open>b2\<close>'s byte, so the first bit is lost whenever
  the two lie in different bytes.\<close>

theorem feature_bits_set:
  assumes "b1 div 8 < n" "b2 div 8 < n"
  shows "\<exists>l1 buf1 l2 buf2. lnsocket_set_feature_bit (replicate n 0) b1 = Some (l1, buf1) \<and>
    lnsocket_set_feature_bit buf1 b2 = Some (l2, buf2) \<and>
    {i. feature_bit buf1 l1 i} = {b1} \<and>
    {i. feature_bit buf2 l2 i} = {8 * (b2 div 8) + b1 mod 8, b2}"
proof -
  define w where "w = (\<lambda>b. ucast (push_bit (b mod 8) 1 :: u32) :: u8)"
  define buf1 where "buf1 = (replicate n 0)[0 := w b1]"
  define buf2 where "buf2 = buf1[0 := buf1 ! 0 OR w b2]"
  obtain k where n: "n = Suc k" using assms(1) by (cases n) auto
  have tl: "\<forall>x \<in> set (tl (replicate n (0 :: u8))). x = 0" "\<forall>x \<in> set (tl buf1). x = 0" "\<forall>x \<in> set (tl buf2). x = 0"
    and len: "length buf1 = n" "length buf2 = n" and hd: "buf1 ! 0 = w b1" "buf2 ! 0 = w b1 OR w b2"
    by (simp_all add: n buf1_def buf2_def)
  have 1: "lnsocket_set_feature_bit (replicate n 0) b1 = Some (b1 div 8 + 1, buf1)"
    using set_feature_bit_first [of b1 "replicate n 0"] tl(1) assms by (simp add: n buf1_def w_def)
  have 2: "lnsocket_set_feature_bit buf1 b2 = Some (b2 div 8 + 1, buf2)"
    using set_feature_bit_first [of b2 buf1] tl(2) len assms by (simp add: buf2_def w_def)
  have w: "bit (w b) (i mod 8) \<longleftrightarrow> i mod 8 = b mod 8" for b i
    unfolding w_def by (rule bit_one_shifted) simp_all
  have b1: "bit (buf1 ! 0) (i mod 8) \<longleftrightarrow> i mod 8 = b1 mod 8" for i
    unfolding hd(1) by (rule w)
  have b2: "bit (buf2 ! 0) (i mod 8) \<longleftrightarrow> i mod 8 = b1 mod 8 \<or> i mod 8 = b2 mod 8" for i
    unfolding hd(2) bit_or_iff w by simp
  have eq: "i = j \<longleftrightarrow> i div 8 = j div 8 \<and> i mod 8 = j mod 8" for i j :: nat
    by (metis div_mult_mod_eq)
  have "feature_bit buf1 (b1 div 8 + 1) i \<longleftrightarrow> i = b1" for i
    using feature_bit_first [of "b1 div 8 + 1" buf1 i] tl(2) len assms(1) b1 eq [of i b1] by simp
  moreover have "feature_bit buf2 (b2 div 8 + 1) i \<longleftrightarrow> i = 8 * (b2 div 8) + b1 mod 8 \<or> i = b2" for i
    using feature_bit_first [of "b2 div 8 + 1" buf2 i] tl(3) len assms(2) b2
      eq [of i b2] eq [of i "8 * (b2 div 8) + b1 mod 8"] by auto
  ultimately show ?thesis using 1 2 by blast
qed

theorem feature_bits_set_witness:
  "\<exists>l1 buf1 l2 buf2. lnsocket_set_feature_bit (replicate 5 0) 8 = Some (l1, buf1) \<and>
    lnsocket_set_feature_bit buf1 0 = Some (l2, buf2) \<and>
    {i. feature_bit buf1 l1 i} = {8} \<and>
    {i. feature_bit buf2 l2 i} = {8 * (0 div 8) + 8 mod 8, 0}"
  by (rule feature_bits_set) simp_all

text \<open>The \<open>networks\<close> TLV: \<open>lnsocket_make_network_tlv\<close> sets the type to 1 and the value to the buffer, and
  copies the 32-byte block ids into it one after the other, exactly when they leave a byte of room
  (no block id always fits); the length is then 32 for each. It fails when the buffer is too small,
  without writing past it, and when there is no TLV to fill in.\<close>

theorem network_tlv_format:
  assumes "\<forall>b \<in> set blockids. b + 32 \<le> buf \<or> buf + buflen \<le> b" "32 * length blockids < 2 ^ 31"
  shows "lnsocket_make_network_tlv buf buflen blockids None m = Some (False, None, m) \<and>
    (\<exists>ok t' m'. lnsocket_make_network_tlv buf buflen blockids (Some t) m = Some (ok, Some t', m') \<and>
      (ok \<longleftrightarrow> blockids = [] \<or> 32 * length blockids < buflen) \<and>
      (ok \<longrightarrow> t' = t\<lparr>tlv_type := 1, tlv_value := buf, tlv_length := 32 * length blockids\<rparr> \<and>
        mread m' buf (32 * length blockids) = concat (map (\<lambda>b. mread m b 32) blockids)) \<and>
      (\<forall>a. a < buf \<or> buf + buflen \<le> a \<longrightarrow> m' a = m a))"
proof -
  let ?t = "t\<lparr>tlv_type := 1, tlv_value := buf\<rparr>" and ?c = "make_cursor buf (buf + buflen)"
  let ?ds = "map (\<lambda>b. mread m b 32) blockids"
  let ?f = "\<lambda>c m. Some ((True, Some (?t\<lparr>tlv_length := c_p c - c_start c\<rparr>)), m)"
  have len: "length (concat ?ds) = 32 * length blockids" by (induction blockids) simp_all
  have push: "push_blockids ?c blockids m = push_all cursor_sink (?c, m) ?ds"
    using assms(1) by (intro push_blockids_fields) (simp_all add: make_cursor_def cursor_ok_def)
  have some: "lnsocket_make_network_tlv buf buflen blockids (Some t) m =
      map_option (\<lambda>((ok, t), m). (ok, t, m)) (built (False, Some ?t) ?f (push_all cursor_sink (?c, m) ?ds))"
    by (cases "push_all cursor_sink (?c, m) ?ds")
      (auto simp: lnsocket_make_network_tlv_def Let_def push built_def)
  have none: "lnsocket_make_network_tlv buf buflen blockids None m = Some (False, None, m)"
    by (simp add: lnsocket_make_network_tlv_def)
  show ?thesis
  proof (cases "blockids = []")
    case True
    then show ?thesis using none some by (auto simp: built_def make_cursor_def)
  next
    case False
    then show ?thesis
      using none some built_fields [of ?ds buflen "(False, Some ?t)" ?f buf m] assms(2) unfolding len
      by (cases "32 * length blockids < buflen") (auto simp: wrote_def len make_cursor_def)
  qed
qed

theorem network_tlv_format_witness:
  "lnsocket_make_network_tlv 100 1024 [0, 50] None (\<lambda>_. 7) = Some (False, None, \<lambda>_. 7) \<and>
    (\<exists>ok t' m'. lnsocket_make_network_tlv 100 1024 [0, 50] (Some \<lparr>tlv_type = 0, tlv_length = 0, tlv_value = 0\<rparr>) (\<lambda>_. 7) =
        Some (ok, Some t', m') \<and>
      (ok \<longleftrightarrow> [0, 50 :: nat] = [] \<or> 32 * length [0, 50 :: nat] < 1024) \<and>
      (ok \<longrightarrow> t' = \<lparr>tlv_type = 0, tlv_length = 0, tlv_value = 0\<rparr>\<lparr>tlv_type := 1, tlv_value := 100,
          tlv_length := 32 * length [0, 50 :: nat]\<rparr> \<and>
        mread m' 100 (32 * length [0, 50 :: nat]) = concat (map (\<lambda>b. mread (\<lambda>_. 7) b 32) [0, 50])) \<and>
      (\<forall>a. a < 100 \<or> 100 + 1024 \<le> a \<longrightarrow> m' a = (\<lambda>_. 7) a))"
  by (rule network_tlv_format) simp_all

end
