(* ===== verification/Socket.thy ===== *)
theory Socket
  imports Handshake Messages
begin

text \<open>
  Messages over the socket: the functions of \<open>lnsocket.c\<close> that read, write, send and receive, on top
  of the operating system. The kernel's side of a socket is the record \<open>net\<close>: what the next reads
  and writes will give. The locale \<open>stream_channel\<close> says what the users of a connection get, and
  \<open>safe\<close> what a call may do to the connection and to memory.
\<close>

section \<open>The operating system\<close>

text \<open>
  The reads to come: bytes that arrive together (no bytes is the end of the stream), a signal
  that interrupts the read, or an error with its \<open>strerror\<close> text. When the list is over so is the
  stream. The writes to come: how many bytes the kernel takes of the next one, or an error; when
  the list is over, writes take everything.
\<close>

datatype read_event = Data bytes | Interrupted | Read_error bytes
datatype write_event = Takes nat | Write_error bytes

record net =
  n_in :: "read_event list"
  n_out :: "write_event list"
  n_sent :: bytes
  n_errno :: bytes

definition os_read :: "net \<Rightarrow> nat \<Rightarrow> read_event \<times> net" where
  "os_read net sz =
     (case n_in net of
        [] \<Rightarrow> (Data [], net)
      | Data bs # es \<Rightarrow>
          (Data (take sz bs), net\<lparr>n_in := (if length bs \<le> sz then es else Data (drop sz bs) # es)\<rparr>)
      | Interrupted # es \<Rightarrow> (Interrupted, net\<lparr>n_in := es, n_errno := ascii ''Interrupted system call''\<rparr>)
      | Read_error e # es \<Rightarrow> (Read_error e, net\<lparr>n_in := es, n_errno := e\<rparr>))"

definition os_write :: "net \<Rightarrow> bytes \<Rightarrow> int \<times> net" where
  "os_write net bs =
     (case n_out net of
        [] \<Rightarrow> (int (length bs), net\<lparr>n_sent := n_sent net @ bs\<rparr>)
      | Takes k # es \<Rightarrow> (int (length (take k bs)), net\<lparr>n_out := es, n_sent := n_sent net @ take k bs\<rparr>)
      | Write_error e # es \<Rightarrow> (- 1, net\<lparr>n_out := es, n_errno := e\<rparr>))"

text \<open>
  The loop of \<open>read_all\<close>: the result, and the bytes stored at the data pointer, also those of a
  read that fails later.
\<close>

lemma os_read_progress:
  assumes "os_read net sz = (Data bs, net')" "bs \<noteq> []" "sz \<noteq> 0"
  shows "length (n_in net') + (sz - length bs) < length (n_in net) + sz"
  using assms by (auto simp: os_read_def split: list.splits read_event.splits if_splits)

lemma os_read_interrupted: "os_read net sz = (Interrupted, net') \<Longrightarrow> length (n_in net') < length (n_in net)"
  by (auto simp: os_read_def split: list.splits read_event.splits)

function read_all :: "net \<Rightarrow> nat \<Rightarrow> bool \<times> bytes \<times> net" where
  "read_all net sz =
     (if sz = 0 then (True, [], net)
      else (case os_read net sz of
        (Interrupted, net) \<Rightarrow> read_all net sz
      | (Read_error _, net) \<Rightarrow> (False, [], net)
      | (Data bs, net) \<Rightarrow>
          (if bs = [] then (False, [], net)
           else (case read_all net (sz - length bs) of (ok, rest, net) \<Rightarrow> (ok, bs @ rest, net)))))"
  by pat_completeness auto
termination
  by (relation "measure (\<lambda>(net, sz). length (n_in net) + sz)")
     (auto dest!: os_read_progress [OF sym] os_read_interrupted [OF sym])

declare read_all.simps [simp del]

section \<open>Results\<close>

text \<open>
  A function that may fail returns its result with the new connection, network and memory;
  \<open>ln_fail\<close> is \<open>return note_error (&ln->errs, ...)\<close> with the result of a failure.
\<close>

type_synonym 'r io = "('r \<times> lnsocket \<times> net \<times> mem) option"

definition ln_fail :: "'r \<Rightarrow> lnsocket \<Rightarrow> string \<times> string \<times> nat \<Rightarrow> bytes \<Rightarrow> net \<Rightarrow> mem \<Rightarrow> 'r io" where
  "ln_fail r ln src msg net m = do {
     (ln, m) \<leftarrow> ln_note ln src msg m;
     Some (r, ln, net, m) }"

definition MSGBUF_MEM :: nat where "MSGBUF_MEM = 65536 * 2"
definition ERROR_MEM :: nat where "ERROR_MEM = 4096"

text \<open>The text of the out-of-memory errors; the pointer differences are printed with \<open>%d\<close>.\<close>

definition oom_text :: "cursor \<Rightarrow> nat \<Rightarrow> bytes" where
  "oom_text c sz = ascii ''out of memory: '' @ dec_int (c_int (c_end c - c_p c)) @ ascii '' + '' @ dec_nat sz
     @ ascii '' = '' @ dec_int (c_int (c_end c - c_p c + sz)) @ ascii '' > '' @ dec_nat MSGBUF_MEM"

section \<open>Reading a message\<close>

definition lnsocket_read :: "'a aead_scheme \<Rightarrow> lnsocket \<Rightarrow> net \<Rightarrow> mem \<Rightarrow> (addr \<times> u16) option io" where
  "lnsocket_read L ln net m = do {
     let ln = ln\<lparr>ln_errs := (ln_errs ln)\<lparr>e_cur := reset_cursor (e_cur (ln_errs ln))\<rparr>\<rparr>;
     let ln = ln\<lparr>ln_msgbuf := reset_cursor (ln_msgbuf ln)\<rparr>;
     let (ok, hdr, net) = read_all net 18;
     if \<not> ok then
       ln_fail None ln (''lnsocket_read'', ''lnsocket.c'', 271) (ascii ''Failed reading header: '' @ n_errno net) net m
     else do {
       (len, cs) \<leftarrow> cryptomsg_decrypt_header L (ln_crypto_state ln) hdr;
       let ln = ln\<lparr>ln_crypto_state := cs\<rparr>;
       case len of
         None \<Rightarrow> ln_fail None ln (''lnsocket_read'', ''lnsocket.c'', 275)
           (ascii ''Failed hdr decrypt with rn='' @ dec_nat (unat (cs_rn cs - 1))) net m
       | Some len \<Rightarrow> (case cursor_slice (ln_msgbuf ln) (unat len + 16) m of
           (None, c, m) \<Rightarrow>
             ln_fail None (ln\<lparr>ln_msgbuf := c\<rparr>) (''lnsocket_read'', ''lnsocket.c'', 280) (ascii ''out of memory'') net m
         | (Some enc, c, m) \<Rightarrow> (case cursor_slice c (unat len) m of
             (None, c, m) \<Rightarrow>
               ln_fail None (ln\<lparr>ln_msgbuf := c\<rparr>) (''lnsocket_read'', ''lnsocket.c'', 283) (oom_text c (unat len)) net m
           | (Some dec, c, m) \<Rightarrow> do {
               let ln = ln\<lparr>ln_msgbuf := c\<rparr>;
               let (ok, body, net) = read_all net (c_end enc - c_start enc);
               let m = mwrite m (c_p enc) body;
               if \<not> ok then
                 ln_fail None ln (''lnsocket_read'', ''lnsocket.c'', 290) (ascii ''Failed reading body: '' @ n_errno net) net m
               else do {
                 (ok, cs, m) \<leftarrow> cryptomsg_decrypt_body L (ln_crypto_state ln)
                   (c_start enc) (c_end enc - c_start enc) (c_start dec) (c_end dec - c_start dec) m;
                 let ln = ln\<lparr>ln_crypto_state := cs\<rparr>;
                 if \<not> ok then
                   ln_fail None ln (''lnsocket_read'', ''lnsocket.c'', 296) (ascii ''error decrypting body'') net m
                 else Some (Some (c_start dec, of_nat (c_end dec - c_start dec)), ln, net, m) } })) } }"

text \<open>The type, the address of the payload and its length.\<close>

definition lnsocket_recv :: "'a aead_scheme \<Rightarrow> lnsocket \<Rightarrow> net \<Rightarrow> mem \<Rightarrow> (u16 \<times> addr \<times> u16) option io" where
  "lnsocket_recv L ln net m = do {
     (r, ln, net, m) \<leftarrow> lnsocket_read L ln net m;
     case r of
       None \<Rightarrow> Some (None, ln, net, m)
     | Some (msg, msglen) \<Rightarrow> do {
         let cur = make_cursor msg (msg + unat msglen);
         (t, cur) \<leftarrow> cursor_pull_u16 (lib_order L) cur m;
         case t of
           None \<Rightarrow> ln_fail None ln (''lnsocket_recv'', ''lnsocket.c'', 218) (ascii ''could not read msgtype'') net m
         | Some msg_type \<Rightarrow> do {
             let payload_len = msglen - 2;
             let payload = c_p cur;
             if payload + unat payload_len > c_end cur then
               ln_fail None ln (''lnsocket_recv'', ''lnsocket.c'', 224) (ascii ''recv buffer overflow?'') net m
             else Some (Some (msg_type, payload, payload_len), ln, net, m) } } }"

section \<open>Writing a message\<close>

text \<open>
  The number of bytes written to the message buffer, 0 on failure. The build for Emscripten
  (\<open>__EMSCRIPTEN__\<close>) has no socket, and does not ask for one.
\<close>

definition lnsocket_encrypt_for :: "bool \<Rightarrow> 'a aead_scheme \<Rightarrow> lnsocket \<Rightarrow> addr \<Rightarrow> u16 \<Rightarrow> net \<Rightarrow> mem \<Rightarrow> nat io" where
  "lnsocket_encrypt_for emscripten L ln msg msglen net m = do {
     let ln = ln\<lparr>ln_msgbuf := reset_cursor (ln_msgbuf ln)\<rparr>;
     let out = c_start (ln_msgbuf ln);
     let outcap = int (c_end (ln_msgbuf ln)) - int (c_start (ln_msgbuf ln));
     if \<not> emscripten \<and> ln_socket ln = 0 then
       ln_fail 0 ln (''lnsocket_encrypt'', ''lnsocket.c'', 507) (ascii ''not connected'') net m
     else if outcap \<le> 0 then
       ln_fail 0 ln (''lnsocket_encrypt'', ''lnsocket.c'', 511) (ascii ''out of memory'') net m
     else do {
       (p, outlen, cs, m) \<leftarrow> cryptomsg_encrypt_msg L (ln_crypto_state ln) msg (unat msglen) out (nat outcap) m;
       let ln = ln\<lparr>ln_crypto_state := cs\<rparr>;
       if p = None then
         ln_fail 0 ln (''lnsocket_encrypt'', ''lnsocket.c'', 514) (ascii ''encrypt message failed, out of memory'') net m
       else Some (outlen, ln, net, m) } }"

definition lnsocket_encrypt :: "'a aead_scheme \<Rightarrow> lnsocket \<Rightarrow> addr \<Rightarrow> u16 \<Rightarrow> net \<Rightarrow> mem \<Rightarrow> nat io" where
  "lnsocket_encrypt L ln msg msglen net m = lnsocket_encrypt_for False L ln msg msglen net m"

lemmas encrypt_defs = lnsocket_encrypt_def lnsocket_encrypt_for_def

definition lnsocket_write :: "'a aead_scheme \<Rightarrow> lnsocket \<Rightarrow> addr \<Rightarrow> u16 \<Rightarrow> net \<Rightarrow> mem \<Rightarrow> bool io" where
  "lnsocket_write L ln msg msglen net m = do {
     let out = c_start (ln_msgbuf ln);
     (outlen, ln, net, m) \<leftarrow> lnsocket_encrypt L ln msg msglen net m;
     if outlen = 0 then Some (False, ln, net, m)
     else do {
       let (writelen, net) = os_write net (mread m out outlen);
       if writelen \<noteq> int outlen then
         ln_fail False ln (''lnsocket_write'', ''lnsocket.c'', 528)
           (ascii ''write failed. wrote '' @ dec_int writelen @ ascii '' bytes, expected '' @ dec_nat outlen @ ascii '' ''
             @ (if writelen < 0 then n_errno net else [])) net m
       else Some (True, ln, net, m) } }"

text \<open>
  \<open>lnsocket_send\<close> composes the message in the buffer that \<open>lnsocket_write\<close> encrypts into. The
  length passed on is converted to 16 bits. The second encryption then writes 18 bytes behind where
  it reads; on such buffers, which libsodium does not document, the model reads before it writes.
\<close>

definition lnsocket_send :: "'a aead_scheme \<Rightarrow> lnsocket \<Rightarrow> u16 \<Rightarrow> addr \<Rightarrow> u16 \<Rightarrow> net \<Rightarrow> mem \<Rightarrow> bool io" where
  "lnsocket_send L ln msg_type payload payload_len net m = do {
     let ln = ln\<lparr>ln_msgbuf := reset_cursor (ln_msgbuf ln)\<rparr>;
     (ok, c, m) \<leftarrow> cursor_push_u16 (lib_order L) (ln_msgbuf ln) msg_type m;
     let ln = ln\<lparr>ln_msgbuf := c\<rparr>;
     if \<not> ok then
       ln_fail False ln (''lnsocket_send'', ''lnsocket.c'', 197) (ascii ''could not write type to msgbuf?'') net m
     else do {
       (ok, c, m) \<leftarrow> cursor_push (ln_msgbuf ln) (mread m payload (unat payload_len)) (uint payload_len) m;
       let ln = ln\<lparr>ln_msgbuf := c\<rparr>;
       if \<not> ok then
         ln_fail False ln (''lnsocket_send'', ''lnsocket.c'', 200) (ascii ''payload too big'') net m
       else lnsocket_write L ln (c_start (ln_msgbuf ln)) (of_nat (c_p (ln_msgbuf ln) - c_start (ln_msgbuf ln))) net m } }"

section \<open>A stream of bytes\<close>

text \<open>The bytes that arrive before the end of the stream or an error, however they are cut.\<close>

fun stream :: "read_event list \<Rightarrow> bytes" where
  "stream [] = []"
| "stream (Data bs # es) = (if bs = [] then [] else bs @ stream es)"
| "stream (Interrupted # es) = stream es"
| "stream (Read_error e # es) = []"

lemma os_read_Data:
  assumes "os_read net sz = (Data bs, net')" "sz \<noteq> 0"
  shows "stream (n_in net) = bs @ (if bs = [] then [] else stream (n_in net'))" "length bs \<le> sz"
    "n_sent net' = n_sent net \<and> n_out net' = n_out net"
  using assms by (auto simp: os_read_def split: list.splits read_event.splits if_splits)

lemma os_read_Interrupted:
  "os_read net sz = (Interrupted, net') \<Longrightarrow>
   stream (n_in net') = stream (n_in net) \<and> n_sent net' = n_sent net \<and> n_out net' = n_out net"
  by (auto simp: os_read_def split: list.splits read_event.splits)

lemma os_read_Read_error:
  "os_read net sz = (Read_error e, net') \<Longrightarrow> stream (n_in net) = [] \<and> n_sent net' = n_sent net \<and> n_out net' = n_out net"
  by (auto simp: os_read_def split: list.splits read_event.splits)

lemma read_all_stream:
  "read_all net sz = (ok, bs, net') \<Longrightarrow>
     bs = take sz (stream (n_in net)) \<and> (ok \<longleftrightarrow> sz \<le> length (stream (n_in net))) \<and>
     (ok \<longrightarrow> stream (n_in net') = drop sz (stream (n_in net))) \<and>
     n_sent net' = n_sent net \<and> n_out net' = n_out net"
proof (induction net sz arbitrary: ok bs net' rule: read_all.induct)
  case (1 net sz)
  show ?case
  proof (cases "sz = 0")
    case True
    then show ?thesis using 1(3) by (simp add: read_all.simps)
  next
    case sz: False
    obtain r net1 where r: "os_read net sz = (r, net1)" by force
    show ?thesis
    proof (cases r)
      case Interrupted
      then show ?thesis using 1(2) [OF sz r [symmetric] Interrupted] 1(3) sz r os_read_Interrupted [of net sz net1]
        by (subst (asm) read_all.simps) simp
    next
      case (Read_error e)
      then show ?thesis using 1(3) sz r os_read_Read_error [of net sz e net1]
        by (subst (asm) read_all.simps) auto
    next
      case (Data d)
      note d = os_read_Data [OF r [unfolded Data] sz]
      show ?thesis
      proof (cases "d = []")
        case True
        then show ?thesis using 1(3) sz r Data d by (subst (asm) read_all.simps) auto
      next
        case False
        obtain ok' rest net2 where rest: "read_all net1 (sz - length d) = (ok', rest, net2)" by (cases "read_all net1 (sz - length d)")
        have "ok = ok'" "bs = d @ rest" "net' = net2"
          using 1(3) sz r Data False rest by (subst (asm) read_all.simps, simp)+
        then show ?thesis using 1(1) [OF sz r [symmetric] Data False rest] d False by (auto simp: min_def)
      qed
    qed
  qed
qed

section \<open>The layout of a connection\<close>

text \<open>
  The message buffer of \<open>MSGBUF_MEM\<close> bytes, followed by the error log of \<open>ERROR_MEM\<close> bytes;
  the positions of both cursors are inside.
\<close>

definition ln_wf :: "lnsocket \<Rightarrow> bool" where
  "ln_wf ln \<longleftrightarrow> cursor_ok (ln_msgbuf ln) \<and> cursor_ok (e_cur (ln_errs ln)) \<and>
     c_end (ln_msgbuf ln) = c_start (ln_msgbuf ln) + MSGBUF_MEM \<and>
     c_start (e_cur (ln_errs ln)) = c_end (ln_msgbuf ln) \<and>
     c_end (e_cur (ln_errs ln)) = c_start (e_cur (ln_errs ln)) + ERROR_MEM"

section \<open>A message through the socket\<close>

lemma cursor_slice_eq:
  "cursor_slice c n m =
    (if c_p c + n \<le> c_end c
     then (Some (make_cursor (c_p c) (c_p c + n)), c\<lparr>c_p := c_p c + n\<rparr>, mwrite m (c_p c) (replicate n 0))
     else (None, c, m))"
  by (simp add: cursor_slice_def cursor_alloc_def cursor_malloc_def)

lemma reset_cursor_sel [simp]:
  "c_start (reset_cursor c) = c_start c" "c_end (reset_cursor c) = c_end c" "c_p (reset_cursor c) = c_start c"
  by (simp_all add: reset_cursor_def)

lemma of_nat_u16 [simp]: "n < 2 ^ 16 \<Longrightarrow> unat (of_nat n :: u16) = n"
  by (simp add: unsigned_of_nat take_bit_nat_eq_self)

text \<open>The connection after a message of \<open>n\<close> bytes has been read.\<close>

definition after_read :: "lnsocket \<Rightarrow> nat \<Rightarrow> bolt8_chan \<Rightarrow> lnsocket" where
  "after_read ln n ch = ln\<lparr>ln_errs := (ln_errs ln)\<lparr>e_cur := reset_cursor (e_cur (ln_errs ln))\<rparr>,
     ln_msgbuf := (ln_msgbuf ln)\<lparr>c_p := c_start (ln_msgbuf ln) + (n + 16) + n\<rparr>,
     ln_crypto_state := (ln_crypto_state ln)\<lparr>cs_rn := of_nat (ch_n ch), cs_rk := ch_k ch, cs_r_ck := ch_ck ch\<rparr>\<rparr>"

lemma read_delivers:
  assumes "aead_ok L" "ln_wf ln" "chan_ok (recv_chan (ln_crypto_state ln))"
    and "bolt8_encrypt L (recv_chan (ln_crypto_state ln)) p = (packet, ch)"
    and "length p \<le> 65528" "stream (n_in net) = packet @ rest"
  shows "\<exists>net' m'. lnsocket_read L ln net m =
      Some (Some (c_start (ln_msgbuf ln) + length p + 16, of_nat (length p)), after_read ln (length p) ch, net', m') \<and>
    mread m' (c_start (ln_msgbuf ln) + length p + 16) (length p) = p \<and>
    stream (n_in net') = rest \<and> n_sent net' = n_sent net \<and> n_out net' = n_out net"
proof -
  let ?cs = "ln_crypto_state ln" and ?s = "c_start (ln_msgbuf ln)"
  have len: "length packet = length p + 34" using length_bolt8_packet [OF assms(1,3), of p] assms(4) by simp
  obtain net1 where r1: "read_all net 18 = (True, take 18 packet, net1)" "stream (n_in net1) = drop 18 packet @ rest"
      "n_sent net1 = n_sent net" "n_out net1 = n_out net"
    using read_all_stream [of net 18] assms(6) len by (cases "read_all net 18") auto
  obtain net2 where r2: "read_all net1 (length p + 16) = (True, drop 18 packet, net2)" "stream (n_in net2) = rest"
      "n_sent net2 = n_sent net" "n_out net2 = n_out net"
    using read_all_stream [of net1 "length p + 16"] r1 len by (cases "read_all net1 (length p + 16)") auto
  have l: "unat (of_nat (length p) :: u16) = length p" using assms(5) by simp
  define k where "k = length p + 16"
  have k: "length p + 16 = k" by (simp add: k_def)
  have body_len: "length (drop 18 packet) = k" using len by (simp add: k_def)
  define m2 where "m2 = mwrite (mwrite (mwrite m ?s (replicate k 0)) (?s + k) (replicate (length p) 0)) ?s (drop 18 packet)"
  have "mread m2 ?s k = drop 18 packet" unfolding m2_def using body_len by simp
  with assms(5) have body: "cryptomsg_decrypt_body L (?cs\<lparr>cs_rn := cs_rn ?cs + 1\<rparr>) ?s k (?s + k) (length p) m2 =
    Some (True, ?cs\<lparr>cs_rn := of_nat (ch_n ch), cs_rk := ch_k ch, cs_r_ck := ch_ck ch\<rparr>, mwrite m2 (?s + k) p)"
    using decrypt_body_packet [OF assms(1,3,4), of "length p" m2 ?s "?s + k", unfolded k] by simp
  have fits: "?s + k + length p \<le> c_end (ln_msgbuf ln)" "?s + k \<le> c_end (ln_msgbuf ln)"
    using assms(2,5) by (simp_all add: ln_wf_def MSGBUF_MEM_def k_def)
  have "lnsocket_read L ln net m = Some (Some (?s + k, of_nat (length p)), after_read ln (length p) ch, net2, mwrite m2 (?s + k) p)"
    unfolding lnsocket_read_def Let_def reset_cursor_def
    by (simp add: r1 r2 [unfolded k] l k fits decrypt_header_packet [OF assms(1,3,4)] cursor_slice_eq make_cursor_def
        after_read_def reset_cursor_def body m2_def [symmetric])
  then show ?thesis using r1 r2 by (simp add: k_def add.assoc)
qed

text \<open>The connection after a message has been written.\<close>

definition after_write :: "lnsocket \<Rightarrow> bolt8_chan \<Rightarrow> lnsocket" where
  "after_write ln ch = ln\<lparr>ln_msgbuf := reset_cursor (ln_msgbuf ln),
     ln_crypto_state := (ln_crypto_state ln)\<lparr>cs_sn := of_nat (ch_n ch), cs_sk := ch_k ch, cs_s_ck := ch_ck ch\<rparr>\<rparr>"

lemma encrypt_in_place:
  assumes "aead_ok L" "ln_wf ln" "emscripten \<or> ln_socket ln \<noteq> 0" "chan_ok (send_chan (ln_crypto_state ln))"
    and "p = mread (mwrite m (c_start (ln_msgbuf ln)) (bolt8_header L (send_chan (ln_crypto_state ln)) (unat n))) msg (unat n)"
    and "bolt8_encrypt L (send_chan (ln_crypto_state ln)) p = (packet, ch)"
  shows "lnsocket_encrypt_for emscripten L ln msg n net m =
    Some (unat n + 34, after_write ln ch, net, mwrite m (c_start (ln_msgbuf ln)) packet)"
proof -
  have "unat n < 2 ^ LENGTH(16)" by (rule unsigned_less)
  then have n: "unat n \<le> MSGBUF_MEM" by (simp add: MSGBUF_MEM_def)
  have cap: "c_end (ln_msgbuf ln) = c_start (ln_msgbuf ln) + MSGBUF_MEM" "0 < MSGBUF_MEM"
    using assms(2) by (simp_all add: ln_wf_def MSGBUF_MEM_def)
  show ?thesis
    using encrypt_msg_in_place [OF assms(1,4) n assms(5,6)] assms(3) cap
    by (simp add: lnsocket_encrypt_for_def Let_def reset_cursor_def after_write_def) blast
qed

lemma write_in_place:
  assumes "aead_ok L" "ln_wf ln" "ln_socket ln \<noteq> 0" "chan_ok (send_chan (ln_crypto_state ln))" "n_out net = []"
    and "p = mread (mwrite m (c_start (ln_msgbuf ln)) (bolt8_header L (send_chan (ln_crypto_state ln)) (unat n))) msg (unat n)"
    and "bolt8_encrypt L (send_chan (ln_crypto_state ln)) p = (packet, ch)"
  shows "lnsocket_write L ln msg n net m =
    Some (True, after_write ln ch, net\<lparr>n_sent := n_sent net @ packet\<rparr>, mwrite m (c_start (ln_msgbuf ln)) packet)"
proof -
  have len: "length packet = unat n + 34"
    using length_bolt8_packet [OF assms(1,4), of p] assms(6,7) by simp
  show ?thesis
    using encrypt_in_place [OF assms(1,2) _ assms(4,6,7), of False net] assms(3,5) len
    by (simp add: lnsocket_write_def lnsocket_encrypt_def Let_def os_write_def)
qed

lemma write_sends:
  assumes "aead_ok L" "ln_wf ln" "ln_socket ln \<noteq> 0" "chan_ok (send_chan (ln_crypto_state ln))" "n_out net = []"
    and "msg + unat n \<le> c_start (ln_msgbuf ln) \<or> c_start (ln_msgbuf ln) + 18 \<le> msg"
    and "bolt8_encrypt L (send_chan (ln_crypto_state ln)) (mread m msg (unat n)) = (packet, ch)"
  shows "lnsocket_write L ln msg n net m =
    Some (True, after_write ln ch, net\<lparr>n_sent := n_sent net @ packet\<rparr>, mwrite m (c_start (ln_msgbuf ln)) packet)"
proof (rule write_in_place [OF assms(1-5) _ assms(7)])
  show "mread m msg (unat n) = mread (mwrite m (c_start (ln_msgbuf ln))
      (bolt8_header L (send_chan (ln_crypto_state ln)) (unat n))) msg (unat n)"
    using assms(6) length_bolt8_header [OF assms(1,4), of "unat n"] by (intro mread_mwrite_disjoint [symmetric]) auto
qed

section \<open>What the users of a connection get\<close>

text \<open>
  A source puts messages on a wire as bytes; a stream channel gets them back from the bytes that
  arrive, whatever their cutting, one message at a time and leaving what follows on the wire.
\<close>

locale message_source =
  fixes put :: "'s \<Rightarrow> bytes \<Rightarrow> (bytes \<times> 's) option"
    and ready :: "'s \<Rightarrow> bool"
    and fits :: "bytes \<Rightarrow> bool"
  assumes put_ready: "ready s \<Longrightarrow> fits msg \<Longrightarrow> \<exists>c s'. put s msg = Some (c, s') \<and> ready s'"
begin

lemma put_all: "ready s \<Longrightarrow> \<forall>msg \<in> set msgs. fits msg \<Longrightarrow> \<exists>cs s'. run_all put s msgs = Some (cs, s') \<and> ready s'"
proof (induction msgs arbitrary: s)
  case Nil
  then show ?case by simp
next
  case (Cons msg msgs)
  obtain c s1 where "put s msg = Some (c, s1)" "ready s1" using put_ready [OF Cons.prems(1), of msg] Cons.prems(2) by auto
  then show ?case using Cons.IH [of s1] Cons.prems(2) by auto
qed

end

text \<open>Getting \<open>n\<close> messages, one after the other.\<close>

fun get_all :: "('r \<Rightarrow> (bytes \<times> 'r) option) \<Rightarrow> nat \<Rightarrow> 'r \<Rightarrow> (bytes list \<times> 'r) option" where
  "get_all get 0 r = Some ([], r)"
| "get_all get (Suc n) r = do {
     (x, r) \<leftarrow> get r;
     (xs, r) \<leftarrow> get_all get n r;
     Some (x # xs, r) }"

locale stream_channel = message_source put ready fits
  for put :: "'s \<Rightarrow> bytes \<Rightarrow> (bytes \<times> 's) option" and ready fits +
  fixes get :: "'r \<Rightarrow> (bytes \<times> 'r) option"
    and wire :: "'r \<Rightarrow> bytes"
    and paired :: "'s \<Rightarrow> 'r \<Rightarrow> bool"
  assumes paired_ready: "paired s r \<Longrightarrow> ready s"
    and get_put: "paired s r \<Longrightarrow> fits msg \<Longrightarrow> put s msg = Some (c, s') \<Longrightarrow> wire r = c @ rest \<Longrightarrow>
      \<exists>r'. get r = Some (msg, r') \<and> wire r' = rest \<and> paired s' r'"
begin

lemma get_all_put_all:
  "paired s r \<Longrightarrow> \<forall>msg \<in> set msgs. fits msg \<Longrightarrow> run_all put s msgs = Some (cs, s') \<Longrightarrow>
   wire r = concat cs @ rest \<Longrightarrow>
   \<exists>r'. get_all get (length msgs) r = Some (msgs, r') \<and> wire r' = rest \<and> paired s' r'"
proof (induction msgs arbitrary: s r cs)
  case Nil
  then show ?case by simp
next
  case (Cons msg msgs)
  obtain c s1 cs' where c: "put s msg = Some (c, s1)" "run_all put s1 msgs = Some (cs', s')" "cs = c # cs'"
    using Cons.prems(3) by (auto simp: bind_eq_Some_conv)
  then obtain r1 where r1: "get r = Some (msg, r1)" "wire r1 = concat cs' @ rest" "paired s1 r1"
    using get_put [OF Cons.prems(1) _ c(1), of "concat cs' @ rest"] Cons.prems(2,4) by auto
  then show ?case using Cons.IH [OF r1(3) _ c(2) r1(2)] Cons.prems(2) by auto
qed

lemma delivers:
  assumes "paired s r" "\<forall>msg \<in> set msgs. fits msg"
  obtains cs s' where "run_all put s msgs = Some (cs, s')"
    "\<And>rest. wire r = concat cs @ rest \<Longrightarrow>
      \<exists>r'. get_all get (length msgs) r = Some (msgs, r') \<and> wire r' = rest \<and> paired s' r'"
  using put_all [OF paired_ready [OF assms(1)] assms(2)] get_all_put_all [OF assms] by blast

end

text \<open>
  The two ends of a connection: the library, the connection, the network and the memory. The
  sender has its messages at an address outside its message buffer.
\<close>

type_synonym 'a sock = "'a aead_scheme \<times> lnsocket \<times> net \<times> mem"

fun sock_put :: "addr \<times> 'a sock \<Rightarrow> bytes \<Rightarrow> (bytes \<times> addr \<times> 'a sock) option" where
  "sock_put (buf, L, ln, net, m) msg =
     (case lnsocket_write L ln buf (of_nat (length msg)) net (mwrite m buf msg) of
        Some (True, ln, net', m) \<Rightarrow> Some (drop (length (n_sent net)) (n_sent net'), buf, L, ln, net', m)
      | _ \<Rightarrow> None)"

fun sock_get :: "'a sock \<Rightarrow> (bytes \<times> 'a sock) option" where
  "sock_get (L, ln, net, m) =
     (case lnsocket_read L ln net m of
        Some (Some (a, n), ln, net, m) \<Rightarrow> Some (mread m a (unat n), L, ln, net, m)
      | _ \<Rightarrow> None)"

fun sock_wire :: "'a sock \<Rightarrow> bytes" where
  "sock_wire (L, ln, net, m) = stream (n_in net)"

fun sock_ready :: "addr \<times> 'a sock \<Rightarrow> bool" where
  "sock_ready (buf, L, ln, net, m) \<longleftrightarrow> aead_ok L \<and> ln_wf ln \<and> ln_socket ln \<noteq> 0 \<and>
     chan_ok (send_chan (ln_crypto_state ln)) \<and> n_out net = [] \<and>
     (buf + 2 ^ 16 \<le> c_start (ln_msgbuf ln) \<or> c_end (ln_msgbuf ln) \<le> buf)"

fun sock_paired :: "addr \<times> 'a sock \<Rightarrow> 'a sock \<Rightarrow> bool" where
  "sock_paired (buf, L, ln, net, m) (L', ln', net', m') \<longleftrightarrow>
     sock_ready (buf, L, ln, net, m) \<and> L' = L \<and> ln_wf ln' \<and>
     in_sync (ln_crypto_state ln) (ln_crypto_state ln')"

text \<open>A message and its copy being decrypted have to fit the message buffer together.\<close>

definition msg_fits :: "bytes \<Rightarrow> bool" where
  "msg_fits msg \<longleftrightarrow> length msg + 16 + length msg \<le> MSGBUF_MEM"

lemma msg_fits_iff: "msg_fits msg \<longleftrightarrow> length msg \<le> 65528"
  by (auto simp: msg_fits_def MSGBUF_MEM_def)

lemma sock_put_eq:
  assumes "sock_ready (buf, L, ln, net, m)" "length msg < 2 ^ 16"
    and "bolt8_encrypt L (send_chan (ln_crypto_state ln)) msg = (packet, ch)"
  shows "sock_put (buf, L, ln, net, m) msg = Some (packet, buf, L, after_write ln ch,
      net\<lparr>n_sent := n_sent net @ packet\<rparr>, mwrite (mwrite m buf msg) (c_start (ln_msgbuf ln)) packet)"
proof -
  have n: "unat (of_nat (length msg) :: u16) = length msg" using assms(2) by simp
  have "buf + length msg \<le> c_start (ln_msgbuf ln) \<or> c_start (ln_msgbuf ln) + 18 \<le> buf"
    using assms(1,2) by (auto simp: ln_wf_def MSGBUF_MEM_def)
  then have "lnsocket_write L ln buf (of_nat (length msg)) net (mwrite m buf msg) =
      Some (True, after_write ln ch, net\<lparr>n_sent := n_sent net @ packet\<rparr>,
        mwrite (mwrite m buf msg) (c_start (ln_msgbuf ln)) packet)"
    using assms by (intro write_sends) (simp_all add: n)
  then show ?thesis by simp
qed

lemma after_write_simps [simp]:
  "ln_wf (after_write ln ch) \<longleftrightarrow> ln_wf (ln\<lparr>ln_msgbuf := reset_cursor (ln_msgbuf ln)\<rparr>)"
  "ln_socket (after_write ln ch) = ln_socket ln"
  "c_start (ln_msgbuf (after_write ln ch)) = c_start (ln_msgbuf ln)"
  "c_end (ln_msgbuf (after_write ln ch)) = c_end (ln_msgbuf ln)"
  "chan_ok ch \<Longrightarrow> send_chan (ln_crypto_state (after_write ln ch)) = ch"
  by (simp_all add: after_write_def ln_wf_def reset_cursor_def)

lemma ln_wf_reset [simp]: "ln_wf ln \<Longrightarrow> ln_wf (ln\<lparr>ln_msgbuf := reset_cursor (ln_msgbuf ln)\<rparr>)"
  by (auto simp: ln_wf_def reset_cursor_def cursor_ok_def)

lemma ln_wf_after_read: "ln_wf ln \<Longrightarrow> n + 16 + n \<le> MSGBUF_MEM \<Longrightarrow> ln_wf (after_read ln n ch)"
  by (auto simp: ln_wf_def after_read_def reset_cursor_def cursor_ok_def)

lemma sock_put_ready:
  assumes "sock_ready s" "length msg < 2 ^ 16"
  shows "\<exists>c s'. sock_put s msg = Some (c, s') \<and> sock_ready s'"
proof -
  obtain buf L ln net m where s: "s = (buf, L, ln, net, m)" by (cases s)
  obtain packet ch where e: "bolt8_encrypt L (send_chan (ln_crypto_state ln)) msg = (packet, ch)"
    by (cases "bolt8_encrypt L (send_chan (ln_crypto_state ln)) msg")
  have "chan_ok ch" using bolt8_encrypt_ok [of "send_chan (ln_crypto_state ln)" L msg] assms(1) e by (simp add: s)
  then show ?thesis using sock_put_eq [of buf L ln net m msg packet ch] assms e by (simp add: s)
qed

lemma sock_get_put:
  assumes "sock_paired s r" "msg_fits msg" "sock_put s msg = Some (c, s')" "sock_wire r = c @ rest"
  shows "\<exists>r'. sock_get r = Some (msg, r') \<and> sock_wire r' = rest \<and> sock_paired s' r'"
proof -
  obtain buf L ln net m where s: "s = (buf, L, ln, net, m)" by (cases s)
  obtain lnr netr mr where r: "r = (L, lnr, netr, mr)" using assms(1) s by (cases r) simp
  obtain packet ch where e: "bolt8_encrypt L (send_chan (ln_crypto_state ln)) msg = (packet, ch)"
    by (cases "bolt8_encrypt L (send_chan (ln_crypto_state ln)) msg")
  have len: "length msg \<le> 65528" using assms(2) by (simp add: msg_fits_iff)
  have ready: "sock_ready (buf, L, ln, net, m)" using assms(1) by (simp add: s r)
  have pair: "ln_wf lnr" "chan_ok (send_chan (ln_crypto_state ln))"
      "recv_chan (ln_crypto_state lnr) = send_chan (ln_crypto_state ln)"
    using assms(1) by (simp_all add: s r in_sync_def)
  have ch: "chan_ok ch" using bolt8_encrypt_ok [OF pair(2), of L msg] e by simp
  have put: "c = packet" "s' = (buf, L, after_write ln ch, net\<lparr>n_sent := n_sent net @ packet\<rparr>,
      mwrite (mwrite m buf msg) (c_start (ln_msgbuf ln)) packet)"
    using sock_put_eq [OF ready _ e] assms(3) len by (auto simp: s simp del: sock_put.simps)
  let ?a = "c_start (ln_msgbuf lnr) + length msg + 16"
  have "aead_ok L" using ready by simp
  then obtain net' m' where get: "lnsocket_read L lnr netr mr =
      Some (Some (?a, of_nat (length msg)), after_read lnr (length msg) ch, net', m')"
      "mread m' ?a (length msg) = msg" "stream (n_in net') = rest"
    using read_delivers [of L lnr msg packet ch netr rest mr] pair e len assms(4) put(1) by (auto simp: r)
  have "sock_get r = Some (msg, L, after_read lnr (length msg) ch, net', m')"
    using get len by (simp add: r)
  moreover have "ln_wf (after_read lnr (length msg) ch)"
    using ln_wf_after_read [OF pair(1)] assms(2) by (simp add: msg_fits_def)
  moreover have "in_sync (ln_crypto_state (after_write ln ch)) (ln_crypto_state (after_read lnr (length msg) ch))"
    using ch by (simp add: in_sync_def after_read_def)
  ultimately show ?thesis using get(3) ready ch by (simp add: put(2))
qed

interpretation sock: stream_channel sock_put sock_ready msg_fits sock_get sock_wire sock_paired
proof unfold_locales
  fix s :: "addr \<times> 'a sock" and msg
  assume "sock_ready s" "msg_fits msg"
  then show "\<exists>c s'. sock_put s msg = Some (c, s') \<and> sock_ready s'"
    by (intro sock_put_ready) (simp_all add: msg_fits_iff)
next
  fix s r :: "addr \<times> 'a sock" and r' :: "'a sock"
  show "sock_paired s r' \<Longrightarrow> sock_ready s" by (cases s; cases r') simp
next
  fix s s' :: "addr \<times> 'a sock" and r :: "'a sock" and msg c rest
  assume "sock_paired s r" "msg_fits msg" "sock_put s msg = Some (c, s')" "sock_wire r = c @ rest"
  then show "\<exists>r'. sock_get r = Some (msg, r') \<and> sock_wire r' = rest \<and> sock_paired s' r'"
    by (rule sock_get_put)
qed

section \<open>Safety\<close>

text \<open>
  What every function of the API on a connection keeps: the layout, the key, the socket and the state of
  the handshake; and it changes no
  memory outside the arena, which is the message buffer and the error log.
\<close>

definition stays :: "lnsocket \<Rightarrow> mem \<Rightarrow> lnsocket \<Rightarrow> mem \<Rightarrow> bool" where
  "stays ln m ln' m' \<longleftrightarrow> ln_wf ln' \<and> ln_mem ln' = ln_mem ln \<and> ln_socket ln' = ln_socket ln \<and> ln_key ln' = ln_key ln \<and>
     ln_handshake ln' = ln_handshake ln \<and> c_start (ln_msgbuf ln') = c_start (ln_msgbuf ln) \<and>
     (\<forall>a. a < c_start (ln_msgbuf ln) \<or> c_start (ln_msgbuf ln) + MSGBUF_MEM + ERROR_MEM \<le> a \<longrightarrow> m' a = m a)"

lemma stays_refl [simp]: "ln_wf ln \<Longrightarrow> stays ln m ln m"
  by (simp add: stays_def)

lemma stays_trans: "stays ln m ln' m' \<Longrightarrow> stays ln' m' ln'' m'' \<Longrightarrow> stays ln m ln'' m''"
  by (simp add: stays_def)

lemma stays_wf: "stays ln m ln' m' \<Longrightarrow> ln_wf ln'"
  by (simp add: stays_def)

text \<open>A library whose decryption never writes more than the length of the input without the tag, also
  when it fails.\<close>

definition aead_dec_fits :: "'a aead_scheme \<Rightarrow> bool" where
  "aead_dec_fits L \<longleftrightarrow> (\<forall>k n ad c. length (snd (aead_dec L k n ad c)) \<le> length c - 16)"

text \<open>The texts of \<open>strerror\<close> are short enough for the buffer the errors are formatted in.\<close>

fun short_text :: "read_event \<Rightarrow> bool" where
  "short_text (Read_error e) = (length e \<le> 256)"
| "short_text _ = True"

fun short_write_text :: "write_event \<Rightarrow> bool" where
  "short_write_text (Write_error e) = (length e \<le> 256)"
| "short_write_text _ = True"

definition net_ok :: "net \<Rightarrow> bool" where
  "net_ok net \<longleftrightarrow> length (n_errno net) \<le> 256 \<and> (\<forall>e \<in> set (n_in net). short_text e) \<and>
     (\<forall>e \<in> set (n_out net). short_write_text e)"

definition keys_ok :: "crypto_state \<Rightarrow> bool" where
  "keys_ok cs \<longleftrightarrow> length (cs_sk cs) = 32 \<and> length (cs_rk cs) = 32 \<and> length (cs_s_ck cs) = 32 \<and> length (cs_r_ck cs) = 32"

definition conn_ok :: "lnsocket \<Rightarrow> net \<Rightarrow> bool" where
  "conn_ok ln net \<longleftrightarrow> ln_wf ln \<and> keys_ok (ln_crypto_state ln) \<and> net_ok net"

text \<open>A call is safe when it returns at all, and then with the connection in order.\<close>

definition safe :: "lnsocket \<Rightarrow> mem \<Rightarrow> 'r io \<Rightarrow> bool" where
  "safe ln m r \<longleftrightarrow> (\<exists>x ln' net' m'. r = Some (x, ln', net', m') \<and> stays ln m ln' m' \<and> conn_ok ln' net')"

lemma safe_return: "stays ln m ln' m' \<Longrightarrow> conn_ok ln' net' \<Longrightarrow> safe ln m (Some (x, ln', net', m'))"
  by (simp add: safe_def)

lemma safe_from: "safe ln' m' r \<Longrightarrow> stays ln m ln' m' \<Longrightarrow> safe ln m r"
  unfolding safe_def using stays_trans by blast

lemma os_read_ok: "net_ok net \<Longrightarrow> net_ok (snd (os_read net sz))"
  by (auto simp: net_ok_def os_read_def split: list.split read_event.split)

lemma os_write_ok: "net_ok net \<Longrightarrow> net_ok (snd (os_write net bs))"
  by (auto simp: net_ok_def os_write_def split: list.split write_event.split)

lemma read_all_ok: "net_ok net \<Longrightarrow> read_all net sz = (ok, bs, net') \<Longrightarrow> net_ok net'"
proof (induction net sz arbitrary: ok bs net' rule: read_all.induct)
  case (1 net sz)
  obtain r net1 where r: "os_read net sz = (r, net1)" by force
  then have "net_ok net1" using os_read_ok [OF 1(3), of sz] by simp
  then show ?case using 1(4) 1(1,2) [OF _ r [symmetric]] r 1(3)
    by (subst (asm) read_all.simps) (auto split: if_splits read_event.splits prod.splits)
qed

lemma length_dec_nat: "n < 10 ^ k \<Longrightarrow> 0 < k \<Longrightarrow> length (dec_nat n) \<le> k"
proof (induction n arbitrary: k rule: dec_nat.induct)
  case (1 n)
  show ?case
  proof (cases "n < 10")
    case True
    then show ?thesis using 1(3) by (simp add: dec_nat.simps)
  next
    case False
    obtain j where "k = Suc j" using 1(3) by (cases k) auto
    moreover from this have "0 < j" using 1(2) False by (cases j) auto
    ultimately have k: "k = Suc j" "0 < j" by simp_all
    then have "n div 10 < 10 ^ j" using 1(2) by (simp add: less_mult_imp_div_less mult.commute)
    then show ?thesis using 1(1) [OF False _ k(2)] False k(1) by (subst dec_nat.simps) simp
  qed
qed

lemma length_dec_int: "\<bar>i\<bar> < 10 ^ k \<Longrightarrow> 0 < k \<Longrightarrow> length (dec_int i) \<le> Suc k"
  using length_dec_nat [of "nat \<bar>i\<bar>" k] by (auto simp: dec_int_def nat_less_iff)

lemma note_error_total:
  assumes "cursor_ok (e_cur errs)" "length fn + length file + length msg \<le> 400" "line < 10 ^ 9"
  shows "\<exists>c m'. note_error errs (fn, file, line) msg m = Some (errs\<lparr>e_cur := c\<rparr>, m') \<and>
    cursor_ok c \<and> c_start c = c_start (e_cur errs) \<and> c_end c = c_end (e_cur errs) \<and>
    (\<forall>a. a < c_start c \<or> c_end c \<le> a \<longrightarrow> m' a = m a)"
proof -
  let ?c = "e_cur errs"
  let ?msg = "ascii fn @ ascii '':'' @ ascii file @ ascii '':'' @ dec_nat line @ ascii '': '' @ msg"
  have len: "length ?msg \<le> 413" using length_dec_nat [OF assms(3)] assms(2) by simp
  then have small: "length ?msg < 2 ^ 31" by simp
  show ?thesis
  proof (cases "e_enabled errs")
    case False
    then show ?thesis using assms(1) by (intro exI [of _ ?c] exI [of _ m]) (simp add: note_error_def note_error_fmt_def)
  next
    case True
    then have e: "note_error errs (fn, file, line) msg m =
        (if c_p ?c + length ?msg < c_end ?c
         then Some (errs\<lparr>e_cur := ?c\<lparr>c_p := c_p ?c + length ?msg + 1\<rparr>\<rparr>, mwrite m (c_p ?c) (?msg @ [0]))
         else Some (errs\<lparr>e_cur := ?c\<rparr>, m))"
      using len unfolding note_error_def note_error_fmt_def cursor_push_error_def prod.case
        cursor_push_c_str_eq [OF assms(1) small] by simp
    show ?thesis
    proof (cases "c_p ?c + length ?msg < c_end ?c")
      case True
      then have "cursor_ok (?c\<lparr>c_p := c_p ?c + length ?msg + 1\<rparr>)" using assms(1) by (simp add: cursor_ok_def)
      moreover have "mwrite m (c_p ?c) (?msg @ [0]) a = m a" if "a < c_start ?c \<or> c_end ?c \<le> a" for a
        using that True assms(1) by (intro mwrite_outside) (auto simp: cursor_ok_def)
      ultimately show ?thesis unfolding e if_P [OF True] by fastforce
    next
      case False
      then show ?thesis unfolding e if_not_P [OF False] using assms(1) by blast
    qed
  qed
qed

lemma ln_note_total:
  assumes "ln_wf ln" "length fn + length file + length msg \<le> 400" "line < 10 ^ 9"
  shows "\<exists>errs m'. ln_note ln (fn, file, line) msg m = Some (ln\<lparr>ln_errs := errs\<rparr>, m') \<and>
    stays ln m (ln\<lparr>ln_errs := errs\<rparr>) m'"
proof -
  have "cursor_ok (e_cur (ln_errs ln))" using assms(1) by (simp add: ln_wf_def)
  from note_error_total [OF this assms(2,3), of m] obtain c m' where
    "note_error (ln_errs ln) (fn, file, line) msg m = Some ((ln_errs ln)\<lparr>e_cur := c\<rparr>, m')" "cursor_ok c"
    "c_start c = c_start (e_cur (ln_errs ln))" "c_end c = c_end (e_cur (ln_errs ln))"
    "\<forall>a. a < c_start c \<or> c_end c \<le> a \<longrightarrow> m' a = m a" by blast
  then show ?thesis using assms(1)
    by (intro exI [of _ "(ln_errs ln)\<lparr>e_cur := c\<rparr>"] exI [of _ m']) (auto simp: ln_note_def stays_def ln_wf_def)
qed

lemma ln_fail_total:
  assumes "ln_wf ln" "length fn + length file + length msg \<le> 400" "line < 10 ^ 9"
  obtains errs m' where "ln_fail r ln (fn, file, line) msg net m = Some (r, ln\<lparr>ln_errs := errs\<rparr>, net, m')"
    "stays ln m (ln\<lparr>ln_errs := errs\<rparr>) m'"
  using ln_note_total [OF assms, of m] by (auto simp: ln_fail_def)

lemma fail_ok:
  assumes "conn_ok ln net" "length fn + length file + length msg \<le> 400" "line < 10 ^ 9" "stays ln0 m0 ln m"
  shows "\<exists>ln' m'. ln_fail r ln (fn, file, line) msg net m = Some (r, ln', net, m') \<and> stays ln0 m0 ln' m' \<and> conn_ok ln' net"
proof -
  have wf: "ln_wf ln" using assms(1) by (simp add: conn_ok_def)
  obtain errs m' where e: "ln_fail r ln (fn, file, line) msg net m = Some (r, ln\<lparr>ln_errs := errs\<rparr>, net, m')"
      "stays ln m (ln\<lparr>ln_errs := errs\<rparr>) m'"
    by (rule ln_fail_total [OF wf assms(2,3)])
  then have "conn_ok (ln\<lparr>ln_errs := errs\<rparr>) net" using assms(1) stays_wf [OF e(2)] by (simp add: conn_ok_def)
  then show ?thesis using stays_trans [OF assms(4) e(2)] e(1) by blast
qed

lemma safe_fail:
  assumes "conn_ok ln net" "length fn + length file + length msg \<le> 400" "line < 10 ^ 9" "stays ln0 m0 ln m"
  shows "safe ln0 m0 (ln_fail r ln (fn, file, line) msg net m)"
  using fail_ok [OF assms, of r] by (auto simp: safe_def)

lemma maybe_rotate_total:
  assumes "length k = 32" "length ck = 32"
  shows "\<exists>n' k' ck'. maybe_rotate_key H n k ck = Some (n', k', ck') \<and> length k' = 32 \<and> length ck' = 32"
proof -
  obtain ck' k' where r: "bolt8_hkdf ck k = (ck', k')" by force
  then show ?thesis using assms length_bolt8_hkdf [OF r] by (auto simp: maybe_rotate_key_def hkdf_two_keys_eq)
qed

lemma decrypt_header_total:
  assumes "aead_ok L" "length hdr = 18" "keys_ok cs"
  shows "\<exists>r cs'. cryptomsg_decrypt_header L cs hdr = Some (r, cs') \<and> keys_ok cs'"
proof -
  obtain ok d where d: "aead_dec L (cs_rk cs) (le64_nonce (lib_order L) (cs_rn cs)) [] hdr = (ok, d)" by force
  have "ok \<Longrightarrow> length d = 2" using assms(1,2) d unfolding aead_ok_def by fastforce
  then show ?thesis using d assms(3) by (auto simp: cryptomsg_decrypt_header_def Let_def keys_ok_def)
qed

lemma decrypt_body_total:
  assumes "aead_ok L" "aead_dec_fits L" "keys_ok cs" "n < 2 ^ 31"
  shows "\<exists>ok cs' m'. cryptomsg_decrypt_body L cs inp (n + 16) out n m = Some (ok, cs', m') \<and> keys_ok cs' \<and>
    (\<forall>a. a < out \<or> out + n \<le> a \<longrightarrow> m' a = m a)"
proof -
  obtain ok d where d: "aead_dec L (cs_rk cs) (le64_nonce (lib_order L) (cs_rn cs)) [] (mread m inp (n + 16)) = (ok, d)" by force
  have "length d \<le> length (mread m inp (n + 16)) - 16" using assms(2) d unfolding aead_dec_fits_def by (metis snd_conv)
  then have fits: "length d \<le> n" by simp
  have len: "ok \<Longrightarrow> length d = n" using assms(1) d unfolding aead_ok_def by fastforce
  have out: "mwrite m out d a = m a" if "a < out \<or> out + n \<le> a" for a
    using that fits by (intro mwrite_outside) auto
  have k: "length (cs_rk cs) = 32" "length (cs_r_ck cs) = 32" using assms(3) by (simp_all add: keys_ok_def)
  obtain n' k' ck' where rot: "maybe_rotate_key (lib_host L) (cs_rn cs + 1) (cs_rk cs) (cs_r_ck cs) = Some (n', k', ck')"
      "length k' = 32" "length ck' = 32"
    using maybe_rotate_total [OF k] by blast
  show ?thesis
  proof (cases ok)
    case True
    then show ?thesis using d len rot out assms(3,4)
      by (auto simp: cryptomsg_decrypt_body_def Let_def decrypt_size_small keys_ok_def)
  next
    case False
    then show ?thesis using d out assms(3,4)
      by (auto simp: cryptomsg_decrypt_body_def Let_def decrypt_size_small keys_ok_def)
  qed
qed

lemma encrypt_msg_total:
  assumes "aead_ok L" "keys_ok cs"
  shows "\<exists>p outlen cs' m'. cryptomsg_encrypt_msg L cs msg n out outcap m = Some (p, outlen, cs', m') \<and> keys_ok cs' \<and>
    (p = None \<and> outcap < n \<or> p = Some out \<and> outlen = n + 34) \<and>
    (\<forall>a. a < out \<or> out + (n + 34) \<le> a \<longrightarrow> m' a = m a)"
proof (cases "outcap < n")
  case True
  then show ?thesis using assms(2) by (simp add: cryptomsg_encrypt_msg_def Let_def)
next
  case False
  let ?l = "host_bytes (lib_order L) 2 (cpu_to_be16 (lib_order L) (of_nat n))"
  have k: "length (cs_sk cs) = 32" "length (cs_s_ck cs) = 32" using assms(2) by (simp_all add: keys_ok_def)
  obtain c where c: "aead_enc L (cs_sk cs) (le64_nonce (lib_order L) (cs_sn cs)) [] ?l = (True, c)" "length c = 18"
    by (rule aead_encE [OF assms(1) k(1), of "le64_nonce (lib_order L) (cs_sn cs)" "[]" ?l]) (simp_all add: le64_nonce_eq bytes_simps)
  let ?p = "mread (mwrite m out c) msg n"
  obtain c2 where c2: "aead_enc L (cs_sk cs) (le64_nonce (lib_order L) (cs_sn cs + 1)) [] ?p = (True, c2)" "length c2 = n + 16"
    by (rule aead_encE [OF assms(1) k(1), of "le64_nonce (lib_order L) (cs_sn cs + 1)" "[]" ?p]) (simp_all add: le64_nonce_eq)
  obtain n' k' ck' where rot: "maybe_rotate_key (lib_host L) (cs_sn cs + 1 + 1) (cs_sk cs) (cs_s_ck cs) = Some (n', k', ck')"
      "length k' = 32" "length ck' = 32"
    using maybe_rotate_total [OF k] by blast
  have "mwrite (mwrite m out c) (out + 18) c2 a = m a" if "a < out \<or> out + (n + 34) \<le> a" for a
    using that c(2) c2(2) by (auto simp: mwrite_def)
  then show ?thesis using False c c2 rot assms(2) by (simp add: cryptomsg_encrypt_msg_def Let_def keys_ok_def)
qed

lemma stays_mwrite:
  assumes "ln_wf ln" "c_start (ln_msgbuf ln) \<le> a" "a + length bs \<le> c_end (ln_msgbuf ln)" "stays ln0 m0 ln m"
  shows "stays ln0 m0 ln (mwrite m a bs)"
  using assms by (auto simp: stays_def ln_wf_def mwrite_outside)

text \<open>Moving the position of the message buffer or emptying the log keeps the layout.\<close>

lemma ln_wf_pos: "ln_wf ln \<Longrightarrow> c_start (ln_msgbuf ln) \<le> a \<Longrightarrow> a \<le> c_end (ln_msgbuf ln) \<Longrightarrow>
    ln_wf (ln\<lparr>ln_msgbuf := (ln_msgbuf ln)\<lparr>c_p := a\<rparr>\<rparr>)"
  by (auto simp: ln_wf_def cursor_ok_def)

lemma ln_wf_log: "ln_wf ln \<Longrightarrow> ln_wf (ln\<lparr>ln_errs := (ln_errs ln)\<lparr>e_cur := reset_cursor (e_cur (ln_errs ln))\<rparr>\<rparr>)"
  by (auto simp: ln_wf_def cursor_ok_def reset_cursor_def)

lemma ln_wf_crypto [simp]: "ln_wf (ln\<lparr>ln_crypto_state := cs\<rparr>) \<longleftrightarrow> ln_wf ln"
  by (simp add: ln_wf_def)

lemma abs_c_int: "\<bar>c_int n\<bar> \<le> 2 ^ 31"
  using sint_ge [of "of_nat n :: 32 word"] sint_lt [of "of_nat n :: 32 word"] by (simp add: c_int_def abs_le_iff)

lemma length_oom_text: "sz < 10 ^ 10 \<Longrightarrow> length (oom_text c sz) \<le> 100"
proof -
  assume sz: "sz < 10 ^ 10"
  have "length (dec_int (c_int n)) \<le> Suc 10" for n
    using abs_c_int [of n] by (intro length_dec_int) simp_all
  note this [of "c_end c - c_p c"] this [of "c_end c - c_p c + sz"]
  moreover have "length (dec_nat sz) \<le> 10" "length (dec_nat MSGBUF_MEM) \<le> 10"
    using sz by (auto simp: MSGBUF_MEM_def intro!: length_dec_nat)
  ultimately show ?thesis by (simp add: oom_text_def)
qed

lemma read_all_length: "read_all net sz = (ok, bs, net') \<Longrightarrow> length bs \<le> sz \<and> (ok \<longrightarrow> length bs = sz)"
  using read_all_stream [of net sz ok bs net'] by auto

lemma net_ok_errno: "net_ok net \<Longrightarrow> length (n_errno net) \<le> 256"
  by (simp add: net_ok_def)

lemma conn_ok_update: "conn_ok ln net \<Longrightarrow> ln_wf ln' \<Longrightarrow> keys_ok (ln_crypto_state ln') \<Longrightarrow> net_ok net' \<Longrightarrow> conn_ok ln' net'"
  by (simp add: conn_ok_def)

text \<open>The second half of \<open>lnsocket_read\<close>: the body, in the \<open>n + 16\<close> and \<open>n\<close> bytes after the start.\<close>

lemma read_body_ok:
  assumes lib: "aead_ok L" "aead_dec_fits L" and ok: "conn_ok ln net" "stays ln0 m0 ln m"
    and k: "k = n + 16" "c_start (ln_msgbuf ln) + k + n \<le> c_end (ln_msgbuf ln)" "n < 2 ^ 16"
    and s: "s = c_start (ln_msgbuf ln)" and r: "read_all net k = (ok, body, net2)"
  shows "conn_ok ln net2" "stays ln0 m0 ln (mwrite m s body)"
    "\<exists>ok2 cs2 m2. cryptomsg_decrypt_body L (ln_crypto_state ln) s k (s + k) n (mwrite m s body) = Some (ok2, cs2, m2) \<and>
       conn_ok (ln\<lparr>ln_crypto_state := cs2\<rparr>) net2 \<and> stays ln0 m0 (ln\<lparr>ln_crypto_state := cs2\<rparr>) m2"
proof -
  have wf: "ln_wf ln" and keys: "keys_ok (ln_crypto_state ln)" and net: "net_ok net2"
    using ok(1) read_all_ok [OF _ r] by (simp_all add: conn_ok_def)
  let ?m = "mwrite m s body"
  show c: "conn_ok ln net2" using ok(1) wf keys net by (rule conn_ok_update)
  show st: "stays ln0 m0 ln ?m"
    using read_all_length [OF r] k s by (intro stays_mwrite [OF wf _ _ ok(2)]) auto
  have "n < 2 ^ 31" using k(3) by simp
  from decrypt_body_total [OF lib keys this, of s "s + k" ?m] obtain ok2 cs2 m2 where
    d: "cryptomsg_decrypt_body L (ln_crypto_state ln) s k (s + k) n ?m = Some (ok2, cs2, m2)"
      "keys_ok cs2" "\<forall>a. a < s + k \<or> s + k + n \<le> a \<longrightarrow> m2 a = ?m a" unfolding k(1) by blast
  have "conn_ok (ln\<lparr>ln_crypto_state := cs2\<rparr>) net2"
    using ok(1) by (rule conn_ok_update) (use wf d(2) net in simp_all)
  moreover have "stays ln0 m0 (ln\<lparr>ln_crypto_state := cs2\<rparr>) m2"
    using st d(3) k s wf by (auto simp: stays_def ln_wf_def)
  ultimately show "\<exists>ok2 cs2 m2. cryptomsg_decrypt_body L (ln_crypto_state ln) s k (s + k) n ?m = Some (ok2, cs2, m2) \<and>
      conn_ok (ln\<lparr>ln_crypto_state := cs2\<rparr>) net2 \<and> stays ln0 m0 (ln\<lparr>ln_crypto_state := cs2\<rparr>) m2"
    using d(1) by blast
qed

lemma read_safe:
  assumes lib: "aead_ok L" "aead_dec_fits L" and ok: "conn_ok ln net"
  shows "safe ln m (lnsocket_read L ln net m)"
proof -
  let ?c = "ln_msgbuf ln" and ?s = "c_start (ln_msgbuf ln)"
  define ln1 where "ln1 = ln\<lparr>ln_errs := (ln_errs ln)\<lparr>e_cur := reset_cursor (e_cur (ln_errs ln))\<rparr>,
    ln_msgbuf := reset_cursor ?c\<rparr>"
  have wf: "ln_wf ln" "keys_ok (ln_crypto_state ln)" "net_ok net" using ok by (simp_all add: conn_ok_def)
  have wf1: "ln_wf ln1" using wf(1) by (auto simp: ln1_def ln_wf_def reset_cursor_def cursor_ok_def)
  have st: "stays ln m ln1 m" using wf1 by (simp add: stays_def ln1_def reset_cursor_def)
  obtain b hdr net1 where r: "read_all net 18 = (b, hdr, net1)" by (cases "read_all net 18")
  have net1: "net_ok net1" using read_all_ok [OF wf(3) r] .
  have crypto1: "ln_crypto_state ln1 = ln_crypto_state ln" by (simp add: ln1_def)
  show ?thesis
  proof (cases b)
    case False
    have "conn_ok ln1 net1" using ok by (rule conn_ok_update) (use wf1 wf(2) net1 crypto1 in simp_all)
    then show ?thesis using False r net_ok_errno [OF net1] st
      by (simp add: lnsocket_read_def safe_fail flip: ln1_def)
  next
    case True
    obtain len cs1 where h: "cryptomsg_decrypt_header L (ln_crypto_state ln) hdr = Some (len, cs1)" "keys_ok cs1"
      using decrypt_header_total [OF lib(1) _ wf(2), of hdr] read_all_length [OF r] True by auto
    define ln2 where "ln2 = ln1\<lparr>ln_crypto_state := cs1\<rparr>"
    have buf1: "ln_msgbuf ln1 = reset_cursor ?c" by (simp add: ln1_def)
    have buf: "ln_msgbuf ln2 = reset_cursor ?c" "ln_crypto_state ln2 = cs1" by (simp_all add: ln2_def ln1_def)
    have wf2: "ln_wf ln2" using wf1 by (simp add: ln2_def)
    have c2: "conn_ok ln2 net1" using ok by (rule conn_ok_update) (use wf2 h(2) net1 buf in simp_all)
    have st2: "stays ln m ln2 m" using st wf2 by (simp add: stays_def ln2_def)
    define at where "at = (\<lambda>a. ln2\<lparr>ln_msgbuf := ?c\<lparr>c_p := a\<rparr>\<rparr>)"
    have at: "conn_ok (at a) net1" "stays ln m (at a) m" if "?s \<le> a" "a \<le> c_end ?c" for a
      using that wf2 c2 st2 buf by (auto simp: conn_ok_def stays_def at_def ln_wf_def cursor_ok_def reset_cursor_def)
    show ?thesis
    proof (cases len)
      case None
      have "length (dec_nat (unat (cs_rn cs1 - 1))) \<le> 20"
        using unsigned_less [of "cs_rn cs1 - 1", where 'a = nat] by (intro length_dec_nat) simp_all
      then show ?thesis using True r h(1) None c2 st2
        by (simp add: lnsocket_read_def crypto1 safe_fail flip: ln1_def ln2_def)
    next
      case (Some l)
      define n where "n = unat l"
      define k where "k = n + 16"
      have n: "n < 2 ^ 16" using unsigned_less [of l, where 'a = nat] by (simp add: n_def)
      have k: "?s + k \<le> c_end ?c" using wf(1) n by (simp add: ln_wf_def MSGBUF_MEM_def k_def)
      define m1 where "m1 = mwrite m ?s (replicate k 0)"
      define m2 where "m2 = mwrite m1 (?s + k) (replicate n 0)"
      have slice: "cursor_slice (ln_msgbuf ln1) (n + 16) m = (Some (make_cursor ?s (?s + k)), ?c\<lparr>c_p := ?s + k\<rparr>, m1)"
        "cursor_slice (?c\<lparr>c_p := ?s + k\<rparr>) n m1 = (if ?s + k + n \<le> c_end ?c
          then (Some (make_cursor (?s + k) (?s + k + n)), ?c\<lparr>c_p := ?s + k + n\<rparr>, m2) else (None, ?c\<lparr>c_p := ?s + k\<rparr>, m1))"
        using k by (simp_all add: cursor_slice_eq buf1 reset_cursor_def m1_def m2_def flip: k_def)
      have m1: "stays ln m (at (?s + k)) m1"
        using k by (auto simp: m1_def intro!: stays_mwrite stays_wf [OF at(2)] at(2)) (simp_all add: at_def)
      have at_eq: "ln2\<lparr>ln_msgbuf := ?c\<lparr>c_p := a\<rparr>\<rparr> = at a"
        "ln1\<lparr>ln_msgbuf := ?c\<lparr>c_p := a\<rparr>, ln_crypto_state := cs\<rparr> = at a\<lparr>ln_crypto_state := cs\<rparr>" for a cs
        by (simp_all add: at_def ln2_def)
      show ?thesis
      proof (cases "?s + k + n \<le> c_end ?c")
        case False
        have "length (oom_text (?c\<lparr>c_p := ?s + k\<rparr>) n) \<le> 100"
          using n by (intro length_oom_text) simp
        then have "safe ln m (ln_fail (None :: (addr \<times> u16) option) (at (?s + k)) (''lnsocket_read'', ''lnsocket.c'', 283)
            (oom_text (?c\<lparr>c_p := ?s + k\<rparr>) n) net1 m1)"
          using k at(1) m1 by (intro safe_fail) simp_all
        then show ?thesis using True r h(1) Some False
          by (simp add: lnsocket_read_def crypto1 slice at_eq flip: ln1_def ln2_def n_def)
      next
        case fits: True
        have m2: "stays ln m (at (?s + k + n)) m2"
          unfolding m2_def using fits m1 at(2) [of "?s + k + n"]
          by (intro stays_mwrite stays_wf [OF at(2)]) (auto simp: stays_def at_def)
        obtain b2 body net2 where r2: "read_all net1 k = (b2, body, net2)" by (cases "read_all net1 k")
        have "c_start (ln_msgbuf (at (?s + k + n))) = ?s" "c_end (ln_msgbuf (at (?s + k + n))) = c_end ?c"
          by (simp_all add: at_def)
        note body = read_body_ok [OF lib at(1) m2 k_def _ n _ r2, unfolded this]
        have crypto2: "ln_crypto_state (at a) = cs1" for a by (simp add: at_def buf)
        show ?thesis
        proof (cases b2)
          case False
          then show ?thesis using True r h(1) Some fits r2 body net_ok_errno [of net2]
            by (simp add: lnsocket_read_def crypto1 slice at_eq make_cursor_def conn_ok_def safe_fail flip: ln1_def ln2_def n_def)
        next
          case b2: True
          from body(3) obtain ok2 cs2 m3 where d: "cryptomsg_decrypt_body L (ln_crypto_state (at (?s + k + n))) ?s k (?s + k) n
              (mwrite m2 ?s body) = Some (ok2, cs2, m3)" "conn_ok ((at (?s + k + n))\<lparr>ln_crypto_state := cs2\<rparr>) net2"
              "stays ln m ((at (?s + k + n))\<lparr>ln_crypto_state := cs2\<rparr>) m3"
            using fits by (auto simp: at_def)
          then show ?thesis using True r h(1) Some fits r2 b2
            by (cases ok2) (simp_all add: lnsocket_read_def crypto1 slice at_eq make_cursor_def crypto2 safe_fail safe_return
                flip: ln1_def ln2_def n_def)
        qed
      qed
    qed
  qed
qed

lemma pull_u16_total: "\<exists>t c'. cursor_pull_u16 bo c m = Some (t, c')"
  by (simp add: cursor_pull_u16_def cursor_pull_def)

lemma recv_safe:
  assumes "aead_ok L" "aead_dec_fits L" "conn_ok ln net"
  shows "safe ln m (lnsocket_recv L ln net m)"
proof -
  from read_safe [OF assms, of m] obtain r ln1 net1 m1 where r: "lnsocket_read L ln net m = Some (r, ln1, net1, m1)"
      "stays ln m ln1 m1" "conn_ok ln1 net1" unfolding safe_def by blast
  show ?thesis
  proof (cases r)
    case None
    then show ?thesis using r by (simp add: lnsocket_recv_def safe_return)
  next
    case (Some x)
    obtain a n where x: "x = (a, n)" by (cases x)
    obtain t cur where t: "cursor_pull_u16 (lib_order L) (make_cursor a (a + unat n)) m1 = Some (t, cur)"
      using pull_u16_total by blast
    show ?thesis
      using r Some x t by (cases t) (simp_all add: lnsocket_recv_def Let_def safe_fail safe_return)
  qed
qed

lemma encrypt_outcome:
  assumes "aead_ok L" "conn_ok ln net"
  shows "\<exists>outlen ln' m'. lnsocket_encrypt L ln msg n net m = Some (outlen, ln', net, m') \<and> outlen < 10 ^ 9 \<and>
    stays ln m ln' m' \<and> conn_ok ln' net \<and>
    (ln_socket ln \<noteq> 0 \<longrightarrow> outlen = unat n + 34 \<and> ln_errs ln' = ln_errs ln)"
proof -
  define ln1 where "ln1 = ln\<lparr>ln_msgbuf := reset_cursor (ln_msgbuf ln)\<rparr>"
  have wf: "ln_wf ln" "keys_ok (ln_crypto_state ln)" "net_ok net" using assms(2) by (simp_all add: conn_ok_def)
  have wf1: "ln_wf ln1" "ln_crypto_state ln1 = ln_crypto_state ln" using wf(1) by (simp_all add: ln1_def)
  have st: "stays ln m ln1 m" "conn_ok ln1 net" using wf wf1 by (simp_all add: stays_def ln1_def reset_cursor_def conn_ok_def)
  let ?s = "c_start (ln_msgbuf ln)"
  have out: "c_start (ln_msgbuf ln1) = ?s" "c_end (ln_msgbuf ln1) = ?s + MSGBUF_MEM" "0 < MSGBUF_MEM"
    using wf(1) by (simp_all add: ln1_def reset_cursor_def ln_wf_def MSGBUF_MEM_def)
  have n: "unat n < 2 ^ 16" using unsigned_less [of n, where 'a = nat] by simp
  show ?thesis
  proof (cases "ln_socket ln = 0")
    case True
    then have "ln_socket ln1 = 0" by (simp add: ln1_def)
    moreover have "\<exists>ln' m'. ln_fail (0 :: nat) ln1 (''lnsocket_encrypt'', ''lnsocket.c'', 507) (ascii ''not connected'') net m =
        Some (0, ln', net, m') \<and> stays ln m ln' m' \<and> conn_ok ln' net"
      using st by (intro fail_ok) simp_all
    ultimately show ?thesis using True by (auto simp: encrypt_defs Let_def simp flip: ln1_def)
  next
    case False
    then have socket: "ln_socket ln1 \<noteq> 0" by (simp add: ln1_def)
    obtain p outlen cs m' where e: "cryptomsg_encrypt_msg L (ln_crypto_state ln) msg (unat n) ?s MSGBUF_MEM m = Some (p, outlen, cs, m')"
        "keys_ok cs" "p = None \<and> MSGBUF_MEM < unat n \<or> p = Some ?s \<and> outlen = unat n + 34"
        "\<forall>a. a < ?s \<or> ?s + (unat n + 34) \<le> a \<longrightarrow> m' a = m a"
      using encrypt_msg_total [OF assms(1) wf(2)] by blast
    have p: "p = Some ?s" "outlen = unat n + 34" using e(3) n by (auto simp: MSGBUF_MEM_def)
    have "stays ln m (ln1\<lparr>ln_crypto_state := cs\<rparr>) m'"
      using st(1) e(4) n by (auto simp: stays_def MSGBUF_MEM_def)
    moreover have "conn_ok (ln1\<lparr>ln_crypto_state := cs\<rparr>) net" using wf wf1 e(2) by (simp add: conn_ok_def)
    ultimately show ?thesis using socket out e(1) p n
      by (simp add: encrypt_defs Let_def wf1(2) flip: ln1_def) (simp add: ln1_def)
  qed
qed

lemma encrypt_safe: "aead_ok L \<Longrightarrow> conn_ok ln net \<Longrightarrow> safe ln m (lnsocket_encrypt L ln msg n net m)"
  using encrypt_outcome [of L ln net msg n m] by (auto simp: safe_def)

lemma os_write_bounds: "os_write net bs = (n, net') \<Longrightarrow> \<bar>n\<bar> \<le> max 1 (int (length bs))"
  by (auto simp: os_write_def split: list.splits write_event.splits)

lemma write_safe:
  assumes "aead_ok L" "conn_ok ln net"
  shows "safe ln m (lnsocket_write L ln msg n net m)"
proof -
  obtain outlen ln1 m1 where e: "lnsocket_encrypt L ln msg n net m = Some (outlen, ln1, net, m1)" "outlen < 10 ^ 9"
      "stays ln m ln1 m1" "conn_ok ln1 net"
    using encrypt_outcome [OF assms, of msg n m] by blast
  obtain w net1 where w: "os_write net (mread m1 (c_start (ln_msgbuf ln)) outlen) = (w, net1)" by force
  have net1: "net_ok net1" using os_write_ok [of net "mread m1 (c_start (ln_msgbuf ln)) outlen"] w e(4)
    by (simp add: conn_ok_def)
  then have c: "conn_ok ln1 net1" using e(4) by (simp add: conn_ok_def)
  have "\<bar>w\<bar> < 10 ^ 9" using os_write_bounds [OF w] e(2) by (simp add: max_def split: if_splits)
  then have "length (dec_int w) \<le> Suc 9" by (rule length_dec_int) simp
  moreover have "length (dec_nat outlen) \<le> 9" using e(2) by (rule length_dec_nat) simp
  ultimately have "safe ln m (ln_fail False ln1 (''lnsocket_write'', ''lnsocket.c'', 528)
      (ascii ''write failed. wrote '' @ dec_int w @ ascii '' bytes, expected '' @ dec_nat outlen @ ascii '' ''
        @ (if w < 0 then n_errno net1 else [])) net1 m1)"
    using net_ok_errno [OF net1] c e(3) by (intro safe_fail) simp_all
  then show ?thesis using e w c
    by (cases "outlen = 0"; cases "w = int outlen") (simp_all add: lnsocket_write_def Let_def safe_return)
qed

lemma send_safe:
  assumes "aead_ok L" "conn_ok ln net"
  shows "safe ln m (lnsocket_send L ln t payload n net m)"
proof -
  define ln1 where "ln1 = ln\<lparr>ln_msgbuf := reset_cursor (ln_msgbuf ln)\<rparr>"
  let ?c = "ln_msgbuf ln1"
  have wf: "ln_wf ln" "keys_ok (ln_crypto_state ln)" "net_ok net" using assms(2) by (simp_all add: conn_ok_def)
  have c: "?c = reset_cursor (ln_msgbuf ln)" by (simp add: ln1_def)
  have n: "unat n < 2 ^ 16" using unsigned_less [of n, where 'a = nat] by simp
  have room: "c_end ?c = c_p ?c + MSGBUF_MEM" "c_start ?c = c_p ?c" "c_p ?c = c_start (ln_msgbuf ln)"
    using wf(1) by (simp_all add: c reset_cursor_def ln_wf_def)
  define d where "d = mread (mwrite m (c_p ?c) (be_bytes 2 t)) payload (unat n)"
  have ld: "length d = unat n" by (simp add: d_def)
  define ln2 where "ln2 = ln1\<lparr>ln_msgbuf := ?c\<lparr>c_p := c_p ?c + 2 + unat n\<rparr>\<rparr>"
  define m2 where "m2 = mwrite (mwrite m (c_p ?c) (be_bytes 2 t)) (c_p ?c + 2) d"
  have 1: "cursor_push_u16 (lib_order L) ?c t m =
      Some (True, ?c\<lparr>c_p := c_p ?c + 2\<rparr>, mwrite m (c_p ?c) (be_bytes 2 t))"
    using cursor_push_eq [of "be_bytes 2 t" ?c m] room by (simp add: cursor_push_u16_eq MSGBUF_MEM_def)
  have small: "length d < 2 ^ 31" using n unfolding ld by simp
  have fits: "c_p ?c + 2 + unat n < c_end ?c" using n unfolding room MSGBUF_MEM_def by simp
  have "cursor_push (?c\<lparr>c_p := c_p ?c + 2\<rparr>) d (c_int (length d)) (mwrite m (c_p ?c) (be_bytes 2 t)) =
      Some (True, ?c\<lparr>c_p := c_p ?c + 2 + unat n\<rparr>, m2)"
    using cursor_push_eq [OF small, of "?c\<lparr>c_p := c_p ?c + 2\<rparr>" "mwrite m (c_p ?c) (be_bytes 2 t)"] fits
    unfolding ld m2_def by simp
  moreover have "c_int (length d) = uint n" using n by (simp add: ld c_int_small)
  ultimately have 2: "cursor_push (?c\<lparr>c_p := c_p ?c + 2\<rparr>) d (uint n) (mwrite m (c_p ?c) (be_bytes 2 t)) =
      Some (True, ?c\<lparr>c_p := c_p ?c + 2 + unat n\<rparr>, m2)" by simp
  have "m2 a = m a" if "a < c_p ?c \<or> c_p ?c + MSGBUF_MEM \<le> a" for a
    using that n by (auto simp: m2_def ld mwrite_outside MSGBUF_MEM_def)
  moreover have wf2: "ln_wf ln2" using wf(1) n by (auto simp: ln2_def ln1_def ln_wf_def cursor_ok_def reset_cursor_def MSGBUF_MEM_def)
  ultimately have "stays ln m ln2 m2" using room by (simp add: stays_def ln2_def ln1_def reset_cursor_def)
  moreover have "conn_ok ln2 net" using wf wf2 by (simp add: conn_ok_def ln2_def ln1_def)
  ultimately have "safe ln m (lnsocket_write L ln2 (c_start ?c) (of_nat (c_p ?c + 2 + unat n - c_start ?c)) net m2)"
    using write_safe [OF assms(1)] safe_from by blast
  moreover have "lnsocket_send L ln t payload n net m =
      lnsocket_write L ln2 (c_start (ln_msgbuf ln2)) (of_nat (c_p (ln_msgbuf ln2) - c_start (ln_msgbuf ln2))) net m2"
    unfolding lnsocket_send_def Let_def ln1_def [symmetric] 1 ln2_def using 2 by (simp add: d_def)
  ultimately show ?thesis by (simp add: ln2_def)
qed

section \<open>Messages that do not fit, and messages overwritten\<close>

lemma read_too_long:
  assumes "aead_ok L" "ln_wf ln" "chan_ok (recv_chan (ln_crypto_state ln))"
    and "bolt8_encrypt L (recv_chan (ln_crypto_state ln)) p = (packet, ch)"
    and "65528 < length p" "length p < 2 ^ 16" "stream (n_in net) = packet @ rest"
  shows "\<exists>ln' net' m'. lnsocket_read L ln net m = Some (None, ln', net', m') \<and>
    stream (n_in net') = drop 18 packet @ rest \<and>
    ln_crypto_state ln' = (ln_crypto_state ln)\<lparr>cs_rn := cs_rn (ln_crypto_state ln) + 1\<rparr>"
proof -
  let ?cs = "ln_crypto_state ln" and ?c = "ln_msgbuf ln" and ?n = "length p"
  define k where "k = ?n + 16"
  define ln2 where "ln2 = ln\<lparr>ln_errs := (ln_errs ln)\<lparr>e_cur := reset_cursor (e_cur (ln_errs ln))\<rparr>,
    ln_crypto_state := ?cs\<lparr>cs_rn := cs_rn ?cs + 1\<rparr>, ln_msgbuf := ?c\<lparr>c_p := c_start ?c + k\<rparr>\<rparr>"
  have len: "length packet = ?n + 34" using length_bolt8_packet [OF assms(1,3), of p] assms(4) by simp
  obtain net1 where r1: "read_all net 18 = (True, take 18 packet, net1)" "stream (n_in net1) = drop 18 packet @ rest"
    using read_all_stream [of net 18] assms(7) len by (cases "read_all net 18") auto
  have l: "unat (of_nat ?n :: u16) = ?n" using assms(6) by simp
  have e: "c_end ?c = c_start ?c + MSGBUF_MEM" using assms(2) by (simp add: ln_wf_def)
  have fits: "c_start ?c + k \<le> c_end ?c" "\<not> c_start ?c + k + ?n \<le> c_end ?c"
    using assms(5,6) e by (simp_all add: MSGBUF_MEM_def k_def)
  have wf2: "ln_wf ln2" using assms(2) fits(1) by (auto simp: ln2_def ln_wf_def cursor_ok_def reset_cursor_def)
  have "length (oom_text (?c\<lparr>c_p := c_start ?c + k\<rparr>) ?n) \<le> 100"
    using assms(6) by (intro length_oom_text) simp
  then have "length ''lnsocket_read'' + length ''lnsocket.c'' + length (oom_text (?c\<lparr>c_p := c_start ?c + k\<rparr>) ?n) \<le> 400" by simp
  then obtain errs m' where f: "ln_fail (None :: (addr \<times> u16) option) ln2 (''lnsocket_read'', ''lnsocket.c'', 283)
      (oom_text (?c\<lparr>c_p := c_start ?c + k\<rparr>) ?n) net1 (mwrite m (c_start ?c) (replicate k 0)) =
      Some (None, ln2\<lparr>ln_errs := errs\<rparr>, net1, m')"
    by (rule ln_fail_total [OF wf2, of _ _ _ 283]) auto
  have "lnsocket_read L ln net m = Some (None, ln2\<lparr>ln_errs := errs\<rparr>, net1, m')"
    using f unfolding lnsocket_read_def Let_def reset_cursor_def
    by (simp add: r1 l fits decrypt_header_packet [OF assms(1,3,4)] cursor_slice_eq ln2_def reset_cursor_def flip: k_def)
  then show ?thesis using r1(2) by (simp add: ln2_def)
qed

text \<open>What \<open>lnsocket_send\<close> puts on the wire.\<close>

lemma send_garbles:
  assumes L: "aead_ok L" and wf: "ln_wf ln" "ln_socket ln \<noteq> 0" "chan_ok (send_chan (ln_crypto_state ln))"
    and out: "n_out net = []"
    and away: "payload + unat n \<le> c_start (ln_msgbuf ln) \<or> c_end (ln_msgbuf ln) \<le> payload"
    and msg: "msg = be_bytes 2 t @ mread m payload (unat n)"
    and g: "garbled = take (unat (n + 2)) (bolt8_header L (send_chan (ln_crypto_state ln)) (unat (n + 2)) @ drop 18 msg)"
    and e: "bolt8_encrypt L (send_chan (ln_crypto_state ln)) garbled = (packet, ch)"
  shows "\<exists>ln' m'. lnsocket_send L ln t payload n net m = Some (True, ln', net\<lparr>n_sent := n_sent net @ packet\<rparr>, m') \<and>
    ln_crypto_state ln' = ln_crypto_state (after_write ln ch)"
proof -
  let ?c = "ln_msgbuf ln" and ?s = "c_start (ln_msgbuf ln)" and ?k = "unat (n + 2)"
  have n: "unat n < 2 ^ 16" "?k \<le> unat n + 2" "?k < 2 ^ 16"
    using unsigned_less [of n, where 'a = nat] unsigned_less [of "n + 2", where 'a = nat] by (simp_all add: unat_word_ariths)
  have cend: "c_end ?c = ?s + MSGBUF_MEM" using wf(1) by (simp add: ln_wf_def)
  have room: "?s + 2 < c_end ?c" "?s + 2 + unat n < c_end ?c" "?k \<le> MSGBUF_MEM"
    using n unfolding cend by (simp_all add: MSGBUF_MEM_def)
  define m1 where "m1 = mwrite m ?s (be_bytes 2 t)"
  define d where "d = mread m1 payload (unat n)"
  have d: "d = mread m payload (unat n)" "length d = unat n"
    using away room unfolding d_def m1_def by (auto intro!: mread_mwrite_disjoint)
  have small: "length d < 2 ^ 31" "c_int (length d) = uint n" using n(1) unfolding d(2) by (simp_all add: c_int_small)
  define m2 where "m2 = mwrite m1 (?s + 2) d"
  have m2: "m2 = mwrite m ?s msg" using mwrite_mwrite_append [of m ?s "be_bytes 2 t" d] by (simp add: m2_def m1_def msg d(1))
  have p1: "cursor_push_u16 (lib_order L) (reset_cursor ?c) t m = Some (True, ?c\<lparr>c_p := ?s + 2\<rparr>, m1)"
    using cursor_push_eq [of "be_bytes 2 t" "reset_cursor ?c" m] room
    by (simp add: cursor_push_u16_eq reset_cursor_def m1_def)
  have p2: "cursor_push (?c\<lparr>c_p := ?s + 2\<rparr>) d (uint n) m1 = Some (True, ?c\<lparr>c_p := ?s + 2 + unat n\<rparr>, m2)"
    using cursor_push_eq [OF small(1), of "?c\<lparr>c_p := ?s + 2\<rparr>" m1] room unfolding small(2) by (simp add: m2_def d(2))
  let ?ln = "ln\<lparr>ln_msgbuf := ?c\<lparr>c_p := ?s + 2 + unat n\<rparr>\<rparr>"
  have send: "lnsocket_send L ln t payload n net m = lnsocket_write L ?ln ?s (n + 2) net m2"
    using p1 p2 by (simp add: lnsocket_send_def Let_def d_def add.commute)
  let ?h = "bolt8_header L (send_chan (ln_crypto_state ln)) ?k"
  have h: "length ?h = 18" using length_bolt8_header [OF L wf(3)] .
  have g2: "garbled = mread (mwrite m2 ?s ?h) ?s ?k"
  proof (rule nth_equalityI)
    show "length garbled = length (mread (mwrite m2 ?s ?h) ?s ?k)" using d(2) h n(2) by (simp add: g msg d(1))
    fix i assume "i < length garbled"
    then have "i < ?k" "i < length msg" using d(2) h n(2) by (auto simp: g msg d(1))
    then show "garbled ! i = mread (mwrite m2 ?s ?h) ?s ?k ! i"
      using h d n(2) by (auto simp: g msg m2 nth_append mwrite_def min_def)
  qed
  have wf': "ln_wf ?ln" "ln_socket ?ln \<noteq> 0" using wf room by (auto simp: ln_wf_def cursor_ok_def)
  have "lnsocket_write L ?ln ?s (n + 2) net m2 =
      Some (True, after_write ?ln ch, net\<lparr>n_sent := n_sent net @ packet\<rparr>, mwrite m2 ?s packet)"
    using write_in_place [OF L wf', of net garbled m2 "n + 2" ?s packet ch] wf(3) out g2 e by simp
  then show ?thesis unfolding send by (simp add: after_write_def)
qed

section \<open>Properties\<close>

text \<open>C26: \<open>read_all\<close> reads the stream, however it is cut and whatever signals interrupt it: it succeeds
  exactly when the wanted bytes arrive before the end of the stream or an error, stores the first
  of them in order, leaves exactly the rest on the socket, and always returns.\<close>

theorem read_all_reassembles:
  "\<exists>net'. read_all net sz = (sz \<le> length (stream (n_in net)), take sz (stream (n_in net)), net') \<and>
     (length (stream (n_in net)) < sz \<or> stream (n_in net') = drop sz (stream (n_in net))) \<and>
     n_sent net' = n_sent net"
  using read_all_stream [of net sz] by (cases "read_all net sz") auto

text \<open>What a sender has put on its wire so far.\<close>

fun sock_sent :: "addr \<times> 'a sock \<Rightarrow> bytes" where
  "sock_sent (buf, L, ln, net, m) = n_sent net"

lemma put_all_sent:
  "sock_ready s \<Longrightarrow> \<forall>msg \<in> set msgs. msg_fits msg \<Longrightarrow> run_all sock_put s msgs = Some (cs, s') \<Longrightarrow>
   sock_sent s' = sock_sent s @ concat cs"
proof (induction msgs arbitrary: s cs)
  case Nil
  then show ?case by simp
next
  case (Cons msg msgs)
  obtain c s1 cs' where c: "sock_put s msg = Some (c, s1)" "run_all sock_put s1 msgs = Some (cs', s')" "cs = c # cs'"
    using Cons.prems(3) by (auto simp: bind_eq_Some_conv)
  obtain buf L ln net m where s: "s = (buf, L, ln, net, m)" by (cases s)
  have len: "length msg < 2 ^ 16" using Cons.prems(2) by (simp add: msg_fits_iff)
  have "sock_sent s1 = sock_sent s @ c"
    using sock_put_eq [of buf L ln net m msg] Cons.prems(1) len c(1)
    by (cases "bolt8_encrypt L (send_chan (ln_crypto_state ln)) msg") (auto simp: s simp del: sock_put.simps)
  moreover have "sock_ready s1" using sock_put_ready [OF Cons.prems(1) len] c(1) by simp
  ultimately show ?case using Cons.IH [OF _ _ c(2)] Cons.prems(2) c(3) by simp
qed

text \<open>C6: Messages over a connection: any sequence of messages of up to 65528 bytes that one end writes with
  \<open>lnsocket_write\<close> is read with \<open>lnsocket_read\<close> by the matching end, in order and complete, from
  the bytes the first end sent, however the network cuts them up or interrupts the reads, and
  across key rotations. The bytes that follow stay on the wire for the next read.\<close>

theorem socket_delivers:
  assumes "aead_ok L" "ln_wf a" "ln_wf b" "ln_socket a \<noteq> 0" "n_out na = []"
    and "in_sync (ln_crypto_state a) (ln_crypto_state b)"
    and "buf + 2 ^ 16 \<le> c_start (ln_msgbuf a) \<or> c_end (ln_msgbuf a) \<le> buf"
    and "\<forall>msg \<in> set msgs. length msg \<le> 65528"
  shows "\<exists>cs a' na' ma' ws. run_all sock_put (buf, L, a, na, ma) msgs = Some (cs, buf, L, a', na', ma') \<and>
    n_sent na' = n_sent na @ ws \<and>
    (\<forall>nb mb rest. stream (n_in nb) = ws @ rest \<longrightarrow>
      (\<exists>b' nb' mb'. get_all sock_get (length msgs) (L, b, nb, mb) = Some (msgs, L, b', nb', mb') \<and>
        stream (n_in nb') = rest))"
proof -
  let ?s = "(buf, L, a, na, ma)"
  have ready: "sock_ready ?s" using assms by (simp add: in_sync_def)
  have fits: "\<forall>msg \<in> set msgs. msg_fits msg" using assms(8) by (simp add: msg_fits_iff)
  obtain cs s' where put: "run_all sock_put ?s msgs = Some (cs, s')" using sock.put_all [OF ready fits] by blast
  have paired: "sock_paired ?s (L, b, nb, mb)" for nb mb using ready assms(3,6) by simp
  have get: "\<exists>r'. get_all sock_get (length msgs) (L, b, nb, mb) = Some (msgs, r') \<and> sock_wire r' = rest \<and> sock_paired s' r'"
    if "stream (n_in nb) = concat cs @ rest" for nb mb rest
    using sock.get_all_put_all [OF paired fits put] that by simp
  have "run_all sock_put s xs = Some (ys, t) \<Longrightarrow> fst t = fst s \<and> fst (snd t) = fst (snd s)" for s t :: "addr \<times> 'a sock" and xs ys
    by (induction xs arbitrary: s ys)
      (fastforce simp: bind_eq_Some_conv split: option.splits bool.splits prod.splits elim!: sock_put.elims)+
  from this [OF put] obtain a' na' ma' where s': "s' = (buf, L, a', na', ma')" by (cases s') auto
  show ?thesis
  proof (intro exI conjI)
    show "run_all sock_put ?s msgs = Some (cs, buf, L, a', na', ma')" using put s' by simp
    show "n_sent na' = n_sent na @ concat cs" using put_all_sent [OF ready fits put] s' by simp
    show "\<forall>nb mb rest. stream (n_in nb) = concat cs @ rest \<longrightarrow>
      (\<exists>b' nb' mb'. get_all sock_get (length msgs) (L, b, nb, mb) = Some (msgs, L, b', nb', mb') \<and>
        stream (n_in nb') = rest)"
      using get s' by fastforce
  qed
qed

definition example_net :: net where
  "example_net = \<lparr>n_in = [], n_out = [], n_sent = [], n_errno = []\<rparr>"

lemma example_ln_simps:
  "ln_socket example_ln = 3" "c_start (ln_msgbuf example_ln) = 1000" "c_end (ln_msgbuf example_ln) = 132072"
  "ln_crypto_state example_ln = example_state"
  by (simp_all add: example_ln_def make_cursor_def)

lemma example_ln_wf: "ln_wf example_ln"
  by (simp add: ln_wf_def example_ln_def make_cursor_def cursor_ok_def MSGBUF_MEM_def ERROR_MEM_def)

theorem socket_delivers_witness:
  "\<exists>cs a' na' ma' ws. run_all sock_put (200000, example_lib, example_ln, example_net, \<lambda>_. 0) (replicate 600 [1, 2, 3]) =
      Some (cs, 200000, example_lib, a', na', ma') \<and>
    n_sent na' = n_sent example_net @ ws \<and>
    (\<forall>nb mb rest. stream (n_in nb) = ws @ rest \<longrightarrow>
      (\<exists>b' nb' mb'. get_all sock_get (length (replicate 600 [1, 2, 3 :: u8]))
          (example_lib, example_ln\<lparr>ln_crypto_state := example_peer\<rparr>, nb, mb) =
          Some (replicate 600 [1, 2, 3], example_lib, b', nb', mb') \<and>
        stream (n_in nb') = rest))"
  by (rule socket_delivers)
     (simp_all add: example_lib_ok example_ln_wf example_net_def example_sync example_ln_simps)

text \<open>C24: A message of 65529 to 65535 bytes, which the protocol allows, cannot be received: the message
  buffer has no room for it and its decryption. \<open>lnsocket_read\<close> fails after it has read and
  decrypted the header only, so the body stays on the wire and the ends are no longer in step.\<close>

theorem long_message_refused:
  assumes "aead_ok L" "ln_wf b" "in_sync cs (ln_crypto_state b)"
    and "65528 < length msg" "length msg < 2 ^ 16"
    and "stream (n_in net) = fst (bolt8_encrypt L (send_chan cs) msg) @ rest"
  shows "\<exists>b' net' m'. lnsocket_read L b net m = Some (None, b', net', m') \<and>
    stream (n_in net') = drop 18 (fst (bolt8_encrypt L (send_chan cs) msg)) @ rest \<and>
    \<not> in_sync cs (ln_crypto_state b') \<and>
    \<not> in_sync (ln_crypto_state (after_write (b\<lparr>ln_crypto_state := cs\<rparr>) (snd (bolt8_encrypt L (send_chan cs) msg))))
      (ln_crypto_state b')"
proof -
  let ?cs = "ln_crypto_state b"
  have ok: "chan_ok (send_chan cs)" "recv_chan ?cs = send_chan cs" using assms(3) by (simp_all add: in_sync_def)
  obtain packet ch where e: "bolt8_encrypt L (send_chan cs) msg = (packet, ch)" by (cases "bolt8_encrypt L (send_chan cs) msg")
  obtain b' net' m' where r: "lnsocket_read L b net m = Some (None, b', net', m')" "stream (n_in net') = drop 18 packet @ rest"
      "ln_crypto_state b' = ?cs\<lparr>cs_rn := cs_rn ?cs + 1\<rparr>"
    using read_too_long [of L b msg packet ch net rest m] assms ok e by auto
  have n: "unat (cs_rn ?cs) = ch_n (send_chan cs)" using arg_cong [OF ok(2), of ch_n] by (simp add: recv_chan_def)
  then have rn: "ch_n (recv_chan (ln_crypto_state b')) = ch_n (send_chan cs) + 1"
    using unat_plus_small [of "cs_rn ?cs"] ok(1) by (simp add: recv_chan_def r(3) chan_ok_def)
  then have "odd (ch_n (recv_chan (ln_crypto_state b')))" using ok(1) by (simp add: chan_ok_def)
  then have "\<not> in_sync x (ln_crypto_state b')" for x by (auto simp: in_sync_def chan_ok_def)
  then show ?thesis using r e by simp
qed

theorem long_message_refused_witness:
  "\<exists>b' net' m'. lnsocket_read example_lib (example_ln\<lparr>ln_crypto_state := example_peer\<rparr>)
      (example_net\<lparr>n_in := [Data (fst (bolt8_encrypt example_lib (send_chan example_state) (replicate 65535 7)))]\<rparr>) (\<lambda>_. 0) =
      Some (None, b', net', m') \<and>
    stream (n_in net') = drop 18 (fst (bolt8_encrypt example_lib (send_chan example_state) (replicate 65535 7))) @ [] \<and>
    \<not> in_sync example_state (ln_crypto_state b') \<and>
    \<not> in_sync (ln_crypto_state (after_write ((example_ln\<lparr>ln_crypto_state := example_peer\<rparr>)\<lparr>ln_crypto_state := example_state\<rparr>)
        (snd (bolt8_encrypt example_lib (send_chan example_state) (replicate 65535 7))))) (ln_crypto_state b')"
proof (rule long_message_refused [OF example_lib_ok(1)])
  have "chan_ok (send_chan example_state)" using example_sync(1) by (simp add: in_sync_def)
  then have "fst (bolt8_encrypt example_lib (send_chan example_state) (replicate 65535 7)) \<noteq> []"
    using length_bolt8_packet [OF example_lib_ok(1), of "send_chan example_state" "replicate 65535 7"] by auto
  then show "stream (n_in (example_net\<lparr>n_in := [Data (fst (bolt8_encrypt example_lib (send_chan example_state)
      (replicate 65535 7)))]\<rparr>)) = fst (bolt8_encrypt example_lib (send_chan example_state) (replicate 65535 7)) @ []"
    by simp
qed (simp_all add: example_sync example_ln_wf)

text \<open>C23: \<open>lnsocket_send\<close> does not send the message: it composes it in the buffer that \<open>lnsocket_write\<close>
  encrypts into, so the header's ciphertext overwrites the first 18 bytes of the message before
  it is encrypted. A message of at most 18 bytes, its type included, is lost completely: the packet
  does not depend on it, and what the peer accepts and reads is the beginning of the header's
  ciphertext. (Input and output of the second encryption are then apart; for longer messages they
  overlap in a way that libsodium does not document.) The length of the message is that of the
  payload plus 2 as 16 bits, so payloads of 65534 and 65535 bytes make messages of 0 and 1.\<close>

theorem send_overwrites_message:
  assumes "aead_ok L" "ln_wf a" "ln_wf b" "ln_socket a \<noteq> 0" "n_out na = []"
    and "in_sync (ln_crypto_state a) (ln_crypto_state b)"
    and "unat (n + 2) \<le> 18"
    and "payload + unat n \<le> c_start (ln_msgbuf a) \<or> c_end (ln_msgbuf a) \<le> payload"
  defines "h \<equiv> take (unat (n + 2)) (bolt8_header L (send_chan (ln_crypto_state a)) (unat (n + 2)))"
    and "ws \<equiv> fst (bolt8_encrypt L (send_chan (ln_crypto_state a))
      (take (unat (n + 2)) (bolt8_header L (send_chan (ln_crypto_state a)) (unat (n + 2)))))"
  shows "\<exists>a' na' m'. lnsocket_send L a t payload n na m = Some (True, a', na', m') \<and> n_sent na' = n_sent na @ ws \<and>
    (\<exists>b' net' mb' p. lnsocket_read L b \<lparr>n_in = [Data ws], n_out = [], n_sent = [], n_errno = []\<rparr> mb =
        Some (Some (p, n + 2), b', net', mb') \<and> mread mb' p (unat (n + 2)) = h)"
proof -
  let ?ch = "send_chan (ln_crypto_state a)" and ?k = "unat (n + 2)"
  have ok: "chan_ok ?ch" "recv_chan (ln_crypto_state b) = ?ch" using assms(6) by (simp_all add: in_sync_def)
  have hd: "length (bolt8_header L ?ch ?k) = 18" by (rule length_bolt8_header [OF assms(1) ok(1)])
  then have len: "length h = ?k" using assms(7) by (simp add: h_def)
  have g: "h = take ?k (bolt8_header L ?ch ?k @ drop 18 (be_bytes 2 t @ mread m payload (unat n)))"
    using hd assms(7) by (simp add: h_def)
  obtain ch where e: "bolt8_encrypt L ?ch h = (ws, ch)" by (cases "bolt8_encrypt L ?ch h") (simp add: ws_def flip: h_def)
  obtain a' m' where send: "lnsocket_send L a t payload n na m = Some (True, a', na\<lparr>n_sent := n_sent na @ ws\<rparr>, m')"
    using send_garbles [OF assms(1,2,4) ok(1) assms(5,8) refl g e] by blast
  have "ws \<noteq> []" using length_bolt8_packet [OF assms(1) ok(1), of h] e by auto
  then have st: "stream (n_in \<lparr>n_in = [Data ws], n_out = [], n_sent = [], n_errno = []\<rparr>) = ws @ []" by simp
  have w: "of_nat ?k = n + 2" by (simp only: of_nat_unat ucast_id)
  obtain net' mb' where "lnsocket_read L b \<lparr>n_in = [Data ws], n_out = [], n_sent = [], n_errno = []\<rparr> mb =
      Some (Some (c_start (ln_msgbuf b) + ?k + 16, n + 2), after_read b ?k ch, net', mb')"
      "mread mb' (c_start (ln_msgbuf b) + ?k + 16) ?k = h"
    using read_delivers [OF assms(1,3) _ _ _ st, of h ch mb] ok e assms(7) unfolding len w by auto
  then show ?thesis using send by fastforce
qed

theorem send_overwrites_message_witness:
  "\<exists>a' na' m'. lnsocket_send example_lib example_ln 18 200000 4 example_net (\<lambda>_. 5) = Some (True, a', na', m') \<and>
    n_sent na' = n_sent example_net @ fst (bolt8_encrypt example_lib (send_chan (ln_crypto_state example_ln))
      (take (unat (4 + 2 :: u16)) (bolt8_header example_lib (send_chan (ln_crypto_state example_ln)) (unat (4 + 2 :: u16))))) \<and>
    (\<exists>b' net' mb' p. lnsocket_read example_lib (example_ln\<lparr>ln_crypto_state := example_peer\<rparr>)
        \<lparr>n_in = [Data (fst (bolt8_encrypt example_lib (send_chan (ln_crypto_state example_ln))
            (take (unat (4 + 2 :: u16)) (bolt8_header example_lib (send_chan (ln_crypto_state example_ln)) (unat (4 + 2 :: u16))))))],
          n_out = [], n_sent = [], n_errno = []\<rparr> (\<lambda>_. 0) = Some (Some (p, 4 + 2), b', net', mb') \<and>
      mread mb' p (unat (4 + 2 :: u16)) =
        take (unat (4 + 2 :: u16)) (bolt8_header example_lib (send_chan (ln_crypto_state example_ln)) (unat (4 + 2 :: u16))))"
  by (rule send_overwrites_message [OF example_lib_ok(1)])
     (simp_all add: example_ln_wf example_net_def example_sync example_ln_simps)

end
