(* ===== verification/Session.thy ===== *)
theory Session
  imports Socket
begin

text \<open>
  The rest of the API of \<open>lnsocket.c\<close> on a connection, and what connects: creation and
  destruction in one arena, keys, the init exchange, answers to pings, the entry points of the
  JavaScript build, and the reads and writes of the handshake in \<open>handshake.c\<close>. The main result
  is that the handshake over a socket reaches a state in which messages are delivered.
\<close>

section \<open>Creation and destruction\<close>

text \<open>The structure as \<open>cursor_alloc\<close> leaves it, all zeros.\<close>

definition zero_lnsocket :: lnsocket where
  "zero_lnsocket =
     (let z = \<lparr>c_start = 0, c_p = 0, c_end = 0\<rparr>; key = \<lparr>kp_pub = replicate 64 0, kp_priv = replicate 32 0\<rparr>
      in \<lparr>ln_mem = z, ln_msgbuf = z, ln_errs = \<lparr>e_cur = z, e_enabled = False\<rparr>, ln_socket = 0, ln_key = key,
        ln_handshake = \<lparr>hs_ck = replicate 32 0, hs_temp_k = replicate 32 0, hs_h = replicate 32 0, hs_e = key,
          hs_ss = replicate 32 0, hs_re = replicate 64 0,
          hs_act1 = \<lparr>a1_v = 0, a1_pubkey = replicate 33 0, a1_tag = replicate 16 0\<rparr>,
          hs_act2 = \<lparr>a2_v = 0, a2_pubkey = replicate 33 0, a2_tag = replicate 16 0\<rparr>,
          hs_act3 = \<lparr>a3_v = 0, a3_ciphertext = replicate 49 0, a3_tag = replicate 16 0\<rparr>,
          hs_their_id = replicate 64 0, hs_side = INITIATOR\<rparr>,
        ln_crypto_state = \<lparr>cs_rn = 0, cs_sn = 0, cs_sk = replicate 32 0, cs_rk = replicate 32 0,
          cs_s_ck = replicate 32 0, cs_r_ck = replicate 32 0\<rparr>\<rparr>)"

text \<open>
  \<open>arena\<close> is the result of \<open>malloc\<close>, and \<open>struct_size\<close> is \<open>sizeof(struct lnsocket)\<close>. The structure is
  the record: what its fields put into the first \<open>struct_size\<close> bytes of the arena is not part of the
  memory of the model, and nothing is claimed of these bytes.
\<close>

definition lnsocket_create :: "addr option \<Rightarrow> nat \<Rightarrow> mem \<Rightarrow> lnsocket option \<times> mem" where
  "lnsocket_create arena struct_size m =
     (let memory = MSGBUF_MEM + ERROR_MEM + struct_size in
      case arena of
        None \<Rightarrow> (None, m)
      | Some a \<Rightarrow> (let mem = make_cursor a (a + memory) in
          case cursor_alloc mem struct_size m of
            (None, mem, m) \<Rightarrow> (None, m)
          | (Some _, mem, m) \<Rightarrow> (case cursor_slice mem MSGBUF_MEM m of
              (None, mem, m) \<Rightarrow> (None, m)
            | (Some msgbuf, mem, m) \<Rightarrow> (let ln = zero_lnsocket\<lparr>ln_msgbuf := msgbuf\<rparr> in
                case cursor_slice mem ERROR_MEM m of
                  (None, mem, m) \<Rightarrow> (None, m)
                | (Some cur, mem, m) \<Rightarrow>
                    (Some (ln\<lparr>ln_errs := \<lparr>e_cur = cur, e_enabled = True\<rparr>, ln_mem := mem\<rparr>), m)))))"

text \<open>The pointer that is freed, if any.\<close>

definition lnsocket_destroy :: "lnsocket option \<Rightarrow> addr option" where
  "lnsocket_destroy lnsocket = (case lnsocket of None \<Rightarrow> None | Some ln \<Rightarrow> Some (c_start (ln_mem ln)))"

section \<open>Accessors and keys\<close>

definition lnsocket_msgbuf :: "lnsocket \<Rightarrow> addr" where
  "lnsocket_msgbuf ln = c_start (ln_msgbuf ln)"

definition lnsocket_fd :: "lnsocket \<Rightarrow> bool \<times> int" where
  "lnsocket_fd ln = (True, ln_socket ln)"

text \<open>The bytes printed on \<open>stderr\<close>.\<close>

definition lnsocket_print_errors :: "lnsocket \<Rightarrow> mem \<Rightarrow> bytes" where
  "lnsocket_print_errors ln m = print_error_backtrace (ln_errs ln) m"

definition lnsocket_genkey :: "'a lib_scheme \<Rightarrow> lnsocket \<Rightarrow> bytes list \<Rightarrow> (lnsocket \<times> bytes list) option" where
  "lnsocket_genkey L ln rnd = do {
     (key, rnd) \<leftarrow> generate_key L rnd;
     Some (ln\<lparr>ln_key := key\<rparr>, rnd) }"

definition lnsocket_setkey :: "'a lib_scheme \<Rightarrow> lnsocket \<Rightarrow> bytes \<Rightarrow> bool \<times> lnsocket" where
  "lnsocket_setkey L ln key =
     (case pubkey_create L key of
        (ok, pub) \<Rightarrow> if \<not> ok then (False, ln) else (True, ln\<lparr>ln_key := \<lparr>kp_pub = pub, kp_priv = key\<rparr>\<rparr>))"

definition pubkey_from_node_id :: "'a lib_scheme \<Rightarrow> bytes \<Rightarrow> bool \<times> bytes" where
  "pubkey_from_node_id L node_id = pubkey_parse L node_id"

section \<open>Init and pong\<close>

text \<open>\<open>stk\<close> is the address of the message on the stack of the function.\<close>

definition lnsocket_perform_init :: "'a aead_scheme \<Rightarrow> addr \<Rightarrow> lnsocket \<Rightarrow> net \<Rightarrow> mem \<Rightarrow> bool io" where
  "lnsocket_perform_init L stk ln net m = do {
     (r, ln, net, m) \<leftarrow> lnsocket_read L ln net m;
     if r = None then Some (False, ln, net, m)
     else do {
       (len, m) \<leftarrow> lnsocket_make_default_initmsg (lib_order L) stk 1024 m;
       if len = 0 then Some (False, ln, net, m)
       else do {
         (ok, ln, net, m) \<leftarrow> lnsocket_write L ln stk (of_nat len) net m;
         if \<not> ok then Some (False, ln, net, m) else Some (True, ln, net, m) } } }"

definition lnsocket_pong :: "'a aead_scheme \<Rightarrow> addr \<Rightarrow> lnsocket \<Rightarrow> addr \<Rightarrow> u16 \<Rightarrow> net \<Rightarrow> mem \<Rightarrow> bool io" where
  "lnsocket_pong L stk ln ping ping_len net m = do {
     (len, m) \<leftarrow> lnsocket_make_pong_from_ping (lib_order L) stk 0xFFFF ping (unat ping_len) m;
     if len = 0 then Some (False, ln, net, m)
     else lnsocket_write L ln stk (of_nat len) net m }"

section \<open>The entry points of the JavaScript build\<close>

text \<open>
  \<open>lnsocket_decrypt\<close> gives the number of bytes decrypted to the message buffer, 0 on failure. A
  packet below 16 bytes makes \<open>size - 16\<close> a huge unsigned number, which the check of the arena's
  end, a sum of pointers, does not see: the \<open>memset\<close> that follows is the crash.
\<close>

definition lnsocket_decrypt :: "'a aead_scheme \<Rightarrow> lnsocket \<Rightarrow> addr \<Rightarrow> nat \<Rightarrow> net \<Rightarrow> mem \<Rightarrow> nat io" where
  "lnsocket_decrypt L ln packet len net m = do {
     let enc = make_cursor packet (packet + len);
     let ln = ln\<lparr>ln_msgbuf := reset_cursor (ln_msgbuf ln)\<rparr>;
     if len < 16 then None
     else (case cursor_slice (ln_msgbuf ln) (len - 16) m of
         (None, c, m) \<Rightarrow>
           ln_fail 0 (ln\<lparr>ln_msgbuf := c\<rparr>) (''lnsocket_decrypt'', ''lnsocket.c'', 236) (oom_text c len) net m
       | (Some dec, c, m) \<Rightarrow> do {
           let ln = ln\<lparr>ln_msgbuf := c\<rparr>;
           (ok, cs, m) \<leftarrow> cryptomsg_decrypt_body L (ln_crypto_state ln)
             (c_start enc) (c_end enc - c_start enc) (c_start dec) (c_end dec - c_start dec) m;
           let ln = ln\<lparr>ln_crypto_state := cs\<rparr>;
           if \<not> ok then
             ln_fail 0 ln (''lnsocket_decrypt'', ''lnsocket.c'', 245) (ascii ''error decrypting body'') net m
           else Some (c_end dec - c_start dec, ln, net, m) }) }"

definition lnsocket_decrypt_header :: "'a aead_scheme \<Rightarrow> lnsocket \<Rightarrow> addr \<Rightarrow> net \<Rightarrow> mem \<Rightarrow> nat io" where
  "lnsocket_decrypt_header L ln hdr net m = do {
     (len, cs) \<leftarrow> cryptomsg_decrypt_header L (ln_crypto_state ln) (mread m hdr 18);
     let ln = ln\<lparr>ln_crypto_state := cs\<rparr>;
     case len of
       None \<Rightarrow> ln_fail 0 ln (''lnsocket_decrypt_header'', ''lnsocket.c'', 255)
         (ascii ''Failed hdr decrypt with rn='' @ dec_nat (unat (cs_rn cs - 1))) net m
     | Some len \<Rightarrow> Some (unat len, ln, net, m) }"

section \<open>The handshake over the socket\<close>

definition act_two_bytes :: "act_two \<Rightarrow> bytes" where
  "act_two_bytes a = a2_v a # a2_pubkey a @ a2_tag a"

text \<open>
  Act Two is received by a single \<open>read\<close>; what it gave is in the structure even when it is too
  short.
\<close>

definition act_two_initiator :: "'a lib_scheme \<Rightarrow> lnsocket \<Rightarrow> net \<Rightarrow> mem \<Rightarrow> bool io" where
  "act_two_initiator L ln net m = do {
     let hs = ln_handshake ln;
     let (r, net) = os_read net ACT_TWO_SIZE;
     let bs = (case r of Data bs \<Rightarrow> bs | _ \<Rightarrow> []);
     let ln = ln\<lparr>ln_handshake := hs\<lparr>hs_act2 := act_two_of_bytes (patch (act_two_bytes (hs_act2 hs)) 0 bs)\<rparr>\<rparr>;
     if length bs \<noteq> ACT_TWO_SIZE then
       ln_fail False ln (''act_two_initiator'', ''handshake.c'', 457) (n_errno net) net m
     else do {
       (act3, ln, m) \<leftarrow> lnsocket_act_two L ln (hs_act2 (ln_handshake ln)) m;
       case act3 of
         None \<Rightarrow> Some (False, ln, net, m)
       | Some act3 \<Rightarrow> do {
           let (n, net) = os_write net (act_three_bytes act3);
           if n \<noteq> int ACT_THREE_SIZE then
             ln_fail False ln (''act_two_initiator'', ''handshake.c'', 465) (ascii ''handshake failed on initial send'') net m
           else Some (True, ln, net, m) } } }"

text \<open>With the random draws, those left are part of the result.\<close>

definition act_one_initiator :: "'a lib_scheme \<Rightarrow> lnsocket \<Rightarrow> bytes list \<Rightarrow> net \<Rightarrow> mem \<Rightarrow> (bool \<times> bytes list) io" where
  "act_one_initiator L ln rnd net m = do {
     (ok, rnd, ln, m) \<leftarrow> act_one_initiator_prep L ln rnd m;
     if \<not> ok then Some ((False, rnd), ln, net, m)
     else do {
       let (n, net) = os_write net (act_one_bytes (hs_act1 (ln_handshake ln)));
       if n \<noteq> int ACT_ONE_SIZE then
         ln_fail (False, rnd) ln (''act_one_initiator'', ''handshake.c'', 477) (ascii ''handshake failed on initial send'') net m
       else do {
         (ok, ln, net, m) \<leftarrow> act_two_initiator L ln net m;
         Some ((ok, rnd), ln, net, m) } } }"

section \<open>Safety of the rest of the API\<close>

text \<open>Memory is unchanged outside the \<open>n\<close> bytes at \<open>a\<close>.\<close>

definition only_at :: "addr \<Rightarrow> nat \<Rightarrow> mem \<Rightarrow> mem \<Rightarrow> bool" where
  "only_at a n m m' \<longleftrightarrow> (\<forall>x. x < a \<or> a + n \<le> x \<longrightarrow> m' x = m x)"

lemma only_at_refl [simp]: "only_at a n m m"
  by (simp add: only_at_def)

lemma wrote_only_at: "wrote buf buflen bs m m' \<Longrightarrow> only_at buf buflen m m'"
  by (simp add: wrote_def only_at_def)

lemma perform_init_safe:
  assumes "aead_ok L" "aead_dec_fits L" "conn_ok ln net"
  shows "\<exists>r ln1 net1 m1. lnsocket_read L ln net m = Some (r, ln1, net1, m1) \<and> stays ln m ln1 m1 \<and>
    (\<exists>m2. only_at stk 1024 m1 m2 \<and> safe ln1 m2 (lnsocket_perform_init L stk ln net m))"
proof -
  from read_safe [OF assms, of m] obtain r ln1 net1 m1 where r: "lnsocket_read L ln net m = Some (r, ln1, net1, m1)"
      "stays ln m ln1 m1" "conn_ok ln1 net1" unfolding safe_def by blast
  have wf1: "ln_wf ln1" using stays_wf [OF r(2)] .
  show ?thesis
  proof (cases "r = None")
    case True
    then show ?thesis using r wf1 by (auto simp: lnsocket_perform_init_def intro!: exI [of _ m1] safe_return)
  next
    case False
    then obtain x where x: "r = Some x" by blast
    obtain m2 where m2: "lnsocket_make_default_initmsg (lib_order L) stk 1024 m1 = Some (13, m2)" "only_at stk 1024 m1 m2"
      using make_default_initmsg_eq [of "lib_order L" stk 1024 m1] by (auto dest: wrote_only_at)
    obtain ok ln3 net3 m3 where w: "lnsocket_write L ln1 stk 13 net1 m2 = Some (ok, ln3, net3, m3)"
        "stays ln1 m2 ln3 m3" "conn_ok ln3 net3"
      using write_safe [OF assms(1) r(3), of m2 stk 13] by (auto simp: safe_def)
    then have "safe ln1 m2 (lnsocket_perform_init L stk ln net m)"
      using r x m2(1) by (cases ok) (simp_all add: lnsocket_perform_init_def safe_return)
    then show ?thesis using r m2(2) by blast
  qed
qed

lemma make_pong_from_ping_total:
  "\<exists>len m1. lnsocket_make_pong_from_ping bo buf buflen ping n m = Some (len, m1) \<and> only_at buf buflen m m1"
proof -
  obtain v where v: "lnsocket_decode_ping_payload bo ping n m = Some v"
    using pull_u16_total [of bo "make_cursor ping (ping + n)" m] by (auto simp: lnsocket_decode_ping_payload_def Let_def)
  show ?thesis
  proof (cases v)
    case None
    then show ?thesis using v by (simp add: lnsocket_make_pong_from_ping_def)
  next
    case (Some num)
    then show ?thesis using v make_pong_msg_eq [of bo buf buflen num m]
      by (auto simp: lnsocket_make_pong_from_ping_def dest!: wrote_only_at)
  qed
qed

lemma pong_safe:
  assumes "aead_ok L" "conn_ok ln net"
  shows "\<exists>m1. only_at stk 0xFFFF m m1 \<and> safe ln m1 (lnsocket_pong L stk ln ping n net m)"
proof -
  have wf: "ln_wf ln" using assms(2) by (simp add: conn_ok_def)
  obtain len m1 where p: "lnsocket_make_pong_from_ping (lib_order L) stk 0xFFFF ping (unat n) m = Some (len, m1)"
      "only_at stk 0xFFFF m m1"
    using make_pong_from_ping_total by blast
  show ?thesis
  proof (cases "len = 0")
    case True
    then show ?thesis using p assms(2) wf by (auto simp: lnsocket_pong_def intro!: exI [of _ m1] safe_return)
  next
    case False
    then show ?thesis using p write_safe [OF assms, of m1 stk "of_nat len"] by (auto simp: lnsocket_pong_def)
  qed
qed

lemma decrypt_header_safe:
  assumes "aead_ok L" "conn_ok ln net"
  shows "safe ln m (lnsocket_decrypt_header L ln hdr net m)"
proof -
  have wf: "ln_wf ln" "keys_ok (ln_crypto_state ln)" "net_ok net" using assms(2) by (simp_all add: conn_ok_def)
  obtain r cs where h: "cryptomsg_decrypt_header L (ln_crypto_state ln) (mread m hdr 18) = Some (r, cs)" "keys_ok cs"
    using decrypt_header_total [OF assms(1) _ wf(2), of "mread m hdr 18"] by auto
  have ok: "conn_ok (ln\<lparr>ln_crypto_state := cs\<rparr>) net" "stays ln m (ln\<lparr>ln_crypto_state := cs\<rparr>) m"
    using wf h(2) by (simp_all add: conn_ok_def stays_def)
  have "length (dec_nat (unat (cs_rn cs - 1))) \<le> 20"
    using unsigned_less [of "cs_rn cs - 1", where 'a = nat] by (intro length_dec_nat) simp_all
  then have "safe ln m (ln_fail (0 :: nat) (ln\<lparr>ln_crypto_state := cs\<rparr>) (''lnsocket_decrypt_header'', ''lnsocket.c'', 255)
      (ascii ''Failed hdr decrypt with rn='' @ dec_nat (unat (cs_rn cs - 1))) net m)"
    using ok by (intro safe_fail) simp_all
  then show ?thesis using h(1) ok by (cases r) (simp_all add: lnsocket_decrypt_header_def Let_def safe_return)
qed

lemma decrypt_safe:
  assumes "aead_ok L" "aead_dec_fits L" "conn_ok ln net" "16 \<le> n" "n < 2 ^ 31"
  shows "safe ln m (lnsocket_decrypt L ln packet n net m)"
proof -
  let ?s = "c_start (ln_msgbuf ln)" and ?c = "ln_msgbuf ln"
  define ln1 where "ln1 = ln\<lparr>ln_msgbuf := reset_cursor ?c\<rparr>"
  have wf: "ln_wf ln" "keys_ok (ln_crypto_state ln)" "net_ok net" using assms(3) by (simp_all add: conn_ok_def)
  obtain k where k: "n = k + 16" using assms(4) by (metis add.commute le_Suc_ex)
  have slice: "cursor_slice (ln_msgbuf ln1) k m = (if ?s + k \<le> c_end ?c
      then (Some (make_cursor ?s (?s + k)), ?c\<lparr>c_p := ?s + k\<rparr>, mwrite m ?s (replicate k 0)) else (None, reset_cursor ?c, m))"
    by (simp add: ln1_def cursor_slice_eq reset_cursor_def)
  show ?thesis
  proof (cases "?s + k \<le> c_end ?c")
    case False
    have st: "stays ln m ln1 m" "conn_ok ln1 net"
      using wf by (simp_all add: ln1_def stays_def conn_ok_def)
    have "length (oom_text (reset_cursor ?c) n) \<le> 100" using assms(5) by (intro length_oom_text) simp
    then have "safe ln m (ln_fail (0 :: nat) ln1 (''lnsocket_decrypt'', ''lnsocket.c'', 236) (oom_text (reset_cursor ?c) n) net m)"
      using st by (intro safe_fail) simp_all
    moreover have "ln1\<lparr>ln_msgbuf := reset_cursor ?c\<rparr> = ln1" by (simp add: ln1_def)
    ultimately show ?thesis using slice False k by (simp add: lnsocket_decrypt_def Let_def flip: ln1_def)
  next
    case True
    let ?ln2 = "ln1\<lparr>ln_msgbuf := ?c\<lparr>c_p := ?s + k\<rparr>\<rparr>"
    let ?m = "mwrite m ?s (replicate k 0)"
    have crypto1: "ln_crypto_state ln1 = ln_crypto_state ln" by (simp add: ln1_def)
    have wf2: "ln_wf ?ln2" using ln_wf_pos [OF wf(1) _ True] by (simp add: ln1_def)
    have "k < 2 ^ 31" using assms(5) k by simp
    then obtain ok cs m' where d: "cryptomsg_decrypt_body L (ln_crypto_state ln) packet (k + 16) ?s k ?m = Some (ok, cs, m')"
        "keys_ok cs" "\<forall>a. a < ?s \<or> ?s + k \<le> a \<longrightarrow> m' a = ?m a"
      using decrypt_body_total [OF assms(1,2) wf(2)] by blast
    have st: "stays ln m (?ln2\<lparr>ln_crypto_state := cs\<rparr>) m'"
      using wf(1) wf2 d(3) True by (auto simp: stays_def ln_wf_def ln1_def mwrite_outside)
    have "conn_ok (?ln2\<lparr>ln_crypto_state := cs\<rparr>) net" using wf wf2 d(2) by (simp add: conn_ok_def)
    then show ?thesis using slice True k d(1) st crypto1
      by (cases ok) (simp_all add: lnsocket_decrypt_def Let_def make_cursor_def safe_return safe_fail flip: ln1_def)
  qed
qed

text \<open>The message buffer and the error log, which the functions of a connection write to.\<close>

definition arena_has :: "lnsocket \<Rightarrow> addr \<Rightarrow> bool" where
  "arena_has ln a \<longleftrightarrow> c_start (ln_msgbuf ln) \<le> a \<and> a < c_start (ln_msgbuf ln) + MSGBUF_MEM + ERROR_MEM"

section \<open>The handshake over the socket, to the first messages\<close>

lemma act_two_bytes_length: "length (a2_pubkey a) = 33 \<Longrightarrow> length (a2_tag a) = 16 \<Longrightarrow> length (act_two_bytes a) = ACT_TWO_SIZE"
  by (simp add: act_two_bytes_def ACT_TWO_SIZE_def)

lemma patch_all: "length ys = length xs \<Longrightarrow> patch xs 0 ys = ys"
  by (simp add: patch_def)

text \<open>The shape of the structure for Act Two in memory.\<close>

definition act_two_shape :: "handshake \<Rightarrow> bool" where
  "act_two_shape hs \<longleftrightarrow> length (a2_pubkey (hs_act2 hs)) = 33 \<and> length (a2_tag (hs_act2 hs)) = 16"

lemma act_two_initiator_eq:
  assumes "act_two_shape (ln_handshake ln)" "length msg2 = ACT_TWO_SIZE" "n_in net = Data msg2 # es" "n_out net = []"
    and "lnsocket_act_two L (ln\<lparr>ln_handshake := (ln_handshake ln)\<lparr>hs_act2 := act_two_of_bytes msg2\<rparr>\<rparr>)
      (act_two_of_bytes msg2) m = Some (Some act3, ln', m')"
    and "length (act_three_bytes act3) = ACT_THREE_SIZE"
  shows "act_two_initiator L ln net m =
    Some (True, ln', net\<lparr>n_in := es, n_sent := n_sent net @ act_three_bytes act3\<rparr>, m')"
proof -
  have "patch (act_two_bytes (hs_act2 (ln_handshake ln))) 0 msg2 = msg2"
    using assms(1,2) by (intro patch_all) (simp add: act_two_shape_def act_two_bytes_length)
  then show ?thesis using assms
    by (simp add: act_two_initiator_def os_read_def os_write_def Let_def)
qed

text \<open>A short read of Act Two is an error, whatever comes after.\<close>

lemma act_two_initiator_short:
  assumes "ln_wf ln" "n_in net = Data bs # es" "length bs < ACT_TWO_SIZE" "length (n_errno net) \<le> 256"
  shows "\<exists>ln' net' m'. act_two_initiator L ln net m = Some (False, ln', net', m') \<and>
    ln_crypto_state ln' = ln_crypto_state ln \<and> n_sent net' = n_sent net"
proof -
  let ?ln = "ln\<lparr>ln_handshake := (ln_handshake ln)\<lparr>hs_act2 :=
    act_two_of_bytes (patch (act_two_bytes (hs_act2 (ln_handshake ln))) 0 bs)\<rparr>\<rparr>"
  have wf: "ln_wf ?ln" using assms(1) by (simp add: ln_wf_def)
  have r: "os_read net ACT_TWO_SIZE = (Data bs, net\<lparr>n_in := es\<rparr>)" using assms(2,3) by (simp add: os_read_def)
  obtain errs m' where "ln_fail False ?ln (''act_two_initiator'', ''handshake.c'', 457) (n_errno net) (net\<lparr>n_in := es\<rparr>) m =
      Some (False, ?ln\<lparr>ln_errs := errs\<rparr>, net\<lparr>n_in := es\<rparr>, m')"
    by (rule ln_fail_total [OF wf, of _ _ _ 457]) (use assms(4) in auto)
  then show ?thesis using r assms(3) by (simp add: act_two_initiator_def Let_def)
qed

text \<open>The end of \<open>lnsocket_connect_with\<close>: everything after the connection of the socket.\<close>

definition begin_handshake ::
  "'a lib_scheme \<Rightarrow> lnsocket \<Rightarrow> bytes \<Rightarrow> bytes list \<Rightarrow> net \<Rightarrow> mem \<Rightarrow> (bool \<times> bytes list) io" where
  "begin_handshake L ln their_id rnd net m = do {
     hs \<leftarrow> new_handshake L (ln_handshake ln) their_id;
     let ln = ln\<lparr>ln_handshake := hs\<rparr>;
     let ln = ln\<lparr>ln_handshake := (ln_handshake ln)\<lparr>hs_side := INITIATOR\<rparr>\<rparr>;
     let ln = ln\<lparr>ln_handshake := (ln_handshake ln)\<lparr>hs_their_id := their_id\<rparr>\<rparr>;
     act_one_initiator L ln rnd net m }"

lemma begin_handshake_initiate:
  "begin_handshake L ln their_id rnd net m = do {
     (ok, rnd, ln, m) \<leftarrow> initiate L ln their_id rnd m;
     if \<not> ok then Some ((False, rnd), ln, net, m)
     else do {
       let (n, net) = os_write net (act_one_bytes (hs_act1 (ln_handshake ln)));
       if n \<noteq> int ACT_ONE_SIZE then
         ln_fail (False, rnd) ln (''act_one_initiator'', ''handshake.c'', 477) (ascii ''handshake failed on initial send'') net m
       else do {
         (ok, ln, net, m) \<leftarrow> act_two_initiator L ln net m;
         Some ((ok, rnd), ln, net, m) } } }"
  by (cases "new_handshake L (ln_handshake ln) their_id")
    (simp_all add: begin_handshake_def initiate_def act_one_initiator_def Let_def)

text \<open>What the handshake over the socket comes to, for a peer that answers as the specification says.\<close>

lemma handshake_over_socket:
  assumes "aead_ok L" "secp_ok L"
    and "pubkey_create L (kp_priv ls) = (True, kp_pub ls)"
    and "pubkey_create L (kp_priv re) = (True, kp_pub re)"
    and "pubkey_create L (kp_priv (ln_key ln)) = (True, kp_pub (ln_key ln))"
    and "generate_key L rnd = Some (e, rnd')" "act_two_shape (ln_handshake ln)"
  shows "\<exists>act1 st1 msg2 st2 act3 rk sk ck.
    responder_act_one L (kp_priv ls) (bolt8_start (pubkey_serialize L (kp_pub ls))) act1 = Some st1 \<and>
    responder_act_two L re st1 = (msg2, st2) \<and>
    responder_act_three L re st2 act3 = Some (kp_pub (ln_key ln), rk, sk, ck) \<and>
    length rk = 32 \<and> length sk = 32 \<and> length ck = 32 \<and>
    length act1 = ACT_ONE_SIZE \<and> length msg2 = ACT_TWO_SIZE \<and> length act3 = ACT_THREE_SIZE \<and>
    (\<forall>net es. n_in net = Data msg2 # es \<and> n_out net = [] \<longrightarrow>
      (\<exists>ln'. begin_handshake L ln (kp_pub ls) rnd net m =
        Some ((True, rnd'), ln', net\<lparr>n_in := es, n_sent := n_sent net @ act1 @ act3\<rparr>, m) \<and> ln_same ln ln' \<and>
        ln_crypto_state ln' = \<lparr>cs_rn = 0, cs_sn = 0, cs_sk = rk, cs_rk = sk, cs_s_ck = ck, cs_r_ck = ck\<rparr>)) \<and>
    (\<forall>net bs es. n_in net = Data bs # es \<and> n_out net = [] \<and> length bs < ACT_TWO_SIZE \<and>
        length (n_errno net) \<le> 256 \<and> ln_wf ln \<longrightarrow>
      (\<exists>ln' net' m'. begin_handshake L ln (kp_pub ls) rnd net m = Some ((False, rnd'), ln', net', m') \<and>
        n_sent net' = n_sent net @ act1))"
proof -
  obtain ln1 st1 msg2 st2 act3 rk sk ck where
    h: "initiate L ln (kp_pub ls) rnd m = Some (True, rnd', ln1, m)"
      "responder_act_one L (kp_priv ls) (bolt8_start (pubkey_serialize L (kp_pub ls)))
        (act_one_bytes (hs_act1 (ln_handshake ln1))) = Some st1"
      "ln_same ln ln1" "hs_act2 (ln_handshake ln1) = hs_act2 (ln_handshake ln)"
      "length (act_one_bytes (hs_act1 (ln_handshake ln1))) = ACT_ONE_SIZE"
      "responder_act_two L re st1 = (msg2, st2)" "length msg2 = ACT_TWO_SIZE"
      "length (act_three_bytes act3) = ACT_THREE_SIZE"
      "responder_act_three L re st2 (act_three_bytes act3) = Some (kp_pub (ln_key ln), rk, sk, ck)"
      "length rk = 32" "length sk = 32" "length ck = 32"
    and a2: "\<And>act2. \<exists>ln2. lnsocket_act_two L (ln1\<lparr>ln_handshake := (ln_handshake ln1)\<lparr>hs_act2 := act2\<rparr>\<rparr>)
          (act_two_of_bytes msg2) m = Some (Some act3, ln2, m) \<and> ln_same ln ln2 \<and>
        ln_crypto_state ln2 = \<lparr>cs_rn = 0, cs_sn = 0, cs_sk = rk, cs_rk = sk, cs_s_ck = ck, cs_r_ck = ck\<rparr>"
    using handshake_agrees [OF assms(1-6), of m] by blast
  let ?act1 = "act_one_bytes (hs_act1 (ln_handshake ln1))"
  have shape: "act_two_shape (ln_handshake ln1)" using assms(7) h(4) by (simp add: act_two_shape_def)
  have start: "begin_handshake L ln (kp_pub ls) rnd net m =
      act_two_initiator L ln1 (net\<lparr>n_sent := n_sent net @ ?act1\<rparr>) m \<bind> (\<lambda>(ok, ln, net, m). Some ((ok, rnd'), ln, net, m))"
    if "n_out net = []" for net
    using that h(1,5) by (simp add: begin_handshake_initiate os_write_def)
  have good: "\<exists>ln'. begin_handshake L ln (kp_pub ls) rnd net m =
      Some ((True, rnd'), ln', net\<lparr>n_in := es, n_sent := n_sent net @ ?act1 @ act_three_bytes act3\<rparr>, m) \<and> ln_same ln ln' \<and>
      ln_crypto_state ln' = \<lparr>cs_rn = 0, cs_sn = 0, cs_sk = rk, cs_rk = sk, cs_s_ck = ck, cs_r_ck = ck\<rparr>"
    if n: "n_in net = Data msg2 # es" "n_out net = []" for net es
  proof -
    obtain ln2 where ln2: "lnsocket_act_two L (ln1\<lparr>ln_handshake := (ln_handshake ln1)\<lparr>hs_act2 := act_two_of_bytes msg2\<rparr>\<rparr>)
          (act_two_of_bytes msg2) m = Some (Some act3, ln2, m)" "ln_same ln ln2"
        "ln_crypto_state ln2 = \<lparr>cs_rn = 0, cs_sn = 0, cs_sk = rk, cs_rk = sk, cs_s_ck = ck, cs_r_ck = ck\<rparr>"
      using a2 [of "act_two_of_bytes msg2"] by blast
    then show ?thesis
      using act_two_initiator_eq [OF shape h(7) _ _ ln2(1) h(8), of "net\<lparr>n_sent := n_sent net @ ?act1\<rparr>" es] n start [OF n(2)]
      by simp
  qed
  have wf1: "ln_wf ln1" if "ln_wf ln" using that h(3) by (simp add: ln_wf_def ln_same_def)
  have short: "\<exists>ln' net' m'. begin_handshake L ln (kp_pub ls) rnd net m = Some ((False, rnd'), ln', net', m') \<and>
      n_sent net' = n_sent net @ ?act1"
    if n: "n_in net = Data bs # es" "n_out net = []" "length bs < ACT_TWO_SIZE" "length (n_errno net) \<le> 256" "ln_wf ln" for net bs es
    using act_two_initiator_short [OF wf1, of "net\<lparr>n_sent := n_sent net @ ?act1\<rparr>" bs es L m] n start [OF n(2)] by auto
  show ?thesis using h(2,5-12) good short by blast
qed

text \<open>The init message of this library.\<close>

definition our_init :: bytes where
  "our_init = [0, 16, 0, 2, 0, 0, 0, 5, 0, 0, 0, 0, 0]"

lemma perform_init_exchanges:
  assumes "aead_ok L" "ln_wf ln" "ln_socket ln \<noteq> 0" "n_out net = []"
    and "chan_ok (send_chan (ln_crypto_state ln))" "chan_ok (recv_chan (ln_crypto_state ln))"
    and "length their_init \<le> 65528"
    and "stream (n_in net) = fst (bolt8_encrypt L (recv_chan (ln_crypto_state ln)) their_init) @ rest"
    and "stk + 1024 \<le> c_start (ln_msgbuf ln) \<or> c_end (ln_msgbuf ln) \<le> stk"
  shows "\<exists>ln' net' m'. lnsocket_perform_init L stk ln net m = Some (True, ln', net', m') \<and>
    n_sent net' = n_sent net @ fst (bolt8_encrypt L (send_chan (ln_crypto_state ln)) our_init) \<and>
    stream (n_in net') = rest \<and>
    send_chan (ln_crypto_state ln') = snd (bolt8_encrypt L (send_chan (ln_crypto_state ln)) our_init) \<and>
    recv_chan (ln_crypto_state ln') = snd (bolt8_encrypt L (recv_chan (ln_crypto_state ln)) their_init) \<and>
    ln_wf ln' \<and> ln_socket ln' = ln_socket ln \<and> n_out net' = [] \<and>
    c_start (ln_msgbuf ln') = c_start (ln_msgbuf ln) \<and> c_end (ln_msgbuf ln') = c_end (ln_msgbuf ln)"
proof -
  let ?cs = "ln_crypto_state ln"
  obtain packet ch where e: "bolt8_encrypt L (recv_chan ?cs) their_init = (packet, ch)"
    by (cases "bolt8_encrypt L (recv_chan ?cs) their_init")
  obtain packet2 ch2 where e2: "bolt8_encrypt L (send_chan ?cs) our_init = (packet2, ch2)"
    by (cases "bolt8_encrypt L (send_chan ?cs) our_init")
  have ch: "chan_ok ch" "chan_ok ch2"
    using bolt8_encrypt_ok [OF assms(6), of L their_init] bolt8_encrypt_ok [OF assms(5), of L our_init] e e2 by simp_all
  let ?ln1 = "after_read ln (length their_init) ch"
  obtain a net1 m1 where r: "lnsocket_read L ln net m = Some (Some a, ?ln1, net1, m1)"
      "stream (n_in net1) = rest" "n_sent net1 = n_sent net" "n_out net1 = []"
    using read_delivers [OF assms(1,2,6) e assms(7), of net rest m] assms(4,8) e by auto
  have ln1: "ln_wf ?ln1" "ln_socket ?ln1 \<noteq> 0" "c_start (ln_msgbuf ?ln1) = c_start (ln_msgbuf ln)"
      "c_end (ln_msgbuf ?ln1) = c_end (ln_msgbuf ln)" "send_chan (ln_crypto_state ?ln1) = send_chan ?cs"
      "recv_chan (ln_crypto_state ?ln1) = ch"
    using ln_wf_after_read [OF assms(2), of "length their_init" ch] assms(3,7) ch
    by (simp_all add: after_read_def MSGBUF_MEM_def) (simp add: send_chan_def)
  obtain m2 where m2: "lnsocket_make_default_initmsg (lib_order L) stk 1024 m1 = Some (13, m2)" "wrote stk 1024 our_init m1 m2"
    using make_default_initmsg_eq [of "lib_order L" stk 1024 m1] by (auto simp: our_init_def)
  have msg: "mread m2 stk (unat (13 :: u16)) = our_init" proof -
    have "mread m2 stk (length our_init) = our_init" using m2(2) by (simp only: wrote_def)
    moreover have "length our_init = unat (13 :: u16)" by (simp add: our_init_def)
    ultimately show ?thesis by metis
  qed
  have "lnsocket_write L ?ln1 stk 13 net1 m2 =
      Some (True, after_write ?ln1 ch2, net1\<lparr>n_sent := n_sent net1 @ packet2\<rparr>, mwrite m2 (c_start (ln_msgbuf ?ln1)) packet2)"
  proof (rule write_sends [OF assms(1) ln1(1,2)])
    show "chan_ok (send_chan (ln_crypto_state ?ln1))" using assms(5) ln1(5) by simp
    show "bolt8_encrypt L (send_chan (ln_crypto_state ?ln1)) (mread m2 stk (unat (13 :: u16))) = (packet2, ch2)"
      using e2 ln1(5) msg by simp
    show "stk + unat (13 :: u16) \<le> c_start (ln_msgbuf ?ln1) \<or> c_start (ln_msgbuf ?ln1) + 18 \<le> stk"
      using assms(2,9) ln1(3) by (auto simp: ln_wf_def MSGBUF_MEM_def)
  qed (rule r(4))
  then have "lnsocket_perform_init L stk ln net m = Some (True, after_write ?ln1 ch2,
      net1\<lparr>n_sent := n_sent net1 @ packet2\<rparr>, mwrite m2 (c_start (ln_msgbuf ?ln1)) packet2)"
    using r(1) m2(1) by (simp add: lnsocket_perform_init_def)
  moreover have "recv_chan (ln_crypto_state (after_write ?ln1 ch2)) = ch" using ln1(6) by (simp add: after_write_def recv_chan_def)
  moreover have "ln_socket ?ln1 = ln_socket ln" by (simp add: after_read_def)
  ultimately show ?thesis using r e e2 ch ln1 by simp
qed

section \<open>Properties\<close>

text \<open>C2: From the keys to the first messages: against a peer that follows the specification and answers Act
  Two in one piece and then with its init message, the handshake over the socket succeeds, and
  \<open>lnsocket_perform_init\<close> then reads the peer's init message and sends ours. The peer accepts what
  was sent: Act One, Act Three with our static key, and our init message encrypted with the key
  it derived. Whatever follows the peer's init message is left on the wire.\<close>

theorem session_established:
  assumes "aead_ok L" "secp_ok L"
    and "pubkey_create L (kp_priv ls) = (True, kp_pub ls)"
    and "pubkey_create L (kp_priv re) = (True, kp_pub re)"
    and "pubkey_create L (kp_priv (ln_key ln)) = (True, kp_pub (ln_key ln))"
    and "generate_key L rnd = Some (e, rnd')" "act_two_shape (ln_handshake ln)"
    and "ln_wf ln" "ln_socket ln \<noteq> 0" "length their_init \<le> 65528"
    and "stk + 1024 \<le> c_start (ln_msgbuf ln) \<or> c_end (ln_msgbuf ln) \<le> stk"
  shows "\<exists>act1 st1 msg2 st2 act3 rk sk ck.
    responder_act_one L (kp_priv ls) (bolt8_start (pubkey_serialize L (kp_pub ls))) act1 = Some st1 \<and>
    responder_act_two L re st1 = (msg2, st2) \<and>
    responder_act_three L re st2 act3 = Some (kp_pub (ln_key ln), rk, sk, ck) \<and>
    (\<forall>net es rest. n_out net = [] \<longrightarrow> n_in net = Data msg2 # es \<longrightarrow>
      stream es = fst (bolt8_encrypt L \<lparr>ch_k = sk, ch_ck = ck, ch_n = 0\<rparr> their_init) @ rest \<longrightarrow>
      (\<exists>ln1 net1 ln2 net2 m2.
        begin_handshake L ln (kp_pub ls) rnd net m = Some ((True, rnd'), ln1, net1, m) \<and>
        n_sent net1 = n_sent net @ act1 @ act3 \<and>
        lnsocket_perform_init L stk ln1 net1 m = Some (True, ln2, net2, m2) \<and>
        n_sent net2 = n_sent net1 @ fst (bolt8_encrypt L \<lparr>ch_k = rk, ch_ck = ck, ch_n = 0\<rparr> our_init) \<and>
        stream (n_in net2) = rest))"
proof -
  obtain act1 st1 msg2 st2 act3 rk sk ck where
    peer: "responder_act_one L (kp_priv ls) (bolt8_start (pubkey_serialize L (kp_pub ls))) act1 = Some st1"
      "responder_act_two L re st1 = (msg2, st2)" "responder_act_three L re st2 act3 = Some (kp_pub (ln_key ln), rk, sk, ck)"
    and len: "length rk = 32" "length sk = 32" "length ck = 32"
    and good: "\<And>net es. n_in net = Data msg2 # es \<and> n_out net = [] \<Longrightarrow>
      \<exists>ln'. begin_handshake L ln (kp_pub ls) rnd net m =
        Some ((True, rnd'), ln', net\<lparr>n_in := es, n_sent := n_sent net @ act1 @ act3\<rparr>, m) \<and> ln_same ln ln' \<and>
        ln_crypto_state ln' = \<lparr>cs_rn = 0, cs_sn = 0, cs_sk = rk, cs_rk = sk, cs_s_ck = ck, cs_r_ck = ck\<rparr>"
    using handshake_over_socket [OF assms(1-7), of m] by blast
  have "\<exists>ln1 net1 ln2 net2 m2.
        begin_handshake L ln (kp_pub ls) rnd net m = Some ((True, rnd'), ln1, net1, m) \<and>
        n_sent net1 = n_sent net @ act1 @ act3 \<and>
        lnsocket_perform_init L stk ln1 net1 m = Some (True, ln2, net2, m2) \<and>
        n_sent net2 = n_sent net1 @ fst (bolt8_encrypt L \<lparr>ch_k = rk, ch_ck = ck, ch_n = 0\<rparr> our_init) \<and>
        stream (n_in net2) = rest"
    if n: "n_out net = []" "n_in net = Data msg2 # es"
      "stream es = fst (bolt8_encrypt L \<lparr>ch_k = sk, ch_ck = ck, ch_n = 0\<rparr> their_init) @ rest" for net es rest
  proof -
    obtain ln1 where h: "begin_handshake L ln (kp_pub ls) rnd net m =
          Some ((True, rnd'), ln1, net\<lparr>n_in := es, n_sent := n_sent net @ act1 @ act3\<rparr>, m)" "ln_same ln ln1"
        "ln_crypto_state ln1 = \<lparr>cs_rn = 0, cs_sn = 0, cs_sk = rk, cs_rk = sk, cs_s_ck = ck, cs_r_ck = ck\<rparr>"
      using good [of net es] n by blast
    have chans: "send_chan (ln_crypto_state ln1) = \<lparr>ch_k = rk, ch_ck = ck, ch_n = 0\<rparr>"
        "recv_chan (ln_crypto_state ln1) = \<lparr>ch_k = sk, ch_ck = ck, ch_n = 0\<rparr>"
      using h(3) by (simp_all add: send_chan_def recv_chan_def)
    have wf: "ln_wf ln1" "ln_socket ln1 \<noteq> 0" "ln_msgbuf ln1 = ln_msgbuf ln"
      using h(2) assms(8,9) by (simp_all add: ln_wf_def ln_same_def)
    show ?thesis
      using perform_init_exchanges [OF assms(1) wf(1,2) _ _ _ assms(10), of "net\<lparr>n_in := es, n_sent := n_sent net @ act1 @ act3\<rparr>" rest stk m]
        h(1) n assms(11) wf(3) len unfolding chans by (auto simp: chan_ok_def)
  qed
  then show ?thesis using peer by blast
qed

theorem session_established_witness:
  "\<exists>act1 st1 msg2 st2 act3 rk sk ck.
    responder_act_one example_lib (kp_priv (example_pair 2))
      (bolt8_start (pubkey_serialize example_lib (kp_pub (example_pair 2)))) act1 = Some st1 \<and>
    responder_act_two example_lib (example_pair 3) st1 = (msg2, st2) \<and>
    responder_act_three example_lib (example_pair 3) st2 act3 = Some (kp_pub (ln_key example_ln), rk, sk, ck) \<and>
    (\<forall>net es rest. n_out net = [] \<longrightarrow> n_in net = Data msg2 # es \<longrightarrow>
      stream es = fst (bolt8_encrypt example_lib \<lparr>ch_k = sk, ch_ck = ck, ch_n = 0\<rparr> [0, 16, 0, 0, 0, 0]) @ rest \<longrightarrow>
      (\<exists>ln1 net1 ln2 net2 m2.
        begin_handshake example_lib example_ln (kp_pub (example_pair 2)) [replicate 32 4] net (\<lambda>_. 0) =
          Some ((True, []), ln1, net1, \<lambda>_. 0) \<and>
        n_sent net1 = n_sent net @ act1 @ act3 \<and>
        lnsocket_perform_init example_lib 200000 ln1 net1 (\<lambda>_. 0) = Some (True, ln2, net2, m2) \<and>
        n_sent net2 = n_sent net1 @ fst (bolt8_encrypt example_lib \<lparr>ch_k = rk, ch_ck = ck, ch_n = 0\<rparr> our_init) \<and>
        stream (n_in net2) = rest))"
proof (rule session_established [OF example_lib_ok])
  show "pubkey_create example_lib (kp_priv (example_pair 2)) = (True, kp_pub (example_pair 2))"
    and "pubkey_create example_lib (kp_priv (example_pair 3)) = (True, kp_pub (example_pair 3))"
    by (rule example_pair_valid, simp)+
  show "pubkey_create example_lib (kp_priv (ln_key example_ln)) = (True, kp_pub (ln_key example_ln))"
    using example_pair_valid [of 1] by (simp add: example_ln_def)
  show "generate_key example_lib [replicate 32 4] = Some (example_pair 4, [])"
    using example_pair_valid [of 4] by (simp add: example_pair_def)
  show "act_two_shape (ln_handshake example_ln)"
    by (simp add: act_two_shape_def example_ln_def example_handshake_def)
qed (simp_all add: example_ln_wf example_ln_simps)

text \<open>C25: Act Two is read with a single call: when its first segment has fewer than 50 bytes, as TCP allows, or
  the peer closes, the handshake fails after Act One, although the protocol wants exactly 50
  bytes to be read, and the rest may be on its way.\<close>

theorem act_two_needs_one_segment:
  assumes "aead_ok L" "secp_ok L"
    and "pubkey_create L (kp_priv ls) = (True, kp_pub ls)"
    and "pubkey_create L (kp_priv re) = (True, kp_pub re)"
    and "pubkey_create L (kp_priv (ln_key ln)) = (True, kp_pub (ln_key ln))"
    and "generate_key L rnd = Some (e, rnd')" "act_two_shape (ln_handshake ln)" "ln_wf ln"
  shows "\<exists>act1 st1 msg2 st2.
    responder_act_one L (kp_priv ls) (bolt8_start (pubkey_serialize L (kp_pub ls))) act1 = Some st1 \<and>
    responder_act_two L re st1 = (msg2, st2) \<and> length msg2 = 50 \<and>
    (\<forall>net es k. n_in net = Data (take k msg2) # Data (drop k msg2) # es \<longrightarrow> n_out net = [] \<longrightarrow>
      length (n_errno net) \<le> 256 \<longrightarrow> k < 50 \<longrightarrow>
      (\<exists>ln' net' m'. begin_handshake L ln (kp_pub ls) rnd net m = Some ((False, rnd'), ln', net', m') \<and>
        n_sent net' = n_sent net @ act1))"
proof -
  obtain act1 st1 msg2 st2 where
    peer: "responder_act_one L (kp_priv ls) (bolt8_start (pubkey_serialize L (kp_pub ls))) act1 = Some st1"
      "responder_act_two L re st1 = (msg2, st2)" "length msg2 = ACT_TWO_SIZE"
    and short: "\<And>net bs es. n_in net = Data bs # es \<and> n_out net = [] \<and> length bs < ACT_TWO_SIZE \<and>
        length (n_errno net) \<le> 256 \<and> ln_wf ln \<Longrightarrow>
      \<exists>ln' net' m'. begin_handshake L ln (kp_pub ls) rnd net m = Some ((False, rnd'), ln', net', m') \<and>
        n_sent net' = n_sent net @ act1"
    using handshake_over_socket [OF assms(1-7), of m] by blast
  have "\<exists>ln' net' m'. begin_handshake L ln (kp_pub ls) rnd net m = Some ((False, rnd'), ln', net', m') \<and>
      n_sent net' = n_sent net @ act1"
    if "n_in net = Data (take k msg2) # Data (drop k msg2) # es" "n_out net = []" "length (n_errno net) \<le> 256" "k < 50"
    for net es k
    using short [of net "take k msg2" "Data (drop k msg2) # es"] that assms(8) by (simp add: ACT_TWO_SIZE_def)
  then show ?thesis using peer unfolding ACT_TWO_SIZE_def by blast
qed

theorem act_two_needs_one_segment_witness:
  "\<exists>act1 st1 msg2 st2.
    responder_act_one example_lib (kp_priv (example_pair 2))
      (bolt8_start (pubkey_serialize example_lib (kp_pub (example_pair 2)))) act1 = Some st1 \<and>
    responder_act_two example_lib (example_pair 3) st1 = (msg2, st2) \<and> length msg2 = 50 \<and>
    (\<forall>net es k. n_in net = Data (take k msg2) # Data (drop k msg2) # es \<longrightarrow> n_out net = [] \<longrightarrow>
      length (n_errno net) \<le> 256 \<longrightarrow> k < 50 \<longrightarrow>
      (\<exists>ln' net' m'. begin_handshake example_lib example_ln (kp_pub (example_pair 2)) [replicate 32 4] net (\<lambda>_. 0) =
          Some ((False, []), ln', net', m') \<and>
        n_sent net' = n_sent net @ act1))"
proof (rule act_two_needs_one_segment [OF example_lib_ok])
  show "pubkey_create example_lib (kp_priv (example_pair 2)) = (True, kp_pub (example_pair 2))"
    and "pubkey_create example_lib (kp_priv (example_pair 3)) = (True, kp_pub (example_pair 3))"
    by (rule example_pair_valid, simp)+
  show "pubkey_create example_lib (kp_priv (ln_key example_ln)) = (True, kp_pub (ln_key example_ln))"
    using example_pair_valid [of 1] by (simp add: example_ln_def)
  show "generate_key example_lib [replicate 32 4] = Some (example_pair 4, [])"
    using example_pair_valid [of 4] by (simp add: example_pair_def)
  show "act_two_shape (ln_handshake example_ln)"
    by (simp add: act_two_shape_def example_ln_def example_handshake_def)
qed (simp_all add: example_ln_wf)

lemma example_dec_fits: "aead_dec_fits example_lib"
  by (simp add: aead_dec_fits_def example_lib_def aead.defs lib.defs example_aead_def Let_def)

lemma example_conn_ok: "conn_ok example_ln example_net"
  by (simp add: conn_ok_def example_ln_wf example_ln_simps keys_ok_def example_state_def net_ok_def example_net_def)

lemma zero_lnsocket_simps [simp]:
  "ln_socket zero_lnsocket = 0" "keys_ok (ln_crypto_state zero_lnsocket)" "act_two_shape (ln_handshake zero_lnsocket)"
  by (simp_all add: zero_lnsocket_def Let_def keys_ok_def act_two_shape_def)

lemma mread_zeros:
  "mread (mwrite (mwrite m a (replicate j 0)) (a + j) (replicate k 0)) a (j + k) = replicate (j + k) 0"
  by (rule nth_equalityI) (auto simp: mwrite_def)

lemma create_eq:
  fixes a sz :: nat
  defines "e \<equiv> a + sz + MSGBUF_MEM"
  shows "\<exists>m'. lnsocket_create (Some a) sz m = (Some (zero_lnsocket\<lparr>ln_msgbuf := make_cursor (a + sz) e,
      ln_errs := \<lparr>e_cur = make_cursor e (e + ERROR_MEM), e_enabled = True\<rparr>,
      ln_mem := \<lparr>c_start = a, c_p = e + ERROR_MEM, c_end = e + ERROR_MEM\<rparr>\<rparr>), m') \<and>
    mread m' (a + sz) (MSGBUF_MEM + ERROR_MEM) = replicate (MSGBUF_MEM + ERROR_MEM) 0 \<and>
    only_at a (sz + MSGBUF_MEM + ERROR_MEM) m m'"
proof -
  let ?m = "mwrite (mwrite (mwrite m a (replicate sz 0)) (a + sz) (replicate MSGBUF_MEM 0)) (a + sz + MSGBUF_MEM) (replicate ERROR_MEM 0)"
  have "lnsocket_create (Some a) sz m = (Some (zero_lnsocket\<lparr>ln_msgbuf := make_cursor (a + sz) e,
      ln_errs := \<lparr>e_cur = make_cursor e (e + ERROR_MEM), e_enabled = True\<rparr>,
      ln_mem := \<lparr>c_start = a, c_p = e + ERROR_MEM, c_end = e + ERROR_MEM\<rparr>\<rparr>), ?m)"
    by (simp add: lnsocket_create_def Let_def make_cursor_def cursor_alloc_def cursor_malloc_def cursor_slice_eq e_def
        add.assoc add.commute)
  moreover have "only_at a (sz + MSGBUF_MEM + ERROR_MEM) m ?m" by (auto simp: only_at_def mwrite_def)
  ultimately show ?thesis using mread_zeros by blast
qed

text \<open>C12: \<open>lnsocket_create\<close> fails only when \<open>malloc\<close> does. The connection it makes is well formed: the
  structure, the message buffer and the error log follow each other and fill the allocation
  exactly, the buffer and the log are zero, nothing outside the allocation is written, and \<open>lnsocket_destroy\<close> frees exactly
  the allocated pointer. It is not connected: \<open>lnsocket_encrypt\<close> refuses, and leaves an error.\<close>

theorem created_connection:
  assumes "length (n_errno net) \<le> 256" "n_in net = []" "n_out net = []"
  shows "\<exists>ln m'. lnsocket_create (Some a) sz m = (Some ln, m') \<and> fst (lnsocket_create None sz m) = None \<and>
    conn_ok ln net \<and> c_start (ln_msgbuf ln) = a + sz \<and>
    c_end (e_cur (ln_errs ln)) = a + (sz + MSGBUF_MEM + ERROR_MEM) \<and>
    mread m' (a + sz) (MSGBUF_MEM + ERROR_MEM) = replicate (MSGBUF_MEM + ERROR_MEM) 0 \<and>
    (\<forall>x. x \<in> {a..<a + (sz + MSGBUF_MEM + ERROR_MEM)} \<or> m' x = m x) \<and>
    lnsocket_destroy (Some ln) = Some a \<and>
    (\<exists>ln2 m2. lnsocket_encrypt L ln msg n net m' = Some (0, ln2, net, m2) \<and>
      c_p (e_cur (ln_errs ln2)) > c_p (e_cur (ln_errs ln)))"
proof -
  let ?e = "a + sz + MSGBUF_MEM"
  define ln where "ln = zero_lnsocket\<lparr>ln_msgbuf := make_cursor (a + sz) ?e,
      ln_errs := \<lparr>e_cur = make_cursor ?e (?e + ERROR_MEM), e_enabled = True\<rparr>,
      ln_mem := \<lparr>c_start = a, c_p = ?e + ERROR_MEM, c_end = ?e + ERROR_MEM\<rparr>\<rparr>"
  obtain m' where c: "lnsocket_create (Some a) sz m = (Some ln, m')"
      "mread m' (a + sz) (MSGBUF_MEM + ERROR_MEM) = replicate (MSGBUF_MEM + ERROR_MEM) 0"
      "only_at a (sz + MSGBUF_MEM + ERROR_MEM) m m'"
    using create_eq [of a sz m] unfolding ln_def by blast
  have ok: "conn_ok ln net" using assms
    by (simp add: conn_ok_def ln_wf_def ln_def make_cursor_def cursor_ok_def net_ok_def)
  have out: "x \<in> {a..<a + (sz + MSGBUF_MEM + ERROR_MEM)} \<or> m' x = m x" for x
    using c(3) unfolding only_at_def by (meson atLeastLessThan_iff not_le)
  let ?ln = "ln\<lparr>ln_msgbuf := reset_cursor (ln_msgbuf ln)\<rparr>"
  let ?msg = "ascii ''lnsocket_encrypt'' @ ascii '':'' @ ascii ''lnsocket.c'' @ ascii '':'' @ dec_nat 507 @ ascii '': ''
    @ ascii ''not connected''"
  have len: "length ?msg \<le> 60" "length ?msg < 2 ^ 31" using length_dec_nat [of 507 3] by simp_all
  have errs: "ln_errs ?ln = \<lparr>e_cur = make_cursor ?e (?e + ERROR_MEM), e_enabled = True\<rparr>" by (simp add: ln_def)
  have "cursor_ok (make_cursor ?e (?e + ERROR_MEM))" by (simp add: cursor_ok_def make_cursor_def)
  note push = cursor_push_c_str_eq [OF this len(2), of m']
  have "note_error_fmt (ln_errs ?ln) ?msg m' = Some ((ln_errs ?ln)\<lparr>e_cur := (make_cursor ?e (?e + ERROR_MEM))
      \<lparr>c_p := ?e + length ?msg + 1\<rparr>\<rparr>, mwrite m' ?e (?msg @ [0]))"
    unfolding errs note_error_fmt_def cursor_push_error_def using len(1) push
    by (simp add: make_cursor_def ERROR_MEM_def del: ascii_simps)
  then have "lnsocket_encrypt L ln msg n net m' = Some (0, ?ln\<lparr>ln_errs := (ln_errs ?ln)\<lparr>e_cur :=
      (make_cursor ?e (?e + ERROR_MEM))\<lparr>c_p := ?e + length ?msg + 1\<rparr>\<rparr>\<rparr>, net, mwrite m' ?e (?msg @ [0]))"
    by (simp add: encrypt_defs Let_def ln_fail_def ln_note_def note_error_def ln_def del: ascii_simps)
  moreover have "lnsocket_create None sz m = (None, m)" by (simp add: lnsocket_create_def Let_def)
  ultimately show ?thesis using c ok out
    by (simp add: ln_def lnsocket_destroy_def make_cursor_def del: ascii_simps)
qed

theorem created_connection_witness:
  "\<exists>ln m'. lnsocket_create (Some 4096) 2000 (\<lambda>_. 3) = (Some ln, m') \<and> fst (lnsocket_create None 2000 (\<lambda>_. 3)) = None \<and>
    conn_ok ln example_net \<and> c_start (ln_msgbuf ln) = 4096 + 2000 \<and>
    c_end (e_cur (ln_errs ln)) = 4096 + (2000 + MSGBUF_MEM + ERROR_MEM) \<and>
    mread m' (4096 + 2000) (MSGBUF_MEM + ERROR_MEM) = replicate (MSGBUF_MEM + ERROR_MEM) 0 \<and>
    (\<forall>x. x \<in> {4096..<4096 + (2000 + MSGBUF_MEM + ERROR_MEM)} \<or> m' x = (\<lambda>_. 3) x) \<and>
    lnsocket_destroy (Some ln) = Some 4096 \<and>
    (\<exists>ln2 m2. lnsocket_encrypt example_lib ln 0 5 example_net m' = Some (0, ln2, example_net, m2) \<and>
      c_p (e_cur (ln_errs ln2)) > c_p (e_cur (ln_errs ln)))"
  by (rule created_connection) (simp_all add: example_net_def)

end
