(* ===== verification/Connect.thy ===== *)
theory Connect
  imports Session
begin

text \<open>
  \<open>lnsocket_connect_with\<close> of \<open>lnsocket.c\<close> with its SOCKS5 handshake for Tor, and \<open>lnsocket_act_one\<close>
  of \<open>lnsocket_wasm.c\<close>, which does the same without a socket. What the kernel and the resolver
  answer is the record \<open>os\<close>; the calls made to them are recorded in order.
\<close>

section \<open>Numbers in text\<close>

text \<open>
  \<open>atoi\<close> of the C library: blanks, a sign, digits, and whatever follows. C leaves a number that does not
  fit into an \<open>int\<close> undefined; here it is taken as it is, and \<open>htons\<close> keeps its last 16 bits.
\<close>

definition atoi :: "bytes \<Rightarrow> int" where
  "atoi str =
     (let str = dropWhile (\<lambda>c. c = 32 \<or> 9 \<le> c \<and> c \<le> 13) str;
          digits = (\<lambda>str. foldl (\<lambda>n c. 10 * n + (uint c - 48)) 0 (takeWhile (\<lambda>c. 48 \<le> c \<and> c \<le> 57) str))
      in case str of
           [] \<Rightarrow> 0
         | c # cs \<Rightarrow> if c = 45 then - digits cs else if c = 43 then digits cs else digits str)"

text \<open>\<open>htons\<close>, as the two bytes it leaves in memory.\<close>

definition port_bytes :: "byte_order \<Rightarrow> bytes \<Rightarrow> bytes" where
  "port_bytes bo port = host_bytes bo 2 (cpu_to_be16 bo (of_int (atoi port)))"

section \<open>The SOCKS5 handshake\<close>

definition SOCKS_NOAUTH :: u8 where "SOCKS_NOAUTH = 0"
definition SOCKS_ERROR :: u8 where "SOCKS_ERROR = 0xff"
definition SOCKS_CONNECT :: u8 where "SOCKS_CONNECT = 1"
definition SOCKS_TYP_IPV4 :: u8 where "SOCKS_TYP_IPV4 = 1"
definition SOCKS_DOMAIN :: u8 where "SOCKS_DOMAIN = 3"
definition SOCKS_TYP_IPV6 :: u8 where "SOCKS_TYP_IPV6 = 4"
definition SOCKS_V5 :: u8 where "SOCKS_V5 = 5"
definition SIZE_OF_RESPONSE :: nat where "SIZE_OF_RESPONSE = 4"
definition SIZE_OF_IPV4_RESPONSE :: nat where "SIZE_OF_IPV4_RESPONSE = 6"

text \<open>
  \<open>hdr0\<close> are the two bytes the stack holds before the reply is read into them: only a result of 0
  of that \<open>read\<close> is taken as a failure. The length of the host name is stored in one byte.
\<close>

definition lnsocket_handshake_with_tor ::
  "byte_order \<Rightarrow> bytes \<Rightarrow> lnsocket \<Rightarrow> bytes \<Rightarrow> bytes \<Rightarrow> net \<Rightarrow> mem \<Rightarrow> bool io" where
  "lnsocket_handshake_with_tor bo hdr0 ln host port net m = do {
     let fail = (\<lambda>line msg net. ln_fail False ln (''lnsocket_handshake_with_tor'', ''lnsocket.c'', line) msg net m);
     let request = [SOCKS_V5, 0x01, SOCKS_NOAUTH];
     let (n, net) = os_write net request;
     if n \<noteq> int (length request) then fail 625 (ascii ''Failed writing request: '' @ n_errno net) net
     else do {
       let (r, net) = os_read net 2;
       if r = Data [] then fail 632 (ascii ''Failed reading header'') net
       else do {
         let hdr = patch hdr0 0 (case r of Data bs \<Rightarrow> bs | _ \<Rightarrow> []);
         if hdr ! 1 = SOCKS_ERROR then fail 635 (ascii ''Failed proxy authentication required'') net
         else do {
           let hlen = length host;
           let buffer = [SOCKS_V5, SOCKS_CONNECT, 0, SOCKS_DOMAIN, of_nat hlen] @ host @ port_bytes bo port;
           let (n, net) = os_write net buffer;
           if n \<noteq> int (length buffer) then fail 651 (ascii ''Failed writing buffer: '' @ n_errno net) net
           else do {
             let (ok, inbuffer, net) = read_all net (SIZE_OF_IPV4_RESPONSE + SIZE_OF_RESPONSE);
             if \<not> ok then fail 657 (ascii ''Failed reading inbuffer: '' @ n_errno net) net
             else if inbuffer ! 1 \<noteq> 0 then
               fail 659 (ascii ''Failed proxy connection: '' @ dec_nat (unat (inbuffer ! 1))) net
             else if inbuffer ! 3 = SOCKS_TYP_IPV6 then fail 661 (ascii ''Failed ipv6 not supported yet'') net
             else if inbuffer ! 3 \<noteq> SOCKS_TYP_IPV4 then fail 663 (ascii ''Failed only ipv4 supported'') net
             else Some (True, ln, net, m) } } } } }"

section \<open>Connecting\<close>

text \<open>
  The answers: the descriptor of \<open>socket\<close>, the flags and results of the two pairs of \<open>fcntl\<close>
  calls, the result of \<open>connect\<close> to a proxy, of \<open>getaddrinfo\<close> (and whether it gave an address),
  \<open>gai_strerror\<close>, and the result of \<open>select\<close>; and the value of \<open>O_NONBLOCK\<close>.
\<close>

record os =
  os_socket :: int
  os_flags :: "int \<times> int"
  os_setfl :: "int \<times> int"
  os_connect :: int
  os_addrinfo :: "bytes \<Rightarrow> bytes \<Rightarrow> int \<times> bool"
  os_gai_strerror :: "int \<Rightarrow> bytes"
  os_select :: int
  os_nonblock :: int

datatype os_call =
    Socket_call
  | Setfl_call int
  | Getaddrinfo_call bytes bytes
  | Connect_call
  | Connect_proxy_call bytes bytes
  | Select_call int int

definition io_fd_block :: "int \<Rightarrow> int \<Rightarrow> int \<Rightarrow> bool \<Rightarrow> bool \<times> os_call list" where
  "io_fd_block nonblock flags setfl block =
     (if flags = - 1 then (False, [])
      else (let flags = (if block then flags AND NOT nonblock else flags OR nonblock)
            in (setfl \<noteq> - 1, [Setfl_call flags])))"

definition DEFAULT_TIMEOUT :: int where "DEFAULT_TIMEOUT = 3000"
definition DEFAULT_TOR_TIMEOUT :: int where "DEFAULT_TOR_TIMEOUT = 10000"

text \<open>
  C's division of an \<open>int\<close> truncates; timeouts are not negative. A descriptor below 0 or from
  \<open>FD_SETSIZE\<close> on makes \<open>FD_SET\<close> write outside the set, a crash of the model. Results are
  whether the connection succeeded, the random draws left, and the calls made.
\<close>

definition lnsocket_connect_with ::
  "'a lib_scheme \<Rightarrow> os \<Rightarrow> bytes \<Rightarrow> lnsocket \<Rightarrow> bytes \<Rightarrow> bytes \<Rightarrow> bytes option \<Rightarrow> int \<Rightarrow> bytes list \<Rightarrow> net \<Rightarrow> mem
    \<Rightarrow> (bool \<times> bytes list \<times> os_call list) io" where
  "lnsocket_connect_with L os hdr0 ln node_id host tor_proxy timeout_ms rnd net m = do {
     let fail = (\<lambda>tr ln line msg. ln_fail (False, rnd, tr) ln (''lnsocket_connect_with'', ''lnsocket.c'', line) msg net m);
     let onlyhost = host;
     let tv_sec = timeout_ms div 1000;
     let tv_usec = (timeout_ms mod 1000) * 1000;
     if is_zero (kp_pub (ln_key ln) @ kp_priv (ln_key ln)) then
       fail [] ln 685 (ascii ''key not initialized, use lnsocket_set_key() or lnsocket_genkey()'')
     else do {
       let (ok, their_node_id) = parse_node_id node_id;
       if \<not> ok then fail [] ln 689 (ascii ''failed to parse node id'')
       else do {
         let (ok, their_id) = pubkey_from_node_id L their_node_id;
         if \<not> ok then fail [] ln 693 (ascii ''failed to convert node_id to pubkey'')
         else do {
           let ln = ln\<lparr>ln_socket := os_socket os\<rparr>;
           let tr = [Socket_call];
           if ln_socket ln = 0 then fail tr ln 697 (ascii ''creating socket failed'')
           else do {
             c_assert (0 \<le> ln_socket ln \<and> ln_socket ln < 1024);
             let (ok, cs) = io_fd_block (os_nonblock os) (fst (os_flags os)) (fst (os_setfl os)) False;
             let tr = tr @ cs;
             if \<not> ok then fail tr ln 702 (ascii ''failed setting socket to non-blocking'')
             else do {
               (stop, onlyhost, tr) \<leftarrow> (case tor_proxy of
                   Some proxy \<Rightarrow> (case parse_port proxy of (proxyhost, port) \<Rightarrow>
                     Some (if os_connect os = 0 then Some (714, ascii ''Failed to connect'') else None, onlyhost,
                       tr @ [Connect_proxy_call proxyhost
                         (case port of Some p \<Rightarrow> port_bytes (lib_order L) p | None \<Rightarrow> port_bytes (lib_order L) (ascii ''9050''))]))
                 | None \<Rightarrow> (case parse_port onlyhost of (onlyhost, port) \<Rightarrow>
                     (let port = (case port of Some p \<Rightarrow> p | None \<Rightarrow> ascii ''9735'');
                          (ret, addrs) = os_addrinfo os onlyhost port;
                          tr = tr @ [Getaddrinfo_call onlyhost port]
                      in if ret \<noteq> 0 \<or> \<not> addrs then Some (Some (719, os_gai_strerror os ret), onlyhost, tr)
                         else Some (None, onlyhost, tr @ [Connect_call]))));
               case stop of
                 Some (line, msg) \<Rightarrow> fail tr ln line msg
               | None \<Rightarrow> do {
                   let (ok, cs) = io_fd_block (os_nonblock os) (snd (os_flags os)) (snd (os_setfl os)) True;
                   let tr = tr @ cs;
                   if \<not> ok then fail tr ln 725 (ascii ''failed setting socket to blocking'')
                   else do {
                     let ret = os_select os;
                     let tr = tr @ [Select_call tv_sec tv_usec];
                     if ret = - 1 then fail tr ln 729 (ascii ''select error'')
                     else if ret = 0 then fail tr ln 731 (ascii ''connection timeout'')
                     else do {
                       (ok, ln, net, m) \<leftarrow> (case tor_proxy of
                           None \<Rightarrow> Some (True, ln, net, m)
                         | Some _ \<Rightarrow> (case parse_port onlyhost of (onlyhost, port) \<Rightarrow>
                             lnsocket_handshake_with_tor (lib_order L) hdr0 ln onlyhost
                               (case port of Some p \<Rightarrow> p | None \<Rightarrow> ascii ''9735'') net m));
                       if \<not> ok then
                         ln_fail (False, rnd, tr) ln (''lnsocket_connect_with'', ''lnsocket.c'', 738)
                           (ascii ''failed handshake with tor proxy'') net m
                       else do {
                         ((ok, rnd), ln, net, m) \<leftarrow> begin_handshake L ln their_id rnd net m;
                         Some ((ok, rnd, tr), ln, net, m) } } } } } } } } } }"

definition lnsocket_connect where
  "lnsocket_connect L os hdr0 ln node_id host rnd net m =
     lnsocket_connect_with L os hdr0 ln node_id host None DEFAULT_TIMEOUT rnd net m"

definition lnsocket_connect_tor where
  "lnsocket_connect_tor L os hdr0 ln node_id host tor_proxy rnd net m =
     lnsocket_connect_with L os hdr0 ln node_id host tor_proxy DEFAULT_TOR_TIMEOUT rnd net m"

section \<open>Act One for the JavaScript build\<close>

definition lnsocket_act_one ::
  "'a lib_scheme \<Rightarrow> lnsocket \<Rightarrow> bytes \<Rightarrow> bytes list \<Rightarrow> net \<Rightarrow> mem \<Rightarrow> (act_one option \<times> bytes list) io" where
  "lnsocket_act_one L ln node_id rnd net m = do {
     let fail = (\<lambda>rnd ln line msg m. ln_fail (None, rnd) ln (''lnsocket_act_one'', ''lnsocket_wasm.c'', line) msg net m);
     if is_zero (kp_pub (ln_key ln) @ kp_priv (ln_key ln)) then
       fail rnd ln 14 (ascii ''key not initialized, use lnsocket_set_key() or lnsocket_genkey()'') m
     else do {
       let (ok, their_node_id) = parse_node_id node_id;
       if \<not> ok then fail rnd ln 19 (ascii ''failed to parse node id'') m
       else do {
         let (ok, their_id) = pubkey_from_node_id L their_node_id;
         if \<not> ok then fail rnd ln 24 (ascii ''failed to convert node_id to pubkey'') m
         else do {
           hs \<leftarrow> new_handshake L (ln_handshake ln) their_id;
           let ln = ln\<lparr>ln_handshake := hs\<lparr>hs_side := INITIATOR, hs_their_id := their_id\<rparr>\<rparr>;
           (ok, rnd, ln, m) \<leftarrow> act_one_initiator_prep L ln rnd m;
           if \<not> ok then fail rnd ln 34 (ascii ''failed to build initial handshake data (act1)'') m
           else Some ((Some (hs_act1 (ln_handshake ln)), rnd), ln, net, m) } } } }"

section \<open>What has to hold before the handshake\<close>

text \<open>What the caller gives, and what the kernel and the resolver must answer.\<close>

definition input_good :: "'a lib_scheme \<Rightarrow> lnsocket \<Rightarrow> bytes \<Rightarrow> bool" where
  "input_good L ln node_id \<longleftrightarrow> \<not> is_zero (kp_pub (ln_key ln) @ kp_priv (ln_key ln)) \<and>
     fst (parse_node_id node_id) \<and> fst (pubkey_from_node_id L (snd (parse_node_id node_id)))"

definition peer_address :: "bytes \<Rightarrow> bytes \<times> bytes" where
  "peer_address host = (case parse_port host of (h, p) \<Rightarrow> (h, case p of Some p \<Rightarrow> p | None \<Rightarrow> ascii ''9735''))"

definition os_connects :: "os \<Rightarrow> bytes \<Rightarrow> bytes option \<Rightarrow> bool" where
  "os_connects os host tor_proxy \<longleftrightarrow> os_socket os \<noteq> 0 \<and>
     fst (os_flags os) \<noteq> - 1 \<and> fst (os_setfl os) \<noteq> - 1 \<and> snd (os_flags os) \<noteq> - 1 \<and> snd (os_setfl os) \<noteq> - 1 \<and>
     (case tor_proxy of
        None \<Rightarrow> case_prod (os_addrinfo os) (peer_address host) = (0, True)
      | Some _ \<Rightarrow> os_connect os \<noteq> 0) \<and> os_select os \<noteq> - 1 \<and> os_select os \<noteq> 0"

text \<open>The calls of a direct connection, in their order.\<close>

definition direct_calls :: "os \<Rightarrow> bytes \<Rightarrow> int \<Rightarrow> os_call list" where
  "direct_calls os host timeout_ms = [Socket_call, Setfl_call (fst (os_flags os) OR os_nonblock os),
     case_prod Getaddrinfo_call (peer_address host), Connect_call,
     Setfl_call (snd (os_flags os) AND NOT (os_nonblock os)),
     Select_call (timeout_ms div 1000) ((timeout_ms mod 1000) * 1000)]"

lemma io_fd_block_eq:
  "io_fd_block nb flags setfl block =
    (flags \<noteq> - 1 \<and> setfl \<noteq> - 1, if flags = - 1 then [] else [Setfl_call (if block then flags AND NOT nb else flags OR nb)])"
  by (simp add: io_fd_block_def Let_def)

lemma connect_direct:
  assumes "input_good L ln node_id" "os_connects os host None" "0 < os_socket os" "os_socket os < 1024"
    and "pubkey_from_node_id L (snd (parse_node_id node_id)) = (True, their_id)"
  shows "lnsocket_connect_with L os hdr0 ln node_id host None timeout_ms rnd net m =
    map_option (map_prod (\<lambda>(ok, rnd). (ok, rnd, direct_calls os host timeout_ms)) id)
      (begin_handshake L (ln\<lparr>ln_socket := os_socket os\<rparr>) their_id rnd net m)"
proof -
  obtain id' where id': "parse_node_id node_id = (True, id')" "pubkey_from_node_id L id' = (True, their_id)"
    using assms(1,5) by (cases "parse_node_id node_id") (simp add: input_good_def)
  obtain h p where hp: "parse_port host = (h, p)" by force
  show ?thesis using assms(1-4) id' hp
    by (cases p; cases "begin_handshake L (ln\<lparr>ln_socket := os_socket os\<rparr>) their_id rnd net m")
      (auto simp: lnsocket_connect_with_def Let_def input_good_def os_connects_def c_assert_def io_fd_block_eq
        peer_address_def direct_calls_def)
qed

lemma own_node_id:
  assumes "secp_ok L" "pubkey_create L (kp_priv ls) = (True, kp_pub ls)"
  shows "parse_node_id (hex_encode (pubkey_serialize L (kp_pub ls))) = (True, pubkey_serialize L (kp_pub ls))"
    and "pubkey_from_node_id L (pubkey_serialize L (kp_pub ls)) = (True, kp_pub ls)"
  using hex_decode_encode [of "pubkey_serialize L (kp_pub ls)"] assms unfolding secp_ok_def parse_node_id_def pubkey_from_node_id_def
  by simp_all

lemma connect_begins:
  assumes "secp_ok L" "pubkey_create L (kp_priv ls) = (True, kp_pub ls)" "\<exists>b \<in> set (kp_priv (ln_key ln)). b \<noteq> 0"
    and "os_connects os host None" "0 < os_socket os" "os_socket os < 1024"
  shows "lnsocket_connect L os hdr0 ln (hex_encode (pubkey_serialize L (kp_pub ls))) host rnd net m =
    map_option (map_prod (\<lambda>(ok, rnd). (ok, rnd, direct_calls os host 3000)) id)
      (begin_handshake L (ln\<lparr>ln_socket := os_socket os\<rparr>) (kp_pub ls) rnd net m)"
proof -
  note id = own_node_id [OF assms(1,2)]
  have "input_good L ln (hex_encode (pubkey_serialize L (kp_pub ls)))" using assms(3) id by (auto simp: input_good_def is_zero_iff)
  from connect_direct [OF this assms(4-6)] id show ?thesis
    by (simp add: lnsocket_connect_def DEFAULT_TIMEOUT_def)
qed

text \<open>The same for Act One on its own.\<close>

lemma act_one_initiates:
  assumes "secp_ok L" "pubkey_create L (kp_priv ls) = (True, kp_pub ls)" "\<exists>b \<in> set (kp_priv (ln_key ln)). b \<noteq> 0"
    and "initiate L ln (kp_pub ls) rnd m = Some (True, rnd', ln1, m1)"
  shows "lnsocket_act_one L ln (hex_encode (pubkey_serialize L (kp_pub ls))) rnd net m =
    Some ((Some (hs_act1 (ln_handshake ln1)), rnd'), ln1, net, m1)"
proof -
  note id = own_node_id [OF assms(1,2)]
  obtain hs where hs: "new_handshake L (ln_handshake ln) (kp_pub ls) = Some hs"
    "act_one_initiator_prep L (ln\<lparr>ln_handshake := hs\<lparr>hs_side := INITIATOR, hs_their_id := kp_pub ls\<rparr>\<rparr>) rnd m = Some (True, rnd', ln1, m1)"
    using assms(4) by (auto simp: initiate_def split: bind_splits)
  have "\<not> is_zero (kp_pub (ln_key ln) @ kp_priv (ln_key ln))" using assms(3) by (auto simp: is_zero_iff)
  with hs id show ?thesis by (simp add: lnsocket_act_one_def Let_def)
qed

section \<open>Refused connections\<close>

text \<open>A failure that left only a message: nothing was read, sent or drawn, the keys are the same.\<close>

definition refused :: "bytes list \<Rightarrow> os_call list \<Rightarrow> lnsocket \<Rightarrow> net \<Rightarrow> mem \<Rightarrow> (bool \<times> bytes list \<times> os_call list) io \<Rightarrow> bool" where
  "refused rnd tr ln net m r \<longleftrightarrow> (\<exists>errs m'. r = Some ((False, rnd, tr), ln\<lparr>ln_errs := errs\<rparr>, net, m') \<and>
     stays ln m (ln\<lparr>ln_errs := errs\<rparr>) m')"

lemma fail_refused:
  assumes "ln_wf ln" "length msg \<le> 256" "line < 10 ^ 9"
  shows "refused rnd tr ln net m (ln_fail (False, rnd, tr) ln (''lnsocket_connect_with'', ''lnsocket.c'', line) msg net m)"
proof -
  obtain errs m' where "ln_fail (False, rnd, tr) ln (''lnsocket_connect_with'', ''lnsocket.c'', line) msg net m =
      Some ((False, rnd, tr), ln\<lparr>ln_errs := errs\<rparr>, net, m')" "stays ln m (ln\<lparr>ln_errs := errs\<rparr>) m'"
    by (rule ln_fail_total [OF assms(1) _ assms(3)]) (use assms(2) in auto)
  then show ?thesis by (auto simp: refused_def)
qed

lemma connect_bad_input:
  assumes "ln_wf ln" "\<not> input_good L ln node_id"
  shows "refused rnd [] ln net m (lnsocket_connect_with L os hdr0 ln node_id host tor_proxy timeout_ms rnd net m)"
  using assms(2) fail_refused [OF assms(1)]
  by (auto simp: lnsocket_connect_with_def Let_def input_good_def case_prod_beta)

text \<open>A descriptor outside the set is written to memory outside the set.\<close>

lemma connect_bad_descriptor:
  assumes "input_good L ln node_id" "\<not> (0 \<le> os_socket os \<and> os_socket os < 1024)"
  shows "lnsocket_connect_with L os hdr0 ln node_id host tor_proxy timeout_ms rnd net m = None"
proof -
  have "os_socket os \<noteq> 0" using assms(2) by auto
  then show ?thesis using assms
    by (auto simp: lnsocket_connect_with_def Let_def input_good_def c_assert_def case_prod_beta)
qed

lemma connect_os_refuses:
  assumes "ln_wf ln" "input_good L ln node_id" "\<not> os_connects os host tor_proxy"
    and "0 \<le> os_socket os" "os_socket os < 1024" "\<And>e. length (os_gai_strerror os e) \<le> 256"
  shows "\<exists>tr. refused rnd (Socket_call # tr) (ln\<lparr>ln_socket := os_socket os\<rparr>) net m
    (lnsocket_connect_with L os hdr0 ln node_id host tor_proxy timeout_ms rnd net m)"
proof -
  have wf: "ln_wf (ln\<lparr>ln_socket := s\<rparr>)" for s using assms(1) by (simp add: ln_wf_def)
  have f: "\<exists>tr. refused rnd (Socket_call # tr) (ln\<lparr>ln_socket := s\<rparr>) net m
      (ln_fail (False, rnd, Socket_call # calls) (ln\<lparr>ln_socket := s\<rparr>) (''lnsocket_connect_with'', ''lnsocket.c'', line) msg net m)"
    if "length msg \<le> 256" "line < 10 ^ 9" for s calls line msg
    using fail_refused [OF wf that] by blast
  obtain id' their_id where good: "\<not> is_zero (kp_pub (ln_key ln) @ kp_priv (ln_key ln))"
      "parse_node_id node_id = (True, id')" "pubkey_from_node_id L id' = (True, their_id)"
    using assms(2) by (cases "parse_node_id node_id"; cases "pubkey_from_node_id L (snd (parse_node_id node_id))")
      (auto simp: input_good_def)
  obtain h p where hp: "parse_port host = (h, p)" by force
  obtain ret addrs where ga: "os_addrinfo os h (case p of Some p \<Rightarrow> p | None \<Rightarrow> ascii ''9735'') = (ret, addrs)" by force
  note defs = lnsocket_connect_with_def Let_def c_assert_def io_fd_block_eq good hp ga assms(4,5)
  consider "os_socket os = 0"
    | "os_socket os \<noteq> 0" "fst (os_flags os) = - 1 \<or> fst (os_setfl os) = - 1"
    | "os_socket os \<noteq> 0" "fst (os_flags os) \<noteq> - 1" "fst (os_setfl os) \<noteq> - 1" "tor_proxy = None" "ret \<noteq> 0 \<or> \<not> addrs"
    | proxy where "os_socket os \<noteq> 0" "fst (os_flags os) \<noteq> - 1" "fst (os_setfl os) \<noteq> - 1" "tor_proxy = Some proxy" "os_connect os = 0"
    | "os_socket os \<noteq> 0" "fst (os_flags os) \<noteq> - 1" "fst (os_setfl os) \<noteq> - 1" "tor_proxy = None" "ret = 0" "addrs"
        "snd (os_flags os) = - 1 \<or> snd (os_setfl os) = - 1 \<or> os_select os = - 1 \<or> os_select os = 0"
    | proxy where "os_socket os \<noteq> 0" "fst (os_flags os) \<noteq> - 1" "fst (os_setfl os) \<noteq> - 1" "tor_proxy = Some proxy" "os_connect os \<noteq> 0"
        "snd (os_flags os) = - 1 \<or> snd (os_setfl os) = - 1 \<or> os_select os = - 1 \<or> os_select os = 0"
    using assms(3) hp ga by (cases tor_proxy) (auto simp: os_connects_def peer_address_def)
  then show ?thesis
  proof cases
    case 1
    then show ?thesis by (simp add: defs f)
  next
    case 2
    then show ?thesis by (cases "fst (os_flags os) = - 1") (simp_all add: defs f)
  next
    case 3
    then show ?thesis by (simp add: defs f assms(6))
  next
    case 4
    then show ?thesis by (cases "parse_port proxy") (simp add: defs f)
  next
    case 5
    then show ?thesis
      by (cases "snd (os_flags os) = - 1"; cases "snd (os_setfl os) = - 1"; cases "os_select os = - 1") (simp_all add: defs f)
  next
    case 6
    then show ?thesis
      by (cases "parse_port proxy"; cases "snd (os_flags os) = - 1"; cases "snd (os_setfl os) = - 1"; cases "os_select os = - 1")
        (simp_all add: defs f)
  qed
qed

section \<open>A proxy that answers\<close>

definition socks_request :: "bytes \<Rightarrow> bytes \<Rightarrow> bytes" where
  "socks_request host port = [5, 1, 0, 3, of_nat (length host)] @ host @ be_bytes 2 (of_int (atoi port) :: u16)"

lemma port_bytes_eq: "port_bytes bo port = be_bytes 2 (of_int (atoi port) :: u16)"
  by (simp add: port_bytes_def bytes_simps)

lemma tor_handshake_answered:
  assumes "ln_wf ln" "n_out net = []" "n_in net = Data (ver # meth # early) # es" "meth \<noteq> 0xff"
    and "early @ stream es = reply @ rest" "length reply = 10"
  shows "\<exists>errs net' m'. lnsocket_handshake_with_tor bo hdr0 ln host port net m =
      Some (reply ! 1 = 0 \<and> reply ! 3 = 1, ln\<lparr>ln_errs := errs\<rparr>, net', m') \<and>
    stays ln m (ln\<lparr>ln_errs := errs\<rparr>) m' \<and> (reply ! 1 = 0 \<and> reply ! 3 = 1 \<longrightarrow> errs = ln_errs ln \<and> m' = m) \<and>
    n_sent net' = n_sent net @ [5, 1, 0] @ socks_request host port \<and> stream (n_in net') = rest \<and> n_out net' = []"
proof -
  define net2 where "net2 = net\<lparr>n_sent := n_sent net @ [5, 1, 0] @ socks_request host port,
    n_in := (if early = [] then es else Data early # es)\<rparr>"
  have "stream (n_in net2) = reply @ rest" "n_out net2 = []" using assms(2,5) by (auto simp: net2_def)
  moreover obtain ok bs net3 where r: "read_all net2 10 = (ok, bs, net3)" by (rule prod_cases3)
  ultimately have r3: "ok" "bs = reply" "stream (n_in net3) = rest" "n_sent net3 = n_sent net2" "n_out net3 = []"
    using read_all_stream [OF r] assms(6) by simp_all
  have r': "read_all net2 (SIZE_OF_IPV4_RESPONSE + SIZE_OF_RESPONSE) = (True, reply, net3)"
    using r r3 by (simp add: SIZE_OF_IPV4_RESPONSE_def SIZE_OF_RESPONSE_def)
  have buf: "[SOCKS_V5, SOCKS_CONNECT, 0, SOCKS_DOMAIN, of_nat (length host)] @ host @ port_bytes bo port = socks_request host port"
    by (simp add: socks_request_def port_bytes_eq SOCKS_V5_def SOCKS_CONNECT_def SOCKS_DOMAIN_def)
  have f: "\<exists>errs m'. ln_fail False ln (''lnsocket_handshake_with_tor'', ''lnsocket.c'', line) msg net3 m =
        Some (False, ln\<lparr>ln_errs := errs\<rparr>, net3, m') \<and> stays ln m (ln\<lparr>ln_errs := errs\<rparr>) m'"
    if "length msg \<le> 256" "line < 10 ^ 9" for line msg
    by (rule ln_fail_total [OF assms(1) _ that(2)]) (use that(1) in auto)
  have "unat (reply ! 1) < 2 ^ LENGTH(8)" by (rule unsigned_less)
  then have e: "length (dec_nat (unat (reply ! 1))) \<le> 3" by (intro length_dec_nat) simp_all
  have w: "os_write net [SOCKS_V5, 1, SOCKS_NOAUTH] = (3, net\<lparr>n_sent := n_sent net @ [5, 1, 0]\<rparr>)"
    using assms(2) by (simp add: os_write_def SOCKS_V5_def SOCKS_NOAUTH_def)
  have h: "os_read (net\<lparr>n_sent := n_sent net @ [5, 1, 0]\<rparr>) 2 =
      (Data [ver, meth], net\<lparr>n_sent := n_sent net @ [5, 1, 0], n_in := (if early = [] then es else Data early # es)\<rparr>)"
    using assms(3) by (simp add: os_read_def)
  have w2: "os_write (net\<lparr>n_sent := n_sent net @ [5, 1, 0], n_in := (if early = [] then es else Data early # es)\<rparr>)
      (socks_request host port) = (int (length (socks_request host port)), net2)"
    using assms(2) by (simp add: os_write_def net2_def)
  have "\<exists>errs m'. lnsocket_handshake_with_tor bo hdr0 ln host port net m =
      Some (reply ! 1 = 0 \<and> reply ! 3 = 1, ln\<lparr>ln_errs := errs\<rparr>, net3, m') \<and> stays ln m (ln\<lparr>ln_errs := errs\<rparr>) m' \<and>
      (reply ! 1 = 0 \<and> reply ! 3 = 1 \<longrightarrow> errs = ln_errs ln \<and> m' = m)"
    unfolding lnsocket_handshake_with_tor_def Let_def buf
    using assms(2,3,4) r' f e assms(1)
    by (auto simp: w h w2 SOCKS_ERROR_def SOCKS_TYP_IPV4_def SOCKS_TYP_IPV6_def patch_def simp del: ascii_simps intro!: exI [of _ "ln_errs ln"])
  then show ?thesis using r3(3-5) by (auto simp: net2_def)
qed

text \<open>The calls of a connection through a proxy.\<close>

definition proxy_calls :: "byte_order \<Rightarrow> os \<Rightarrow> bytes \<Rightarrow> int \<Rightarrow> os_call list" where
  "proxy_calls bo os tor_proxy timeout_ms = [Socket_call, Setfl_call (fst (os_flags os) OR os_nonblock os),
     (case parse_port tor_proxy of (h, p) \<Rightarrow>
        Connect_proxy_call h (port_bytes bo (case p of Some p \<Rightarrow> p | None \<Rightarrow> ascii ''9050''))),
     Setfl_call (snd (os_flags os) AND NOT (os_nonblock os)),
     Select_call (timeout_ms div 1000) ((timeout_ms mod 1000) * 1000)]"

lemma connect_proxy:
  assumes "input_good L ln node_id" "os_connects os host (Some tor_proxy)" "0 < os_socket os" "os_socket os < 1024"
    and "pubkey_from_node_id L (snd (parse_node_id node_id)) = (True, their_id)" "peer_address host = (h, p)"
  shows "lnsocket_connect_with L os hdr0 ln node_id host (Some tor_proxy) timeout_ms rnd net m = do {
     (ok, ln, net, m) \<leftarrow> lnsocket_handshake_with_tor (lib_order L) hdr0 (ln\<lparr>ln_socket := os_socket os\<rparr>) h p net m;
     let tr = proxy_calls (lib_order L) os tor_proxy timeout_ms;
     if \<not> ok then ln_fail (False, rnd, tr) ln (''lnsocket_connect_with'', ''lnsocket.c'', 738)
       (ascii ''failed handshake with tor proxy'') net m
     else do {
       ((ok, rnd), ln, net, m) \<leftarrow> begin_handshake L ln their_id rnd net m;
       Some ((ok, rnd, tr), ln, net, m) } }"
proof -
  obtain id' where id': "parse_node_id node_id = (True, id')" "pubkey_from_node_id L id' = (True, their_id)"
    using assms(1,5) by (cases "parse_node_id node_id") (simp add: input_good_def)
  obtain q where hp: "parse_port host = (h, q)" "p = (case q of Some p \<Rightarrow> p | None \<Rightarrow> ascii ''9735'')"
    using assms(6) by (auto simp: peer_address_def split: prod.splits)
  obtain ph pq where "parse_port tor_proxy = (ph, pq)" by force
  then show ?thesis using assms(1-4) id' hp
    by (cases pq; cases "lnsocket_handshake_with_tor (lib_order L) hdr0 (ln\<lparr>ln_socket := os_socket os\<rparr>) h p net m")
      (auto simp: lnsocket_connect_with_def Let_def input_good_def os_connects_def c_assert_def io_fd_block_eq proxy_calls_def
        simp del: ascii_simps)
qed

text \<open>A node with these answers of the system reaches the peer; used in the witnesses.\<close>

definition example_os :: os where
  "example_os = \<lparr>os_socket = 3, os_flags = (2, 2050), os_setfl = (0, 0), os_connect = - 1, os_addrinfo = (\<lambda>_ _. (0, True)),
     os_gai_strerror = (\<lambda>_. []), os_select = 1, os_nonblock = 2048\<rparr>"

section \<open>Properties\<close>

text \<open>C5: Connecting to a node: given the hexadecimal public key of a peer that follows the specification,
  and a system that resolves its address and connects, \<open>lnsocket_connect\<close> makes the calls of a
  non-blocking connection with a timeout of 3 seconds, in order and with port 9735 where none is
  given, sends Act One and Act Three and nothing else, and leaves the connection with the peer's
  keys crosswise and nonces 0; all that follows Act Two is left on the wire.\<close>

theorem connect_reaches_peer:
  assumes "aead_ok L" "secp_ok L"
    and "pubkey_create L (kp_priv ls) = (True, kp_pub ls)"
    and "pubkey_create L (kp_priv re) = (True, kp_pub re)"
    and "pubkey_create L (kp_priv (ln_key ln)) = (True, kp_pub (ln_key ln))"
    and "generate_key L rnd = Some (e, rnd')" "act_two_shape (ln_handshake ln)" "\<exists>b \<in> set (kp_priv (ln_key ln)). b \<noteq> 0"
    and "os_connects os host None" "0 < os_socket os" "os_socket os < 1024"
  shows "\<exists>act1 st1 msg2 st2 act3 rk sk ck.
    responder_act_one L (kp_priv ls) (bolt8_start (pubkey_serialize L (kp_pub ls))) act1 = Some st1 \<and>
    responder_act_two L re st1 = (msg2, st2) \<and>
    responder_act_three L re st2 act3 = Some (kp_pub (ln_key ln), rk, sk, ck) \<and>
    (\<forall>net es. n_out net = [] \<longrightarrow> n_in net = Data msg2 # es \<longrightarrow>
      (\<exists>ln'. lnsocket_connect L os hdr0 ln (hex_encode (pubkey_serialize L (kp_pub ls))) host rnd net m =
          Some ((True, rnd', direct_calls os host 3000), ln', net\<lparr>n_in := es, n_sent := n_sent net @ act1 @ act3\<rparr>, m) \<and>
        ln_socket ln' = os_socket os \<and> ln_key ln' = ln_key ln \<and>
        ln_crypto_state ln' = \<lparr>cs_rn = 0, cs_sn = 0, cs_sk = rk, cs_rk = sk, cs_s_ck = ck, cs_r_ck = ck\<rparr>))"
proof -
  let ?ln = "ln\<lparr>ln_socket := os_socket os\<rparr>" and ?id = "hex_encode (pubkey_serialize L (kp_pub ls))"
  obtain act1 st1 msg2 st2 act3 rk sk ck where
    peer: "responder_act_one L (kp_priv ls) (bolt8_start (pubkey_serialize L (kp_pub ls))) act1 = Some st1"
      "responder_act_two L re st1 = (msg2, st2)" "responder_act_three L re st2 act3 = Some (kp_pub (ln_key ln), rk, sk, ck)"
    and good: "\<And>net es. n_in net = Data msg2 # es \<and> n_out net = [] \<Longrightarrow>
      \<exists>ln'. begin_handshake L ?ln (kp_pub ls) rnd net m =
        Some ((True, rnd'), ln', net\<lparr>n_in := es, n_sent := n_sent net @ act1 @ act3\<rparr>, m) \<and> ln_same ?ln ln' \<and>
        ln_crypto_state ln' = \<lparr>cs_rn = 0, cs_sn = 0, cs_sk = rk, cs_rk = sk, cs_s_ck = ck, cs_r_ck = ck\<rparr>"
    using handshake_over_socket [of L ls re ?ln rnd e rnd' m] assms(1-7) by auto
  note connect_begins [OF assms(2,3,8-11), of hdr0 rnd _ m]
  then have "\<exists>ln'. lnsocket_connect L os hdr0 ln ?id host rnd net m =
          Some ((True, rnd', direct_calls os host 3000), ln', net\<lparr>n_in := es, n_sent := n_sent net @ act1 @ act3\<rparr>, m) \<and>
        ln_socket ln' = os_socket os \<and> ln_key ln' = ln_key ln \<and>
        ln_crypto_state ln' = \<lparr>cs_rn = 0, cs_sn = 0, cs_sk = rk, cs_rk = sk, cs_s_ck = ck, cs_r_ck = ck\<rparr>"
    if "n_out net = []" "n_in net = Data msg2 # es" for net es
    using good [of net es] that by (auto simp: ln_same_def)
  then show ?thesis using peer by blast
qed

theorem connect_reaches_peer_witness:
  "\<exists>act1 st1 msg2 st2 act3 rk sk ck.
    responder_act_one example_lib (kp_priv (example_pair 2))
      (bolt8_start (pubkey_serialize example_lib (kp_pub (example_pair 2)))) act1 = Some st1 \<and>
    responder_act_two example_lib (example_pair 3) st1 = (msg2, st2) \<and>
    responder_act_three example_lib (example_pair 3) st2 act3 = Some (kp_pub (ln_key example_ln), rk, sk, ck) \<and>
    (\<forall>net es. n_out net = [] \<longrightarrow> n_in net = Data msg2 # es \<longrightarrow>
      (\<exists>ln'. lnsocket_connect example_lib example_os [0, 0] example_ln
            (hex_encode (pubkey_serialize example_lib (kp_pub (example_pair 2)))) (ascii ''node.example:9736'')
            [replicate 32 4] net (\<lambda>_. 0) =
          Some ((True, [], direct_calls example_os (ascii ''node.example:9736'') 3000), ln',
            net\<lparr>n_in := es, n_sent := n_sent net @ act1 @ act3\<rparr>, \<lambda>_. 0) \<and>
        ln_socket ln' = os_socket example_os \<and> ln_key ln' = ln_key example_ln \<and>
        ln_crypto_state ln' = \<lparr>cs_rn = 0, cs_sn = 0, cs_sk = rk, cs_rk = sk, cs_s_ck = ck, cs_r_ck = ck\<rparr>))"
proof (rule connect_reaches_peer [OF example_lib_ok])
  show "pubkey_create example_lib (kp_priv (example_pair 2)) = (True, kp_pub (example_pair 2))"
    and "pubkey_create example_lib (kp_priv (example_pair 3)) = (True, kp_pub (example_pair 3))"
    by (rule example_pair_valid, simp)+
  show "pubkey_create example_lib (kp_priv (ln_key example_ln)) = (True, kp_pub (ln_key example_ln))"
    using example_pair_valid [of 1] by (simp add: example_ln_def)
  show "generate_key example_lib [replicate 32 4] = Some (example_pair 4, [])"
    using example_pair_valid [of 4] by (simp add: example_pair_def)
  show "act_two_shape (ln_handshake example_ln)"
    by (simp add: act_two_shape_def example_ln_def example_handshake_def)
  show "\<exists>b \<in> set (kp_priv (ln_key example_ln)). b \<noteq> 0" by (simp add: example_ln_def example_pair_def)
qed (simp_all add: example_os_def os_connects_def peer_address_def case_prod_beta)

text \<open>C17: Connecting through a Tor proxy that accepts the first offer, in a stream cut at will after it:
  \<open>lnsocket_connect_tor\<close> sends the greeting and the request for the host and port of the node, byte
  for byte the SOCKS5 messages, and reads exactly the 10 bytes of the reply. When the reply reports
  success with an IPv4 address, the handshake with the node follows on the rest of the stream, with
  the connection otherwise as it was; for every other reply the connection is refused, and nothing
  more is sent or read.\<close>

theorem connect_through_proxy:
  assumes "ln_wf ln" "input_good L ln node_id" "os_connects os host (Some tor_proxy)" "0 < os_socket os" "os_socket os < 1024"
    and "pubkey_from_node_id L (snd (parse_node_id node_id)) = (True, their_id)" "peer_address host = (h, p)"
    and "n_out net = []" "n_in net = Data (ver # meth # early) # es" "meth \<noteq> 0xff"
    and "early @ stream es = reply @ rest" "length reply = 10"
  shows "\<exists>net'. n_sent net' = n_sent net @ [5, 1, 0] @ [5, 1, 0, 3, of_nat (length h)] @ h @ be_bytes 2 (of_int (atoi p) :: u16) \<and>
    stream (n_in net') = rest \<and>
    (if reply ! 1 = 0 \<and> reply ! 3 = 1
     then lnsocket_connect_tor L os hdr0 ln node_id host (Some tor_proxy) rnd net m =
       map_option (map_prod (\<lambda>(ok, rnd). (ok, rnd, proxy_calls (lib_order L) os tor_proxy 10000)) id)
         (begin_handshake L (ln\<lparr>ln_socket := os_socket os\<rparr>) their_id rnd net' m)
     else \<exists>ln' m'. lnsocket_connect_tor L os hdr0 ln node_id host (Some tor_proxy) rnd net m =
         Some ((False, rnd, proxy_calls (lib_order L) os tor_proxy 10000), ln', net', m') \<and>
       ln_wf ln' \<and> ln_crypto_state ln' = ln_crypto_state ln)"
proof -
  let ?ln = "ln\<lparr>ln_socket := os_socket os\<rparr>" and ?tr = "proxy_calls (lib_order L) os tor_proxy 10000"
  have wf: "ln_wf ?ln" using assms(1) by (simp add: ln_wf_def)
  obtain errs net' m' where t: "lnsocket_handshake_with_tor (lib_order L) hdr0 ?ln h p net m =
        Some (reply ! 1 = 0 \<and> reply ! 3 = 1, ?ln\<lparr>ln_errs := errs\<rparr>, net', m')"
      "stays ?ln m (?ln\<lparr>ln_errs := errs\<rparr>) m'" "reply ! 1 = 0 \<and> reply ! 3 = 1 \<longrightarrow> errs = ln_errs ?ln \<and> m' = m"
      "n_sent net' = n_sent net @ [5, 1, 0] @ socks_request h p" "stream (n_in net') = rest"
    using tor_handshake_answered [OF wf assms(8-12)] by blast
  note c = connect_proxy [OF assms(2-7), where timeout_ms = 10000]
  have out: "lnsocket_connect_tor L os hdr0 ln node_id host (Some tor_proxy) rnd net m =
    (if reply ! 1 = 0 \<and> reply ! 3 = 1
     then map_option (map_prod (\<lambda>(ok, rnd). (ok, rnd, ?tr)) id) (begin_handshake L ?ln their_id rnd net' m)
     else ln_fail (False, rnd, ?tr) (?ln\<lparr>ln_errs := errs\<rparr>) (''lnsocket_connect_with'', ''lnsocket.c'', 738)
       (ascii ''failed handshake with tor proxy'') net' m')"
    using t(1,3) unfolding lnsocket_connect_tor_def DEFAULT_TOR_TIMEOUT_def c
    by (cases "begin_handshake L ?ln their_id rnd net' m") (auto simp: Let_def simp del: ascii_simps)
  have wf': "ln_wf (?ln\<lparr>ln_errs := errs\<rparr>)" using stays_wf [OF t(2)] .
  obtain errs2 m2 where "ln_fail (False, rnd, ?tr) (?ln\<lparr>ln_errs := errs\<rparr>) (''lnsocket_connect_with'', ''lnsocket.c'', 738)
        (ascii ''failed handshake with tor proxy'') net' m' =
      Some ((False, rnd, ?tr), ?ln\<lparr>ln_errs := errs, ln_errs := errs2\<rparr>, net', m2)"
      "stays (?ln\<lparr>ln_errs := errs\<rparr>) m' (?ln\<lparr>ln_errs := errs, ln_errs := errs2\<rparr>) m2"
    by (rule ln_fail_total [OF wf', of _ _ _ 738]) auto
  then show ?thesis using t(4,5) out stays_wf by (fastforce simp: socks_request_def)
qed

lemma example_input_good:
  "input_good example_lib example_ln (hex_encode (pubkey_serialize example_lib (kp_pub (example_pair 2))))"
  "pubkey_from_node_id example_lib (snd (parse_node_id (hex_encode (pubkey_serialize example_lib (kp_pub (example_pair 2)))))) =
    (True, kp_pub (example_pair 2))"
proof -
  let ?b = "pubkey_serialize example_lib (kp_pub (example_pair 2))"
  have "parse_node_id (hex_encode ?b) = (True, ?b)"
    using hex_decode_encode [of ?b] example_lib_ok(2) by (simp add: parse_node_id_def secp_ok_def)
  moreover have "pubkey_from_node_id example_lib ?b = (True, kp_pub (example_pair 2))"
    by (simp add: pubkey_from_node_id_def example_lib_def example_pair_def aead.defs lib.defs)
  ultimately show "input_good example_lib example_ln (hex_encode ?b)"
    "pubkey_from_node_id example_lib (snd (parse_node_id (hex_encode ?b))) = (True, kp_pub (example_pair 2))"
    by (simp_all add: input_good_def is_zero_iff example_ln_def example_pair_def)
qed

theorem connect_through_proxy_witness:
  "\<exists>net'. n_sent net' = n_sent example_net @ [5, 1, 0] @ [5, 1, 0, 3, of_nat (length (ascii ''x.onion''))] @ ascii ''x.onion'' @
      be_bytes 2 (of_int (atoi (ascii ''9735'')) :: u16) \<and>
    stream (n_in net') = [7] \<and>
    (if [5, 4, 0, 1, 0, 0, 0, 0, 0, 0] ! 1 = (0 :: u8) \<and> [5, 4, 0, 1, 0, 0, 0, 0, 0, 0] ! 3 = (1 :: u8)
     then lnsocket_connect_tor example_lib example_os [0, 0] example_ln
         (hex_encode (pubkey_serialize example_lib (kp_pub (example_pair 2)))) (ascii ''x.onion'') (Some (ascii ''127.0.0.1'')) []
         (example_net\<lparr>n_in := [Data [5, 0, 5, 4], Data [0, 1, 0, 0], Interrupted, Data [0, 0, 0, 0, 7]]\<rparr>) (\<lambda>_. 0) =
       map_option (map_prod (\<lambda>(ok, rnd). (ok, rnd, proxy_calls (lib_order example_lib) example_os (ascii ''127.0.0.1'') 10000)) id)
         (begin_handshake example_lib (example_ln\<lparr>ln_socket := os_socket example_os\<rparr>) (kp_pub (example_pair 2)) [] net' (\<lambda>_. 0))
     else \<exists>ln' m'. lnsocket_connect_tor example_lib example_os [0, 0] example_ln
         (hex_encode (pubkey_serialize example_lib (kp_pub (example_pair 2)))) (ascii ''x.onion'') (Some (ascii ''127.0.0.1'')) []
         (example_net\<lparr>n_in := [Data [5, 0, 5, 4], Data [0, 1, 0, 0], Interrupted, Data [0, 0, 0, 0, 7]]\<rparr>) (\<lambda>_. 0) =
         Some ((False, [], proxy_calls (lib_order example_lib) example_os (ascii ''127.0.0.1'') 10000), ln', net', m') \<and>
       ln_wf ln' \<and> ln_crypto_state ln' = ln_crypto_state example_ln)"
proof -
  let ?net = "example_net\<lparr>n_in := [Data [5, 0, 5, 4], Data [0, 1, 0, 0], Interrupted, Data [0, 0, 0, 0, 7]]\<rparr>"
  have a: "peer_address (ascii ''x.onion'') = (ascii ''x.onion'', ascii ''9735'')" by (simp add: peer_address_def)
  have os: "os_connects example_os (ascii ''x.onion'') (Some (ascii ''127.0.0.1''))" "0 < os_socket example_os" "os_socket example_os < 1024"
    by (simp_all add: example_os_def os_connects_def)
  have s: "n_sent example_net = n_sent ?net" by simp
  show ?thesis unfolding s
    by (rule connect_through_proxy [OF example_ln_wf example_input_good(1) os example_input_good(2) a,
          where ver = 5 and meth = 0 and early = "[5, 4]" and es = "[Data [0, 1, 0, 0], Interrupted, Data [0, 0, 0, 0, 7]]"])
      (simp_all add: example_net_def)
qed



text \<open>
  The two acts on their own, as the JavaScript build calls them: from the hexadecimal key of a node
  to the keys, whatever memory holds when they are called.
\<close>

lemma act_three_any_memory:
  assumes "build_act_three L ln m = Some (Some act3, ln', m1)"
  shows "build_act_three L ln m' = Some (Some act3, ln', m')"
  using assms by (auto simp: build_act_three_def Let_def case_prod_beta bind_eq_Some_conv split: if_splits)

lemma act_two_any_memory:
  assumes "lnsocket_act_two L ln act2 m = Some (Some act3, ln', m1)"
  shows "lnsocket_act_two L ln act2 m' = Some (Some act3, ln', m')"
  using assms
  by (auto simp: lnsocket_act_two_def Let_def case_prod_beta bind_eq_Some_conv split: if_splits)
    (rule exI, rule conjI, rule exI, rule refl, intro impI conjI, rule refl, erule act_three_any_memory)

lemma handshake_without_socket:
  assumes "aead_ok L" "secp_ok L"
    and "pubkey_create L (kp_priv ls) = (True, kp_pub ls)"
    and "pubkey_create L (kp_priv re) = (True, kp_pub re)"
    and "pubkey_create L (kp_priv (ln_key ln)) = (True, kp_pub (ln_key ln))"
    and "generate_key L rnd = Some (e, rnd')" "\<exists>b \<in> set (kp_priv (ln_key ln)). b \<noteq> 0"
  obtains act1 ln1 st1 msg2 st2 act3 rk sk ck where
    "lnsocket_act_one L ln (hex_encode (pubkey_serialize L (kp_pub ls))) rnd net m = Some ((Some act1, rnd'), ln1, net, m)"
    "responder_act_one L (kp_priv ls) (bolt8_start (pubkey_serialize L (kp_pub ls))) (act_one_bytes act1) = Some st1"
    "responder_act_two L re st1 = (msg2, st2)" "length msg2 = ACT_TWO_SIZE"
    "responder_act_three L re st2 (act_three_bytes act3) = Some (kp_pub (ln_key ln), rk, sk, ck)"
    "\<And>m. \<exists>ln2. lnsocket_act_two L ln1 (act_two_of_bytes msg2) m = Some (Some act3, ln2, m) \<and> ln_same ln ln2 \<and>
      ln_crypto_state ln2 = \<lparr>cs_rn = 0, cs_sn = 0, cs_sk = rk, cs_rk = sk, cs_s_ck = ck, cs_r_ck = ck\<rparr>"
proof -
  obtain ln1 st1 msg2 st2 act3 rk sk ck where
    h: "initiate L ln (kp_pub ls) rnd m = Some (True, rnd', ln1, m)"
      "responder_act_one L (kp_priv ls) (bolt8_start (pubkey_serialize L (kp_pub ls))) (act_one_bytes (hs_act1 (ln_handshake ln1))) = Some st1"
      "responder_act_two L re st1 = (msg2, st2)" "length msg2 = ACT_TWO_SIZE"
      "responder_act_three L re st2 (act_three_bytes act3) = Some (kp_pub (ln_key ln), rk, sk, ck)"
    and act2: "\<And>act2. \<exists>ln2. lnsocket_act_two L (ln1\<lparr>ln_handshake := (ln_handshake ln1)\<lparr>hs_act2 := act2\<rparr>\<rparr>) (act_two_of_bytes msg2) m =
        Some (Some act3, ln2, m) \<and> ln_same ln ln2 \<and>
      ln_crypto_state ln2 = \<lparr>cs_rn = 0, cs_sn = 0, cs_sk = rk, cs_rk = sk, cs_s_ck = ck, cs_r_ck = ck\<rparr>"
    using handshake_agrees [OF assms(1-6), of m] by blast
  from act2 [of "hs_act2 (ln_handshake ln1)"] obtain ln2 where
    ln2: "lnsocket_act_two L ln1 (act_two_of_bytes msg2) m = Some (Some act3, ln2, m)" "ln_same ln ln2"
    "ln_crypto_state ln2 = \<lparr>cs_rn = 0, cs_sn = 0, cs_sk = rk, cs_rk = sk, cs_s_ck = ck, cs_r_ck = ck\<rparr>" by auto
  from that [OF act_one_initiates [OF assms(2,3,7) h(1)] h(2-5)] act_two_any_memory [OF ln2(1)] ln2(2,3)
  show thesis by blast
qed

end
