(* ===== verification/Api.thy ===== *)
theory Api
  imports Connect
begin

text \<open>
  The whole API of a connection as a transition system: the calls of \<open>lnsocket.h\<close> and
  \<open>lnsocket_wasm.c\<close> that use a connection, from its creation on, in any order and with any
  arguments, with what the peer, the kernel and the rest of the program do in between. It is shown
  which calls crash, that all others return, and what stays as it was created.
\<close>

section \<open>What calls keep\<close>

text \<open>
  The state between calls. The arrays of the handshake have their sizes, and \<open>side\<close> is never set to
  the responder.
\<close>

definition hs_ok :: "handshake \<Rightarrow> bool" where
  "hs_ok hs \<longleftrightarrow> length (hs_h hs) = 32 \<and> length (hs_ck hs) = 32 \<and> act_two_shape hs \<and> hs_side hs = INITIATOR"

definition api_ok :: "lnsocket \<Rightarrow> net \<Rightarrow> bool" where
  "api_ok ln net \<longleftrightarrow> conn_ok ln net \<and> hs_ok (ln_handshake ln)"

definition kept :: "lnsocket \<Rightarrow> mem \<Rightarrow> lnsocket \<Rightarrow> mem \<Rightarrow> bool" where
  "kept ln m ln' m' \<longleftrightarrow> ln_wf ln' \<and> ln_mem ln' = ln_mem ln \<and> c_start (ln_msgbuf ln') = c_start (ln_msgbuf ln) \<and>
     (\<forall>a. \<not> arena_has ln a \<longrightarrow> m' a = m a)"

text \<open>A call is fine when it returns, and then with the state in order.\<close>

definition fine :: "lnsocket \<Rightarrow> mem \<Rightarrow> 'r io \<Rightarrow> bool" where
  "fine ln m r \<longleftrightarrow> (\<exists>x ln' net' m'. r = Some (x, ln', net', m') \<and> kept ln m ln' m' \<and> api_ok ln' net')"

lemma arena_has_cong: "c_start (ln_msgbuf ln') = c_start (ln_msgbuf ln) \<Longrightarrow> arena_has ln' = arena_has ln"
  by (simp add: arena_has_def fun_eq_iff)

lemma kept_refl [simp]: "ln_wf ln \<Longrightarrow> kept ln m ln m"
  by (simp add: kept_def)

lemma kept_trans: "kept ln m ln' m' \<Longrightarrow> kept ln' m' ln'' m'' \<Longrightarrow> kept ln m ln'' m''"
  using arena_has_cong [of ln' ln] by (simp add: kept_def)

lemma kept_handshake [simp]: "kept ln m (ln'\<lparr>ln_handshake := hs\<rparr>) m' \<longleftrightarrow> kept ln m ln' m'"
  by (simp add: kept_def ln_wf_def)

lemma kept_crypto [simp]: "kept ln m (ln'\<lparr>ln_crypto_state := cs\<rparr>) m' \<longleftrightarrow> kept ln m ln' m'"
  by (simp add: kept_def ln_wf_def)

lemma kept_socket [simp]: "kept ln m (ln'\<lparr>ln_socket := s\<rparr>) m' \<longleftrightarrow> kept ln m ln' m'"
  by (simp add: kept_def ln_wf_def)

lemma stays_kept: "stays ln m ln' m' \<Longrightarrow> kept ln m ln' m'"
  by (auto simp: stays_def kept_def arena_has_def not_le not_less)

lemma kept_wf: "kept ln m ln' m' \<Longrightarrow> ln_wf ln'"
  by (simp add: kept_def)

lemma fine_return: "kept ln m ln' m' \<Longrightarrow> api_ok ln' net' \<Longrightarrow> fine ln m (Some (x, ln', net', m'))"
  by (simp add: fine_def)

lemma fine_from: "fine ln' m' r \<Longrightarrow> kept ln m ln' m' \<Longrightarrow> fine ln m r"
  unfolding fine_def using kept_trans by blast

lemma fine_bind:
  assumes "fine ln m r"
    and "\<And>x ln' net' m'. r = Some (x, ln', net', m') \<Longrightarrow> kept ln m ln' m' \<Longrightarrow> api_ok ln' net' \<Longrightarrow> fine ln' m' (f x ln' net' m')"
  shows "fine ln m (r \<bind> (\<lambda>(x, ln', net', m'). f x ln' net' m'))"
proof -
  obtain x ln' net' m' where r: "r = Some (x, ln', net', m')" "kept ln m ln' m'" "api_ok ln' net'"
    using assms(1) unfolding fine_def by blast
  from fine_from [OF assms(2) [OF r] r(2)] r(1) show ?thesis by simp
qed

lemma safe_fine:
  assumes "safe ln m r" "hs_ok (ln_handshake ln)"
  shows "fine ln m r"
proof -
  obtain x ln' net' m' where r: "r = Some (x, ln', net', m')" "stays ln m ln' m'" "conn_ok ln' net'"
    using assms(1) unfolding safe_def by blast
  then have "hs_ok (ln_handshake ln')" using assms(2) by (simp add: stays_def)
  with r(3) have "api_ok ln' net'" by (simp add: api_ok_def)
  from fine_return [OF stays_kept [OF r(2)] this] show ?thesis unfolding r(1) .
qed

text \<open>The error paths: a note in the log, and the returned failure.\<close>

lemma note_kept:
  assumes "kept ln0 m0 ln m" "length fn + length file + length msg \<le> 400" "line < 10 ^ 9"
  shows "\<exists>errs m'. ln_note ln (fn, file, line) msg m = Some (ln\<lparr>ln_errs := errs\<rparr>, m') \<and> kept ln0 m0 (ln\<lparr>ln_errs := errs\<rparr>) m'"
  using ln_note_total [OF kept_wf [OF assms(1)] assms(2,3), of m] kept_trans [OF assms(1)] stays_kept by blast

lemma fine_fail:
  assumes "api_ok ln net" "length fn + length file + length msg \<le> 400" "line < 10 ^ 9" "kept ln0 m0 ln m"
  shows "fine ln0 m0 (ln_fail r ln (fn, file, line) msg net m)"
proof -
  obtain errs m' where n: "ln_note ln (fn, file, line) msg m = Some (ln\<lparr>ln_errs := errs\<rparr>, m')" "kept ln0 m0 (ln\<lparr>ln_errs := errs\<rparr>) m'"
    using note_kept [OF assms(4,2,3)] by blast
  then have "api_ok (ln\<lparr>ln_errs := errs\<rparr>) net"
    using assms(1) kept_wf [OF n(2)] by (simp add: api_ok_def conn_ok_def)
  then show ?thesis using n by (simp add: ln_fail_def fine_return)
qed

section \<open>The acts\<close>

lemma act_one_prep_fine:
  assumes L: "aead_ok L" "secp_ok L" and hs: "hs_ok (ln_handshake ln)" and gen: "generate_key L rnd \<noteq> None"
    and k: "kept ln0 m0 ln m"
  shows "\<exists>ok rnd' ln' m'. act_one_initiator_prep L ln rnd m = Some (ok, rnd', ln', m') \<and> kept ln0 m0 ln' m' \<and>
    hs_ok (ln_handshake ln') \<and> ln_crypto_state ln' = ln_crypto_state ln"
proof -
  let ?hs = "ln_handshake ln"
  obtain e rnd' where e: "generate_key L rnd = Some (e, rnd')" using gen by auto
  have len: "length (hs_h ?hs) = 32" "length (hs_ck ?hs) = 32" using hs by (simp_all add: hs_ok_def)
  obtain ok es where es: "ecdh L (hs_their_id ?hs) (kp_priv e) = (ok, es)" "length es = 32"
    using L(2) unfolding secp_ok_def by (metis prod.collapse)
  show ?thesis
  proof (cases ok)
    case True
    obtain ck temp_k where "bolt8_hkdf (hs_ck ?hs) es = (ck, temp_k)" by force
    moreover have "ecdh L (hs_their_id ?hs) (kp_priv e) = (True, es)" using es(1) True by simp
    ultimately show ?thesis using act_one_prep_eq [OF L e len _ es(2) _ refl refl] length_bolt8_hkdf hs k
      by (fastforce simp: hs_ok_def act_two_shape_def)
  next
    case False
    let ?ln = "ln\<lparr>ln_handshake := ?hs\<lparr>hs_e := e, hs_h := bolt8_mix (hs_h ?hs) (pubkey_serialize L (kp_pub e)), hs_ss := es\<rparr>\<rparr>"
    have "kept ln0 m0 ?ln m" using k by simp
    from note_kept [OF this, of "''act_one_initiator_prep''" "''handshake.c''" "ascii ''handshake failed, secp256k1_ecdh error''" 402]
    obtain errs m' where "ln_note ?ln (''act_one_initiator_prep'', ''handshake.c'', 402)
        (ascii ''handshake failed, secp256k1_ecdh error'') m = Some (?ln\<lparr>ln_errs := errs\<rparr>, m')" "kept ln0 m0 (?ln\<lparr>ln_errs := errs\<rparr>) m'"
      by auto
    then show ?thesis using e es False hs len L(2)
      by (auto simp: act_one_initiator_prep_def sha_mix_in_key_eq Let_def hs_ok_def act_two_shape_def)
  qed
qed

lemma build_act_three_fine:
  assumes L: "aead_ok L" "secp_ok L" and k: "kept ln0 m0 ln m" and crypto: "keys_ok (ln_crypto_state ln)"
    and hs: "hs_ok (ln_handshake ln)" "length (hs_temp_k (ln_handshake ln)) = 32"
  shows "\<exists>act3 ln' m'. build_act_three L ln m = Some (act3, ln', m') \<and> kept ln0 m0 ln' m' \<and>
    hs_ok (ln_handshake ln') \<and> keys_ok (ln_crypto_state ln')"
proof -
  let ?hs = "ln_handshake ln"
  define c where "c = snd (aead_enc L (hs_temp_k ?hs) (bolt8_nonce 1) (hs_h ?hs) (pubkey_serialize L (kp_pub (ln_key ln))))"
  define h where "h = bolt8_mix (hs_h ?hs) c"
  have len: "length (hs_h ?hs) = 32" "length (hs_ck ?hs) = 32" using hs by (simp_all add: hs_ok_def)
  have ser: "length (pubkey_serialize L (kp_pub (ln_key ln))) = 33" using L(2) by (simp add: secp_ok_def)
  then have lc: "length c = 49" using aead_enc_simps(2) [OF L(1) hs(2) length_bolt8_nonce] by (simp add: c_def)
  obtain ok se where se: "ecdh L (hs_re ?hs) (kp_priv (ln_key ln)) = (ok, se)" "length se = 32"
    using L(2) unfolding secp_ok_def by (metis prod.collapse)
  have front: "encrypt_ad L (hs_temp_k ?hs) 1 (hs_h ?hs) (pubkey_serialize L (kp_pub (ln_key ln))) 49 = Some c"
      "sha_mix_in (lib_host L) (hs_h ?hs) c = Some h"
    using encrypt_ad_eq [OF L(1) hs(2), of 49 "pubkey_serialize L (kp_pub (ln_key ln))" 1 "hs_h ?hs"] ser len lc
    by (simp_all add: c_def h_def sha_mix_in_eq unsigned_1)
  obtain ck temp_k where hk: "bolt8_hkdf (hs_ck ?hs) se = (ck, temp_k)" by force
  obtain k1 k2 where hk2: "bolt8_hkdf ck [] = (k1, k2)" by force
  note lens = length_bolt8_hkdf [OF hk] length_bolt8_hkdf [OF hk2]
  show ?thesis
  proof (cases ok)
    case True
    moreover have "length h = 32" by (simp add: h_def)
    ultimately show ?thesis using front se hk hk2 lens len hs k
      by (simp add: build_act_three_def Let_def hkdf_two_keys_eq encrypt_ad_eq [OF L(1)] handshake_success_eq hs_ok_def act_two_shape_def
          keys_ok_def)
  next
    case False
    let ?ln = "ln\<lparr>ln_handshake := ?hs\<lparr>hs_act3 := (hs_act3 ?hs)\<lparr>a3_ciphertext := c\<rparr>, hs_h := h, hs_ss := se\<rparr>\<rparr>"
    have "kept ln0 m0 ?ln m" using k by simp
    from note_kept [OF this, of "''build_act_three''" "''handshake.c''" "ascii ''act3 ecdh handshake failed''" 264]
    obtain errs m' where "ln_note ?ln (''build_act_three'', ''handshake.c'', 264) (ascii ''act3 ecdh handshake failed'') m =
        Some (?ln\<lparr>ln_errs := errs\<rparr>, m')" "kept ln0 m0 (?ln\<lparr>ln_errs := errs\<rparr>) m'" by auto
    then show ?thesis using front se False hs crypto
      by (simp add: build_act_three_def Let_def hs_ok_def act_two_shape_def h_def)
  qed
qed

lemma decrypt_empty:
  assumes "aead_dec_fits L" "length c = 16"
  shows "decrypt L k nonce ad c 0 = Some (if fst (aead_dec L k (le64_nonce (lib_order L) nonce) ad c) then Some [] else None)"
proof -
  have "length (snd (aead_dec L k (le64_nonce (lib_order L) nonce) ad c)) \<le> length c - 16"
    using assms(1) unfolding aead_dec_fits_def by blast
  then show ?thesis using assms(2) by (simp add: decrypt_def Let_def case_prod_beta)
qed

lemma act_two_fine:
  assumes L: "aead_ok L" "aead_dec_fits L" "secp_ok L" and k: "kept ln0 m0 ln m" and crypto: "keys_ok (ln_crypto_state ln)"
    and hs: "hs_ok (ln_handshake ln)" and act2: "length (a2_tag act2) = 16"
  shows "\<exists>act3 ln' m'. lnsocket_act_two L ln act2 m = Some (act3, ln', m') \<and> kept ln0 m0 ln' m' \<and>
    hs_ok (ln_handshake ln') \<and> keys_ok (ln_crypto_state ln')"
proof -
  let ?hs = "ln_handshake ln"
  have noted: "\<exists>ln' m'. ln_note (ln\<lparr>ln_handshake := hs'\<rparr>) (''lnsocket_act_two'', ''handshake.c'', line) msg m = Some (ln', m') \<and>
      kept ln0 m0 ln' m' \<and> hs_ok (ln_handshake ln') \<and> keys_ok (ln_crypto_state ln')"
    if "hs_ok hs'" "length msg \<le> 100" "line < 10 ^ 9" for hs' line msg
  proof -
    have "kept ln0 m0 (ln\<lparr>ln_handshake := hs'\<rparr>) m" using k by simp
    from note_kept [OF this _ that(3), of "''lnsocket_act_two''" "''handshake.c''" msg] that show ?thesis using crypto by auto
  qed
  have len: "length (hs_h ?hs) = 32" "length (hs_ck ?hs) = 32" using hs by (simp_all add: hs_ok_def)
  obtain ok re where re: "pubkey_parse L (a2_pubkey act2) = (ok, re)" by force
  define h where "h = bolt8_mix (hs_h ?hs) (pubkey_serialize L re)"
  obtain ok2 ss where ss: "ecdh L re (kp_priv (hs_e ?hs)) = (ok2, ss)" "length ss = 32"
    using L(3) unfolding secp_ok_def by (metis prod.collapse)
  obtain ck temp_k where hk: "bolt8_hkdf (hs_ck ?hs) ss = (ck, temp_k)" by force
  note lens = length_bolt8_hkdf [OF hk]
  let ?hs2 = "?hs\<lparr>hs_re := re, hs_h := h, hs_ss := ss, hs_ck := ck, hs_temp_k := temp_k\<rparr>"
  note defs = lnsocket_act_two_def Let_def sha_mix_in_key_eq [OF L(3)] hkdf_two_keys_eq decrypt_empty [OF L(2) act2] sha_mix_in_eq
  consider "a2_v act2 \<noteq> 0" | "a2_v act2 = 0" "\<not> ok" | "a2_v act2 = 0" "ok" "\<not> ok2"
    | "a2_v act2 = 0" "ok" "ok2" "\<not> fst (aead_dec L temp_k (le64_nonce (lib_order L) 0) h (a2_tag act2))"
    | "a2_v act2 = 0" "ok" "ok2" "fst (aead_dec L temp_k (le64_nonce (lib_order L) 0) h (a2_tag act2))" by blast
  then show ?thesis
  proof cases
    case 1
    then show ?thesis using noted [OF hs, of "ascii ''unrecognized handshake version''" 310] by (auto simp: lnsocket_act_two_def)
  next
    case 2
    have "hs_ok (?hs\<lparr>hs_re := re\<rparr>)" using hs by (simp add: hs_ok_def act_two_shape_def)
    from noted [OF this, of "ascii ''failed to parse remote pubkey''" 325] show ?thesis using 2 re by (auto simp: defs)
  next
    case 3
    have "hs_ok (?hs\<lparr>hs_re := re, hs_h := h, hs_ss := ss\<rparr>)" using hs by (simp add: hs_ok_def act_two_shape_def h_def)
    from noted [OF this, of "ascii ''act2 ecdh failed''" 341] show ?thesis using 3 re ss len by (auto simp: defs h_def)
  next
    case 4
    have "hs_ok ?hs2" using hs lens by (simp add: hs_ok_def act_two_shape_def h_def)
    from noted [OF this, of "ascii ''handshake decrypt failed''" 361] show ?thesis using 4 re ss len hk by (auto simp: defs h_def)
  next
    case 5
    let ?ln = "ln\<lparr>ln_handshake := ?hs2\<lparr>hs_h := bolt8_mix h (a2_tag act2)\<rparr>\<rparr>"
    have "hs_ok (ln_handshake ?ln)" using hs lens by (simp add: hs_ok_def act_two_shape_def)
    from build_act_three_fine [OF L(1,3) _ _ this, of ln0 m0 m] k crypto lens
    show ?thesis using 5 re ss len hk act2 by (simp add: defs h_def)
  qed
qed

section \<open>The handshake over the socket and the proxy\<close>

lemma api_ok_simps: "api_ok ln net \<Longrightarrow> ln_wf ln" "api_ok ln net \<Longrightarrow> keys_ok (ln_crypto_state ln)" "api_ok ln net \<Longrightarrow> net_ok net"
  "api_ok ln net \<Longrightarrow> hs_ok (ln_handshake ln)"
  by (simp_all add: api_ok_def conn_ok_def)

lemma api_okI: "ln_wf ln \<Longrightarrow> keys_ok (ln_crypto_state ln) \<Longrightarrow> net_ok net \<Longrightarrow> hs_ok (ln_handshake ln) \<Longrightarrow> api_ok ln net"
  by (simp add: api_ok_def conn_ok_def)

lemma os_write_cases: "net_ok net \<Longrightarrow> os_write net bs = (n, net') \<Longrightarrow> net_ok net'"
  using os_write_ok [of net bs] by simp

lemma os_read_cases: "net_ok net \<Longrightarrow> os_read net sz = (r, net') \<Longrightarrow> net_ok net' \<and> (case r of Data bs \<Rightarrow> length bs \<le> sz | _ \<Rightarrow> True)"
  using os_read_ok [of net sz] by (auto simp: os_read_def split: list.splits read_event.splits)

lemma act_two_initiator_fine:
  assumes L: "aead_ok L" "aead_dec_fits L" "secp_ok L" and ok: "api_ok ln net" and k: "kept ln0 m0 ln m"
  shows "fine ln0 m0 (act_two_initiator L ln net m)"
proof -
  let ?hs = "ln_handshake ln"
  obtain r net1 where r: "os_read net ACT_TWO_SIZE = (r, net1)" by force
  define bs where "bs = (case r of Data bs \<Rightarrow> bs | _ \<Rightarrow> [])"
  have n1: "net_ok net1" "length bs \<le> 50"
    using os_read_cases [OF api_ok_simps(3) [OF ok] r] by (auto simp: bs_def ACT_TWO_SIZE_def split: read_event.splits)
  define ln1 where "ln1 = ln\<lparr>ln_handshake := ?hs\<lparr>hs_act2 := act_two_of_bytes (patch (act_two_bytes (hs_act2 ?hs)) 0 bs)\<rparr>\<rparr>"
  have "length (act_two_bytes (hs_act2 ?hs)) = 50"
    using api_ok_simps(4) [OF ok] by (simp add: hs_ok_def act_two_shape_def act_two_bytes_def)
  then have shape: "length (patch (act_two_bytes (hs_act2 ?hs)) 0 bs) = 50" using n1(2) by simp
  have ok1: "api_ok ln1 net1" "kept ln0 m0 ln1 m"
    using ok k n1(1) shape by (simp_all add: ln1_def api_ok_def conn_ok_def hs_ok_def act_two_shape_def act_two_of_bytes_def ln_wf_def)
  have tag: "length (a2_tag (hs_act2 (ln_handshake ln1))) = 16" using api_ok_simps(4) [OF ok1(1)] by (simp add: hs_ok_def act_two_shape_def)
  show ?thesis
  proof (cases "length bs = ACT_TWO_SIZE")
    case False
    have "fine ln0 m0 (ln_fail False ln1 (''act_two_initiator'', ''handshake.c'', 457) (n_errno net1) net1 m)"
      using net_ok_errno [OF n1(1)] by (intro fine_fail [OF ok1(1) _ _ ok1(2)]) simp_all
    then show ?thesis using r False by (simp add: act_two_initiator_def Let_def flip: bs_def ln1_def)
  next
    case True
    obtain act3 ln2 m2 where a: "lnsocket_act_two L ln1 (hs_act2 (ln_handshake ln1)) m = Some (act3, ln2, m2)" "kept ln0 m0 ln2 m2"
        "hs_ok (ln_handshake ln2)" "keys_ok (ln_crypto_state ln2)"
      using act_two_fine [OF L ok1(2) api_ok_simps(2,4) [OF ok1(1)] tag] by blast
    have act2: "hs_act2 (ln_handshake ln1) = act_two_of_bytes (patch (act_two_bytes (hs_act2 ?hs)) 0 bs)" by (simp add: ln1_def)
    have ok2: "api_ok ln2 net2" if "net_ok net2" for net2 using api_okI [OF kept_wf [OF a(2)] a(4) that a(3)] .
    show ?thesis
    proof (cases act3)
      case None
      then show ?thesis using r True a(1) [unfolded act2] fine_return [OF a(2) ok2 [OF n1(1)]]
        by (simp add: act_two_initiator_def Let_def flip: bs_def ln1_def)
    next
      case (Some act3)
      obtain n net2 where w: "os_write net1 (act_three_bytes act3) = (n, net2)" by force
      note n2 = os_write_cases [OF n1(1) w]
      have "fine ln0 m0 (ln_fail False ln2 (''act_two_initiator'', ''handshake.c'', 465) (ascii ''handshake failed on initial send'') net2 m2)"
        by (intro fine_fail [OF ok2 [OF n2] _ _ a(2)]) simp_all
      then show ?thesis using r True a(1) [unfolded act2] Some w fine_return [OF a(2) ok2 [OF n2], of True]
        by (simp add: act_two_initiator_def Let_def flip: bs_def ln1_def)
    qed
  qed
qed

lemma begin_handshake_fine:
  assumes L: "aead_ok L" "aead_dec_fits L" "secp_ok L" and ok: "api_ok ln net" and k: "kept ln0 m0 ln m"
    and gen: "generate_key L rnd \<noteq> None"
  shows "fine ln0 m0 (begin_handshake L ln their_id rnd net m)"
proof -
  obtain h ck where st: "bolt8_start (pubkey_serialize L their_id) = (h, ck)" by force
  then have len: "length h = 32" "length ck = 32" by (auto simp: bolt8_start_def Let_def)
  let ?ln = "ln\<lparr>ln_handshake := (ln_handshake ln)\<lparr>hs_h := h, hs_ck := ck, hs_side := INITIATOR, hs_their_id := their_id\<rparr>\<rparr>"
  have hs: "hs_ok (ln_handshake ?ln)" using api_ok_simps(4) [OF ok] len by (simp add: hs_ok_def act_two_shape_def)
  have k1: "kept ln0 m0 ?ln m" using k by simp
  obtain good rnd' ln1 m1 where a: "act_one_initiator_prep L ?ln rnd m = Some (good, rnd', ln1, m1)" "kept ln0 m0 ln1 m1"
      "hs_ok (ln_handshake ln1)" "ln_crypto_state ln1 = ln_crypto_state ?ln"
    using act_one_prep_fine [OF L(1,3) hs gen k1] by blast
  have i: "initiate L ln their_id rnd m = Some (good, rnd', ln1, m1)"
    using new_handshake_eq [OF L(3) st, of "ln_handshake ln"] a(1) by (simp add: initiate_def)
  have ok1: "api_ok ln1 net1" if "net_ok net1" for net1
    using api_okI [OF kept_wf [OF a(2)] _ that a(3)] a(4) api_ok_simps(2) [OF ok] by simp
  show ?thesis
  proof (cases good)
    case False
    then show ?thesis unfolding begin_handshake_initiate i using fine_return [OF a(2) ok1 [OF api_ok_simps(3) [OF ok]]] by simp
  next
    case True
    obtain n net1 where w: "os_write net (act_one_bytes (hs_act1 (ln_handshake ln1))) = (n, net1)" by force
    note n1 = os_write_cases [OF api_ok_simps(3) [OF ok] w]
    have f: "fine ln0 m0 (ln_fail (False, rnd') ln1 (''act_one_initiator'', ''handshake.c'', 477)
        (ascii ''handshake failed on initial send'') net1 m1)"
      by (intro fine_fail [OF ok1 [OF n1] _ _ a(2)]) simp_all
    have "fine ln0 m0 (act_two_initiator L ln1 net1 m1 \<bind> (\<lambda>(ok, ln, net, m). Some ((ok, rnd'), ln, net, m)))"
      by (intro fine_bind [OF act_two_initiator_fine [OF L ok1 [OF n1] a(2)]] fine_return) (auto intro: kept_refl dest: kept_wf)
    then show ?thesis unfolding begin_handshake_initiate i using True w f by (simp add: Let_def)
  qed
qed

lemma tor_fine:
  assumes ok: "api_ok ln net" and k: "kept ln0 m0 ln m"
  shows "fine ln0 m0 (lnsocket_handshake_with_tor bo hdr0 ln host port net m)"
proof -
  have f: "fine ln0 m0 (ln_fail False ln (''lnsocket_handshake_with_tor'', ''lnsocket.c'', line) msg net' m)"
    if "net_ok net'" "length msg \<le> 300" "line < 10 ^ 9" for line msg net'
  proof -
    have "api_ok ln net'" using ok that(1) by (simp add: api_ok_def conn_ok_def)
    then show ?thesis using that(2,3) by (intro fine_fail [OF _ _ _ k]) simp_all
  qed
  have ret: "fine ln0 m0 (Some (True, ln, net', m))" if "net_ok net'" for net'
    using ok that by (intro fine_return [OF k]) (simp add: api_ok_def conn_ok_def)
  have err: "net_ok net' \<Longrightarrow> length (n_errno net') \<le> 256" for net' by (rule net_ok_errno)
  obtain n1 net1 where w1: "os_write net [SOCKS_V5, 0x01, SOCKS_NOAUTH] = (n1, net1)" by force
  note o1 = os_write_cases [OF api_ok_simps(3) [OF ok] w1]
  obtain r net2 where r2: "os_read net1 2 = (r, net2)" by force
  have o2: "net_ok net2" using os_read_cases [OF o1 r2] by simp
  obtain n3 net3 where w3: "os_write net2 ([SOCKS_V5, SOCKS_CONNECT, 0, SOCKS_DOMAIN, of_nat (length host)] @ host @ port_bytes bo port) = (n3, net3)" by force
  note o3 = os_write_cases [OF o2 w3]
  obtain good buf net4 where r4: "read_all net3 (SIZE_OF_IPV4_RESPONSE + SIZE_OF_RESPONSE) = (good, buf, net4)" by (rule prod_cases3)
  note o4 = read_all_ok [OF o3 r4]
  have "unat (buf ! 1) < 2 ^ LENGTH(8)" by (rule unsigned_less)
  then have d: "length (dec_nat (unat (buf ! 1))) \<le> 3" by (intro length_dec_nat) simp_all
  show ?thesis
    using w1 r2 w3 r4 f [OF o1] f [OF o2] f [OF o3] f [OF o4] ret [OF o4] err [OF o1] err [OF o3] err [OF o4] d
    by (simp add: lnsocket_handshake_with_tor_def Let_def)
qed

lemma refused_fine:
  assumes "refused rnd tr ln net m r" "api_ok ln net" "kept ln0 m0 ln m"
  shows "fine ln0 m0 r"
proof -
  obtain errs m' where r: "r = Some ((False, rnd, tr), ln\<lparr>ln_errs := errs\<rparr>, net, m')" "stays ln m (ln\<lparr>ln_errs := errs\<rparr>) m'"
    using assms(1) unfolding refused_def by blast
  have "api_ok (ln\<lparr>ln_errs := errs\<rparr>) net" using assms(2) stays_wf [OF r(2)] by (simp add: api_ok_def conn_ok_def)
  from fine_return [OF kept_trans [OF assms(3) stays_kept [OF r(2)]] this] show ?thesis unfolding r(1) .
qed

lemma connect_fine:
  assumes L: "aead_ok L" "aead_dec_fits L" "secp_ok L" and ok: "api_ok ln net" and k: "kept ln0 m0 ln m"
    and gen: "generate_key L rnd \<noteq> None" and gai: "\<forall>e. length (os_gai_strerror os e) \<le> 256"
    and fd: "input_good L ln node_id \<longrightarrow> 0 \<le> os_socket os \<and> os_socket os < 1024"
  shows "fine ln0 m0 (lnsocket_connect_with L os hdr0 ln node_id host tor_proxy timeout_ms rnd net m)"
proof (cases "input_good L ln node_id")
  case False
  show ?thesis by (rule refused_fine [OF connect_bad_input [OF api_ok_simps(1) [OF ok] False] ok k])
next
  case good: True
  then have fd: "0 \<le> os_socket os" "os_socket os < 1024" using fd by simp_all
  let ?ln = "ln\<lparr>ln_socket := os_socket os\<rparr>"
  have ok1: "api_ok ?ln net" using ok by (simp add: api_ok_def conn_ok_def ln_wf_def)
  have k1: "kept ln0 m0 ?ln m" using k by simp
  show ?thesis
  proof (cases "os_connects os host tor_proxy")
    case False
    obtain tr where "refused rnd (Socket_call # tr) ?ln net m
        (lnsocket_connect_with L os hdr0 ln node_id host tor_proxy timeout_ms rnd net m)"
      using connect_os_refuses [OF api_ok_simps(1) [OF ok] good False fd] gai by blast
    from refused_fine [OF this ok1 k1] show ?thesis .
  next
    case True
    then have "0 < os_socket os" using fd(1) by (simp add: os_connects_def)
    obtain their_id where id: "pubkey_from_node_id L (snd (parse_node_id node_id)) = (True, their_id)"
      using good by (metis input_good_def prod.collapse)
    show ?thesis
    proof (cases tor_proxy)
      case None
      note c = connect_direct [OF good True [unfolded None] \<open>0 < os_socket os\<close> fd(2) id]
      show ?thesis using begin_handshake_fine [OF L ok1 k1 gen, of their_id] unfolding None c fine_def by (fastforce simp: case_prod_beta)
    next
      case (Some proxy)
      obtain h p where hp: "peer_address host = (h, p)" by force
      note c = connect_proxy [OF good True [unfolded Some] \<open>0 < os_socket os\<close> fd(2) id hp]
      let ?tr = "proxy_calls (lib_order L) os proxy timeout_ms"
      have "fine ln' m' (ln_fail (False, rnd, ?tr) ln' (''lnsocket_connect_with'', ''lnsocket.c'', 738)
          (ascii ''failed handshake with tor proxy'') net' m')" if "api_ok ln' net'" for ln' net' m'
        using kept_refl [OF api_ok_simps(1) [OF that]] by (intro fine_fail [OF that]) simp_all
      moreover have "fine ln' m' (begin_handshake L ln' their_id rnd net' m' \<bind>
          (\<lambda>((ok, rnd), ln, net, m). Some ((ok, rnd, ?tr), ln, net, m)))" if "api_ok ln' net'" for ln' net' m'
      proof -
        have "fine ln' m' (begin_handshake L ln' their_id rnd net' m')"
          by (rule begin_handshake_fine [OF L that kept_refl [OF api_ok_simps(1) [OF that]] gen])
        then show ?thesis unfolding fine_def by fastforce
      qed
      ultimately show ?thesis unfolding Some c Let_def
        by (intro fine_bind [OF tor_fine [OF ok1 k1]]) (simp del: ascii_simps)
    qed
  qed
qed

section \<open>Calls\<close>

text \<open>
  The calls with a connection, with what they draw from the random source and what the system
  answers them. The accessors \<open>lnsocket_fd\<close>, \<open>lnsocket_msgbuf\<close> and \<open>lnsocket_print_errors\<close>, which
  change nothing, and the functions that build messages in buffers of the caller are left out.
\<close>

datatype api_call =
    Call_genkey "bytes list"
  | Call_setkey bytes
  | Call_connect os bytes bytes bytes "bytes list"
  | Call_connect_tor os bytes bytes bytes "bytes option" "bytes list"
  | Call_act_one bytes "bytes list"
  | Call_act_two act_two
  | Call_perform_init
  | Call_read
  | Call_recv
  | Call_write addr u16
  | Call_send u16 addr u16
  | Call_pong addr u16
  | Call_encrypt addr u16
  | Call_decrypt_header addr
  | Call_decrypt addr nat

text \<open>One call, with its result dropped; \<open>stk\<close> is the address of its stack frame.\<close>

definition dropping :: "'r io \<Rightarrow> unit io" where
  "dropping r = map_option (map_prod (\<lambda>_. ()) id) r"

fun api_run :: "'a lib_scheme \<Rightarrow> addr \<Rightarrow> api_call \<Rightarrow> lnsocket \<Rightarrow> net \<Rightarrow> mem \<Rightarrow> unit io" where
  "api_run L stk (Call_genkey rnd) ln net m = do {
     (ln, rnd) \<leftarrow> lnsocket_genkey L ln rnd;
     Some ((), ln, net, m) }"
| "api_run L stk (Call_setkey key) ln net m = (case lnsocket_setkey L ln key of (ok, ln) \<Rightarrow> Some ((), ln, net, m))"
| "api_run L stk (Call_connect os hdr0 node_id host rnd) ln net m =
     dropping (lnsocket_connect L os hdr0 ln node_id host rnd net m)"
| "api_run L stk (Call_connect_tor os hdr0 node_id host proxy rnd) ln net m =
     dropping (lnsocket_connect_tor L os hdr0 ln node_id host proxy rnd net m)"
| "api_run L stk (Call_act_one node_id rnd) ln net m = dropping (lnsocket_act_one L ln node_id rnd net m)"
| "api_run L stk (Call_act_two act2) ln net m = do {
     (act3, ln, m) \<leftarrow> lnsocket_act_two L ln act2 m;
     Some ((), ln, net, m) }"
| "api_run L stk Call_perform_init ln net m = dropping (lnsocket_perform_init L stk ln net m)"
| "api_run L stk Call_read ln net m = dropping (lnsocket_read L ln net m)"
| "api_run L stk Call_recv ln net m = dropping (lnsocket_recv L ln net m)"
| "api_run L stk (Call_write msg n) ln net m = dropping (lnsocket_write L ln msg n net m)"
| "api_run L stk (Call_send t payload n) ln net m = dropping (lnsocket_send L ln t payload n net m)"
| "api_run L stk (Call_pong ping n) ln net m = dropping (lnsocket_pong L stk ln ping n net m)"
| "api_run L stk (Call_encrypt msg n) ln net m = dropping (lnsocket_encrypt L ln msg n net m)"
| "api_run L stk (Call_decrypt_header hdr) ln net m = dropping (lnsocket_decrypt_header L ln hdr net m)"
| "api_run L stk (Call_decrypt packet n) ln net m = dropping (lnsocket_decrypt L ln packet n net m)"

text \<open>
  What the types of C and the system give: sizes are an \<open>int\<close>, the arrays of Act Two have their
  lengths, one of the draws is a valid key, and the texts of \<open>gai_strerror\<close> are short enough for
  the buffer the errors are formatted in.
\<close>

fun call_typed :: "'a lib_scheme \<Rightarrow> api_call \<Rightarrow> bool" where
  "call_typed L (Call_genkey rnd) \<longleftrightarrow> generate_key L rnd \<noteq> None"
| "call_typed L (Call_connect os hdr0 node_id host rnd) \<longleftrightarrow>
     generate_key L rnd \<noteq> None \<and> (\<forall>e. length (os_gai_strerror os e) \<le> 256)"
| "call_typed L (Call_connect_tor os hdr0 node_id host proxy rnd) \<longleftrightarrow>
     generate_key L rnd \<noteq> None \<and> (\<forall>e. length (os_gai_strerror os e) \<le> 256)"
| "call_typed L (Call_act_one node_id rnd) \<longleftrightarrow> generate_key L rnd \<noteq> None"
| "call_typed L (Call_act_two act2) \<longleftrightarrow> length (a2_pubkey act2) = 33 \<and> length (a2_tag act2) = 16"
| "call_typed L (Call_decrypt packet n) \<longleftrightarrow> n < 2 ^ 31"
| "call_typed L _ \<longleftrightarrow> True"

text \<open>
  The calls that crash: decrypting a packet shorter than its tag, and connecting, with input that
  passes the checks, when \<open>socket\<close> fails or gives a descriptor that \<open>FD_SET\<close> cannot store.
\<close>

fun call_crashes :: "'a lib_scheme \<Rightarrow> lnsocket \<Rightarrow> api_call \<Rightarrow> bool" where
  "call_crashes L ln (Call_decrypt packet n) \<longleftrightarrow> n < 16"
| "call_crashes L ln (Call_connect os hdr0 node_id host rnd) \<longleftrightarrow>
     input_good L ln node_id \<and> \<not> (0 \<le> os_socket os \<and> os_socket os < 1024)"
| "call_crashes L ln (Call_connect_tor os hdr0 node_id host proxy rnd) \<longleftrightarrow>
     input_good L ln node_id \<and> \<not> (0 \<le> os_socket os \<and> os_socket os < 1024)"
| "call_crashes L ln _ \<longleftrightarrow> False"

text \<open>
  The states a connection can reach: by calls, by more input of the peer, by new behaviour of the
  kernel on writes, and by anything the program does to memory outside the buffer and the log.
\<close>

inductive api_reach :: "'a lib_scheme \<Rightarrow> addr \<Rightarrow> lnsocket \<times> net \<times> mem \<Rightarrow> lnsocket \<times> net \<times> mem \<Rightarrow> bool"
  for L stk s where
  start: "api_reach L stk s s"
| call: "api_reach L stk s (ln, net, m) \<Longrightarrow> call_typed L c \<Longrightarrow> api_run L stk c ln net m = Some ((), ln', net', m') \<Longrightarrow>
    api_reach L stk s (ln', net', m')"
| input: "api_reach L stk s (ln, net, m) \<Longrightarrow> \<forall>e \<in> set es. short_text e \<Longrightarrow>
    api_reach L stk s (ln, net\<lparr>n_in := n_in net @ es\<rparr>, m)"
| outputs: "api_reach L stk s (ln, net, m) \<Longrightarrow> \<forall>e \<in> set es. short_write_text e \<Longrightarrow>
    api_reach L stk s (ln, net\<lparr>n_out := es\<rparr>, m)"
| program: "api_reach L stk s (ln, net, m) \<Longrightarrow> \<forall>a. arena_has ln a \<longrightarrow> m' a = m a \<Longrightarrow>
    api_reach L stk s (ln, net, m')"

inductive_cases api_reachE: "api_reach L stk s t"

section \<open>Every call that does not crash returns\<close>

text \<open>What a call does: it returns, and memory changes only in the arena and its own stack frame.\<close>

definition call_safe :: "lnsocket \<Rightarrow> addr \<Rightarrow> mem \<Rightarrow> unit io \<Rightarrow> bool" where
  "call_safe ln stk m r \<longleftrightarrow> (\<exists>ln' net' m'. r = Some ((), ln', net', m') \<and> api_ok ln' net' \<and>
     c_start (ln_msgbuf ln') = c_start (ln_msgbuf ln) \<and> ln_mem ln' = ln_mem ln \<and>
     (\<forall>a. \<not> arena_has ln a \<longrightarrow> a < stk \<or> stk + 0xFFFF \<le> a \<longrightarrow> m' a = m a))"

lemma fine_call:
  assumes "only_at stk n m m1" "n \<le> 0xFFFF" "fine ln m1 r"
  shows "call_safe ln stk m (dropping r)"
proof -
  obtain x ln' net' m' where r: "r = Some (x, ln', net', m')" "kept ln m1 ln' m'" "api_ok ln' net'"
    using assms(3) unfolding fine_def by blast
  have "m' a = m a" if "\<not> arena_has ln a" "a < stk \<or> stk + 0xFFFF \<le> a" for a
    using r(2) assms(1,2) that by (auto simp: kept_def only_at_def)
  then show ?thesis using r by (auto simp: call_safe_def dropping_def kept_def)
qed

lemma fine_dropping: "fine ln m r \<Longrightarrow> call_safe ln stk m (dropping r)"
  using fine_call [of stk 0 m m ln r] by simp

lemma call_safe_from:
  assumes "kept ln m ln1 m1" "call_safe ln1 stk m1 r"
  shows "call_safe ln stk m r"
  using assms arena_has_cong [of ln1 ln] unfolding call_safe_def kept_def by fastforce

lemma call_safe_return: "kept ln m ln' m' \<Longrightarrow> api_ok ln' net' \<Longrightarrow> call_safe ln stk m (Some ((), ln', net', m'))"
  by (auto simp: call_safe_def kept_def)

lemma act_one_fine:
  assumes L: "aead_ok L" "secp_ok L" and ok: "api_ok ln net" and gen: "generate_key L rnd \<noteq> None"
  shows "fine ln m (lnsocket_act_one L ln node_id rnd net m)"
proof -
  have wf: "kept ln m ln m" using api_ok_simps(1) [OF ok] by simp
  have f: "fine ln m (ln_fail (None :: act_one option, rnd' :: bytes list) ln' (''lnsocket_act_one'', ''lnsocket_wasm.c'', line) msg net m')"
    if "kept ln m ln' m'" "api_ok ln' net" "length msg \<le> 100" "line < 10 ^ 9" for rnd' ln' line msg m'
    using that by (intro fine_fail) simp_all
  note bad = f [OF wf ok]
  obtain good1 id' where p: "parse_node_id node_id = (good1, id')" by force
  obtain good2 their_id where q: "pubkey_from_node_id L id' = (good2, their_id)" by force
  obtain h ck where st: "bolt8_start (pubkey_serialize L their_id) = (h, ck)" by force
  then have len: "length h = 32" "length ck = 32" by (auto simp: bolt8_start_def Let_def)
  let ?ln = "ln\<lparr>ln_handshake := (ln_handshake ln)\<lparr>hs_h := h, hs_ck := ck, hs_side := INITIATOR, hs_their_id := their_id\<rparr>\<rparr>"
  have hs: "hs_ok (ln_handshake ?ln)" using api_ok_simps(4) [OF ok] len by (simp add: hs_ok_def act_two_shape_def)
  have "kept ln m ?ln m" using wf by simp
  from act_one_prep_fine [OF L hs gen this] obtain good rnd' ln1 m1 where
    a: "act_one_initiator_prep L ?ln rnd m = Some (good, rnd', ln1, m1)" "kept ln m ln1 m1"
      "hs_ok (ln_handshake ln1)" "ln_crypto_state ln1 = ln_crypto_state ?ln" by blast
  have ok1: "api_ok ln1 net"
    using api_okI [OF kept_wf [OF a(2)] _ api_ok_simps(3) [OF ok] a(3)] a(4) api_ok_simps(2) [OF ok] by simp
  show ?thesis
    using p q a(1) new_handshake_eq [OF L(2) st, of "ln_handshake ln"] bad f [OF a(2) ok1]
      fine_return [OF a(2) ok1, of "(Some (hs_act1 (ln_handshake ln1)), rnd')"]
    by (cases good) (simp_all add: lnsocket_act_one_def Let_def)
qed

lemma key_kept: "ln_wf ln \<Longrightarrow> kept ln m (ln\<lparr>ln_key := k\<rparr>) m"
  by (simp add: kept_def ln_wf_def)

lemma key_ok: "api_ok ln net \<Longrightarrow> api_ok (ln\<lparr>ln_key := k\<rparr>) net"
  by (simp add: api_ok_def conn_ok_def ln_wf_def)

lemma api_run_safe:
  assumes L: "aead_ok L" "aead_dec_fits L" "secp_ok L" and ok: "api_ok ln net"
    and c: "call_typed L c" "\<not> call_crashes L ln c"
  shows "call_safe ln stk m (api_run L stk c ln net m)"
proof -
  note conn = ok [unfolded api_ok_def, THEN conjunct1] and hs = api_ok_simps(4) [OF ok] and wf = api_ok_simps(1) [OF ok]
  note safe = fine_dropping [OF safe_fine [OF _ hs]]
  note connect = fine_dropping [OF connect_fine [OF L ok kept_refl [OF wf]]]
  show ?thesis
  proof (cases c)
    case (Call_genkey rnd)
    then obtain e rnd' where "generate_key L rnd = Some (e, rnd')" using c(1) by auto
    then show ?thesis using Call_genkey call_safe_return [OF key_kept [OF wf] key_ok [OF ok]] by (simp add: lnsocket_genkey_def)
  next
    case (Call_setkey key)
    then show ?thesis using call_safe_return [OF key_kept [OF wf] key_ok [OF ok]] call_safe_return [OF kept_refl [OF wf] ok]
      by (simp add: lnsocket_setkey_def split: prod.split)
  next
    case (Call_connect os hdr0 node_id host rnd)
    then show ?thesis using c connect by (simp add: lnsocket_connect_def)
  next
    case (Call_connect_tor os hdr0 node_id host proxy rnd)
    then show ?thesis using c connect by (simp add: lnsocket_connect_tor_def)
  next
    case (Call_act_one node_id rnd)
    then show ?thesis using c fine_dropping [OF act_one_fine [OF L(1,3) ok]] by simp
  next
    case (Call_act_two act2)
    then have "length (a2_tag act2) = 16" using c by simp
    from act_two_fine [OF L kept_refl [OF wf] api_ok_simps(2) [OF ok] hs this, of m] obtain act3 ln' m' where
      a: "lnsocket_act_two L ln act2 m = Some (act3, ln', m')" "kept ln m ln' m'" "hs_ok (ln_handshake ln')" "keys_ok (ln_crypto_state ln')"
      by blast
    from call_safe_return [OF a(2) api_okI [OF kept_wf [OF a(2)] a(4) api_ok_simps(3) [OF ok] a(3)]] a(1) show ?thesis
      using Call_act_two by simp
  next
    case Call_perform_init
    from perform_init_safe [OF L(1,2) conn, of m stk] obtain r ln1 net1 m1 m2 where
      p: "stays ln m ln1 m1" "only_at stk 1024 m1 m2" "safe ln1 m2 (lnsocket_perform_init L stk ln net m)" by blast
    have "hs_ok (ln_handshake ln1)" using p(1) hs by (simp add: stays_def)
    from fine_call [OF p(2) _ safe_fine [OF p(3) this]] call_safe_from [OF stays_kept [OF p(1)]] Call_perform_init
    show ?thesis by simp
  next
    case (Call_pong ping n)
    from pong_safe [OF L(1) conn, of stk m ping n] obtain m1 where
      p: "only_at stk 0xFFFF m m1" "safe ln m1 (lnsocket_pong L stk ln ping n net m)" by blast
    from fine_call [OF p(1) le_refl safe_fine [OF p(2) hs]] show ?thesis using Call_pong by simp
  next
    case Call_read
    then show ?thesis using safe [OF read_safe [OF L(1,2) conn]] by simp
  next
    case Call_recv
    then show ?thesis using safe [OF recv_safe [OF L(1,2) conn]] by simp
  next
    case (Call_write msg n)
    then show ?thesis using safe [OF write_safe [OF L(1) conn]] by simp
  next
    case (Call_send t payload n)
    then show ?thesis using safe [OF send_safe [OF L(1) conn]] by simp
  next
    case (Call_encrypt msg n)
    then show ?thesis using safe [OF encrypt_safe [OF L(1) conn]] by simp
  next
    case (Call_decrypt_header hdr)
    then show ?thesis using safe [OF decrypt_header_safe [OF L(1) conn]] by simp
  next
    case (Call_decrypt packet n)
    then show ?thesis using safe [OF decrypt_safe [OF L(1,2) conn]] c by simp
  qed
qed

lemma api_run_crashes: "call_crashes L ln c \<Longrightarrow> api_run L stk c ln net m = None"
  by (cases c) (simp_all add: dropping_def lnsocket_decrypt_def Let_def lnsocket_connect_def lnsocket_connect_tor_def connect_bad_descriptor)

lemma api_reach_ok:
  assumes "api_reach L stk s t" "aead_ok L" "aead_dec_fits L" "secp_ok L" "api_ok (fst s) (fst (snd s))"
  shows "api_ok (fst t) (fst (snd t)) \<and> c_start (ln_msgbuf (fst t)) = c_start (ln_msgbuf (fst s)) \<and>
    ln_mem (fst t) = ln_mem (fst s)"
  using assms(1)
proof (induction rule: api_reach.induct)
  case start
  then show ?case using assms(5) by simp
next
  case (call ln net m c ln' net' m')
  then have ok: "api_ok ln net" by simp
  have "\<not> call_crashes L ln c" using api_run_crashes [of L ln c stk net m] call.hyps(3) by auto
  from api_run_safe [OF assms(2-4) ok call.hyps(2) this, of stk m] call.hyps(3)
  show ?case using call.IH by (simp add: call_safe_def)
qed (auto simp: api_ok_def conn_ok_def net_ok_def)

text \<open>What \<open>lnsocket_create\<close> gives is in order.\<close>

lemma zero_hs_ok: "hs_ok (ln_handshake zero_lnsocket)"
  by (simp add: hs_ok_def act_two_shape_def zero_lnsocket_def Let_def)

lemma created_ok:
  assumes "lnsocket_create (Some a) sz m0 = (Some ln, m)" "net_ok net"
  shows "api_ok ln net" "c_start (ln_msgbuf ln) = a + sz"
    "ln_mem ln = \<lparr>c_start = a, c_p = a + (sz + MSGBUF_MEM + ERROR_MEM), c_end = a + (sz + MSGBUF_MEM + ERROR_MEM)\<rparr>"
proof -
  have ln: "ln = zero_lnsocket\<lparr>ln_msgbuf := make_cursor (a + sz) (a + sz + MSGBUF_MEM),
      ln_errs := \<lparr>e_cur = make_cursor (a + sz + MSGBUF_MEM) (a + sz + MSGBUF_MEM + ERROR_MEM), e_enabled = True\<rparr>,
      ln_mem := \<lparr>c_start = a, c_p = a + sz + MSGBUF_MEM + ERROR_MEM, c_end = a + sz + MSGBUF_MEM + ERROR_MEM\<rparr>\<rparr>"
    using create_eq [of a sz m0] assms(1) by auto
  show "api_ok ln net" using assms(2) zero_hs_ok
    by (simp add: ln api_ok_def conn_ok_def ln_wf_def make_cursor_def cursor_ok_def)
  show "c_start (ln_msgbuf ln) = a + sz" by (simp add: ln make_cursor_def)
  show "ln_mem ln = \<lparr>c_start = a, c_p = a + (sz + MSGBUF_MEM + ERROR_MEM), c_end = a + (sz + MSGBUF_MEM + ERROR_MEM)\<rparr>"
    by (simp add: ln add.assoc)
qed

section \<open>Properties\<close>

text \<open>C7: From the creation of a connection on, after any calls with any results, whatever the peer sends, the
  kernel does with writes and the program does to its other memory, it is known which of the calls
  crash: decrypting a packet of fewer than 16 bytes, and connecting with valid input when the
  descriptor given by \<open>socket\<close> is not from 0 to 1023. Every other call returns, and changes no memory
  outside the allocation of the connection and the call's stack frame. (The random source is taken
  to draw a valid key at some time, and the texts of \<open>strerror\<close> and \<open>gai_strerror\<close> to be short.)\<close>

theorem api_returns:
  assumes "aead_ok L" "aead_dec_fits L" "secp_ok L"
    and "lnsocket_create (Some a) sz m0 = (Some ln, m)" "net_ok net"
    and "api_reach L stk (ln, net, m) (ln1, net1, m1)" "call_typed L c"
  shows "if call_crashes L ln1 c then api_run L stk c ln1 net1 m1 = None
    else \<exists>ln2 net2 m2. api_run L stk c ln1 net1 m1 = Some ((), ln2, net2, m2) \<and>
      (\<forall>x. x \<in> {a..<a + (sz + MSGBUF_MEM + ERROR_MEM)} \<or> x \<in> {stk..<stk + 0xFFFF} \<or> m2 x = m1 x)"
proof (cases "call_crashes L ln1 c")
  case True
  then show ?thesis using api_run_crashes [OF True] by simp
next
  case False
  note created = created_ok [OF assms(4,5)]
  have ok: "api_ok ln1 net1" "c_start (ln_msgbuf ln1) = a + sz"
    using api_reach_ok [OF assms(6,1-3)] created by simp_all
  then obtain ln2 net2 m2 where r: "api_run L stk c ln1 net1 m1 = Some ((), ln2, net2, m2)"
      "\<And>x. \<not> arena_has ln1 x \<Longrightarrow> x < stk \<or> stk + 0xFFFF \<le> x \<Longrightarrow> m2 x = m1 x"
    using api_run_safe [OF assms(1-3) ok(1) assms(7) False, of stk m1] unfolding call_safe_def by blast
  have "x \<in> {a..<a + (sz + MSGBUF_MEM + ERROR_MEM)} \<or> x \<in> {stk..<stk + 0xFFFF} \<or> m2 x = m1 x" for x
  proof (cases "arena_has ln1 x \<or> x \<in> {stk..<stk + 0xFFFF}")
    case True
    then show ?thesis using ok(2) by (auto simp: arena_has_def)
  next
    case False
    then show ?thesis using r(2) [of x] by (meson atLeastLessThan_iff not_le)
  qed
  then show ?thesis using r(1) False by simp
qed

text \<open>A connection that has drawn a key and failed to connect, with a peer that says nothing.\<close>

abbreviation example_id :: bytes where
  "example_id \<equiv> hex_encode (pubkey_serialize example_lib (kp_pub (example_pair 2)))"

lemma example_trace:
  obtains ln m ln1 m1 ln2 net2 m2 where "lnsocket_create (Some 4096) 2000 (\<lambda>_. 3) = (Some ln, m)"
    "api_run example_lib 400000 (Call_genkey [replicate 32 4]) ln example_net m = Some ((), ln1, example_net, m1)"
    "api_run example_lib 400000 (Call_connect example_os [0, 0] example_id (ascii ''host'') [replicate 32 4]) ln1 example_net m1 =
      Some ((), ln2, net2, m2)"
    "api_reach example_lib 400000 (ln, example_net, m) (ln2, net2, m2)"
proof -
  obtain ln m where c: "lnsocket_create (Some 4096) 2000 (\<lambda>_. 3) = (Some ln, m)"
    using create_eq [of 4096 2000 "\<lambda>_. 3"] by blast
  have net: "net_ok example_net" by (simp add: net_ok_def example_net_def)
  note L = example_lib_ok(1) example_dec_fits example_lib_ok(2)
  let ?key = "Call_genkey [replicate 32 4]" and ?connect = "Call_connect example_os [0, 0] example_id (ascii ''host'') [replicate 32 4]"
  have gen: "generate_key example_lib [replicate 32 4] = Some (example_pair 4, [])"
    using example_pair_valid [of 4] by (simp add: example_pair_def)
  then obtain ln1 where k: "api_run example_lib 400000 ?key ln example_net m = Some ((), ln1, example_net, m)"
    "ln1 = ln\<lparr>ln_key := example_pair 4\<rparr>" by (simp add: lnsocket_genkey_def)
  have ok: "api_ok ln1 example_net" unfolding k(2) using created_ok(1) [OF c net] by (rule key_ok)
  have typed: "call_typed example_lib ?key" "call_typed example_lib ?connect" "\<not> call_crashes example_lib ln1 ?connect"
    using gen by (simp_all add: example_os_def)
  obtain ln2 net2 m2 where r: "api_run example_lib 400000 ?connect ln1 example_net m = Some ((), ln2, net2, m2)"
    using api_run_safe [OF L ok typed(2,3), of 400000 m] unfolding call_safe_def by blast
  from that [OF c k(1) r api_reach.call [OF api_reach.call [OF api_reach.start typed(1) k(1)] typed(2) r]] show thesis .
qed

theorem api_returns_witness:
  "\<exists>ln m ln1 m1 ln2 net2 m2. lnsocket_create (Some 4096) 2000 (\<lambda>_. 3) = (Some ln, m) \<and>
    api_run example_lib 400000 (Call_genkey [replicate 32 4]) ln example_net m = Some ((), ln1, example_net, m1) \<and>
    api_run example_lib 400000 (Call_connect example_os [0, 0] example_id (ascii ''host'') [replicate 32 4]) ln1 example_net m1 =
      Some ((), ln2, net2, m2) \<and>
    (\<exists>ln3 net3 m3. api_run example_lib 400000 Call_recv ln2 net2 m2 = Some ((), ln3, net3, m3) \<and>
      (\<forall>x. x \<in> {4096..<4096 + (2000 + MSGBUF_MEM + ERROR_MEM)} \<or> x \<in> {400000..<400000 + 0xFFFF} \<or> m3 x = m2 x)) \<and>
    api_run example_lib 400000 (Call_decrypt 500000 15) ln2 net2 m2 = None"
proof -
  have net: "net_ok example_net" by (simp add: net_ok_def example_net_def)
  obtain ln m ln1 m1 ln2 net2 m2 where t: "lnsocket_create (Some 4096) 2000 (\<lambda>_. 3) = (Some ln, m)"
    "api_run example_lib 400000 (Call_genkey [replicate 32 4]) ln example_net m = Some ((), ln1, example_net, m1)"
    "api_run example_lib 400000 (Call_connect example_os [0, 0] example_id (ascii ''host'') [replicate 32 4]) ln1 example_net m1 =
      Some ((), ln2, net2, m2)"
    "api_reach example_lib 400000 (ln, example_net, m) (ln2, net2, m2)" by (rule example_trace)
  note api = api_returns [OF example_lib_ok(1) example_dec_fits example_lib_ok(2) t(1) net t(4)]
  have "\<exists>ln3 net3 m3. api_run example_lib 400000 Call_recv ln2 net2 m2 = Some ((), ln3, net3, m3) \<and>
      (\<forall>x. x \<in> {4096..<4096 + (2000 + MSGBUF_MEM + ERROR_MEM)} \<or> x \<in> {400000..<400000 + 0xFFFF} \<or> m3 x = m2 x)"
    using api [of Call_recv] by simp
  moreover have "api_run example_lib 400000 (Call_decrypt 500000 15) ln2 net2 m2 = None"
    using api [of "Call_decrypt 500000 15"] by simp
  ultimately show ?thesis using t(1-3) by blast
qed

text \<open>C11: The invariant of a connection. From its creation on, in every state that the calls (connecting and
  the handshake included, with any results), the peer, the kernel and the program lead to, the
  message buffer and the error log lie where \<open>lnsocket_create\<close> put them, with their positions inside;
  \<open>lnsocket_destroy\<close> frees the allocated pointer; both keys and both chaining keys of the transport
  and the hash and the chaining key of the handshake have 32 bytes.\<close>

theorem connection_invariant:
  assumes "aead_ok L" "aead_dec_fits L" "secp_ok L"
    and "lnsocket_create (Some a) sz m0 = (Some ln, m)" "net_ok net"
    and "api_reach L stk (ln, net, m) (ln1, net1, m1)"
  shows "c_start (ln_msgbuf ln1) = a + sz \<and> c_end (ln_msgbuf ln1) = a + sz + MSGBUF_MEM \<and>
    c_p (ln_msgbuf ln1) \<in> {a + sz..a + sz + MSGBUF_MEM} \<and>
    c_start (e_cur (ln_errs ln1)) = a + sz + MSGBUF_MEM \<and> c_end (e_cur (ln_errs ln1)) = a + sz + MSGBUF_MEM + ERROR_MEM \<and>
    c_p (e_cur (ln_errs ln1)) \<in> {a + sz + MSGBUF_MEM..a + sz + MSGBUF_MEM + ERROR_MEM} \<and>
    lnsocket_destroy (Some ln1) = Some a \<and>
    length (cs_sk (ln_crypto_state ln1)) = 32 \<and> length (cs_rk (ln_crypto_state ln1)) = 32 \<and>
    length (cs_s_ck (ln_crypto_state ln1)) = 32 \<and> length (cs_r_ck (ln_crypto_state ln1)) = 32 \<and>
    length (hs_h (ln_handshake ln1)) = 32 \<and> length (hs_ck (ln_handshake ln1)) = 32"
proof -
  note created = created_ok [OF assms(4,5)]
  have ok: "api_ok ln1 net1" "c_start (ln_msgbuf ln1) = a + sz" "c_start (ln_mem ln1) = a"
    using api_reach_ok [OF assms(6,1-3)] created by simp_all
  then have "ln_wf ln1" "keys_ok (ln_crypto_state ln1)" "hs_ok (ln_handshake ln1)" using api_ok_simps by blast+
  then show ?thesis using ok(2,3) by (simp add: ln_wf_def cursor_ok_def keys_ok_def hs_ok_def lnsocket_destroy_def)
qed

theorem connection_invariant_witness:
  "\<exists>ln m ln1 m1 ln2 net2 m2. lnsocket_create (Some 4096) 2000 (\<lambda>_. 3) = (Some ln, m) \<and>
    api_run example_lib 400000 (Call_genkey [replicate 32 4]) ln example_net m = Some ((), ln1, example_net, m1) \<and>
    api_run example_lib 400000 (Call_connect example_os [0, 0] example_id (ascii ''host'') [replicate 32 4]) ln1 example_net m1 =
      Some ((), ln2, net2, m2) \<and>
    c_start (ln_msgbuf ln2) = 4096 + 2000 \<and> c_end (ln_msgbuf ln2) = 4096 + 2000 + MSGBUF_MEM \<and>
    c_p (ln_msgbuf ln2) \<in> {4096 + 2000..4096 + 2000 + MSGBUF_MEM} \<and>
    c_start (e_cur (ln_errs ln2)) = 4096 + 2000 + MSGBUF_MEM \<and> c_end (e_cur (ln_errs ln2)) = 4096 + 2000 + MSGBUF_MEM + ERROR_MEM \<and>
    c_p (e_cur (ln_errs ln2)) \<in> {4096 + 2000 + MSGBUF_MEM..4096 + 2000 + MSGBUF_MEM + ERROR_MEM} \<and>
    lnsocket_destroy (Some ln2) = Some 4096 \<and>
    length (cs_sk (ln_crypto_state ln2)) = 32 \<and> length (cs_rk (ln_crypto_state ln2)) = 32 \<and>
    length (cs_s_ck (ln_crypto_state ln2)) = 32 \<and> length (cs_r_ck (ln_crypto_state ln2)) = 32 \<and>
    length (hs_h (ln_handshake ln2)) = 32 \<and> length (hs_ck (ln_handshake ln2)) = 32"
proof -
  have net: "net_ok example_net" by (simp add: net_ok_def example_net_def)
  obtain ln m ln1 m1 ln2 net2 m2 where t: "lnsocket_create (Some 4096) 2000 (\<lambda>_. 3) = (Some ln, m)"
    "api_run example_lib 400000 (Call_genkey [replicate 32 4]) ln example_net m = Some ((), ln1, example_net, m1)"
    "api_run example_lib 400000 (Call_connect example_os [0, 0] example_id (ascii ''host'') [replicate 32 4]) ln1 example_net m1 =
      Some ((), ln2, net2, m2)"
    "api_reach example_lib 400000 (ln, example_net, m) (ln2, net2, m2)" by (rule example_trace)
  show ?thesis
    using t(1-3) connection_invariant [OF example_lib_ok(1) example_dec_fits example_lib_ok(2) t(1) net t(4)]
    by (intro exI conjI) blast+
qed

end
