(* ===== verification/Client.thy ===== *)
theory Client
  imports Connect "HOL-Library.Sublist"
begin

text \<open>
  What the two programs of the repository, \<open>lnrpc.c\<close> and \<open>test.c\<close>, have in common: they create a
  connection, give it a key, connect, exchange init messages, and then send and receive. The
  lemmas carry the properties of the API from the command line to the first message.
\<close>

section \<open>Receiving\<close>

lemma recv_delivers:
  assumes "aead_ok L" "ln_wf ln" "chan_ok (recv_chan (ln_crypto_state ln))"
    and "bolt8_encrypt L (recv_chan (ln_crypto_state ln)) (be_bytes 2 t @ p) = (packet, ch)"
    and "length p + 2 \<le> 65528" "stream (n_in net) = packet @ rest"
  shows "\<exists>net' m' buf. lnsocket_recv L ln net m =
      Some (Some (t, buf, of_nat (length p)), after_read ln (length p + 2) ch, net', m') \<and>
    mread m' buf (length p) = p \<and> stream (n_in net') = rest \<and> n_sent net' = n_sent net \<and> n_out net' = n_out net"
proof -
  let ?b = "c_start (ln_msgbuf ln) + (length p + 2) + 16" and ?msg = "be_bytes 2 t @ p"
  obtain net' m' where r: "lnsocket_read L ln net m = Some (Some (?b, of_nat (length p + 2)), after_read ln (length p + 2) ch, net', m')"
      "mread m' ?b (length ?msg) = ?msg" "stream (n_in net') = rest" "n_sent net' = n_sent net" "n_out net' = n_out net"
    using read_delivers [OF assms(1-4) _ assms(6), of m] assms(5) by (auto simp: add.commute)
  have l: "unat (of_nat (length p + 2) :: u16) = length p + 2" using assms(5) by (intro of_nat_u16) simp
  have "mread m' ?b 2 = be_bytes 2 t" using arg_cong [OF r(2), of "take 2"] by (simp add: numeral_2_eq_2)
  then have t: "cursor_pull_u16 (lib_order L) (make_cursor ?b (?b + (length p + 2))) m' =
      Some (Some t, \<lparr>c_start = ?b, c_p = ?b + 2, c_end = ?b + (length p + 2)\<rparr>)"
    by (simp add: cursor_pull_u16_def cursor_pull_def make_cursor_def bytes_simps be_word_be_bytes)
  have "of_nat (length p + 2) - 2 = (of_nat (length p) :: u16)" by simp
  moreover have "unat (of_nat (length p) :: u16) = length p" using assms(5) by (intro of_nat_u16) simp
  ultimately have "lnsocket_recv L ln net m =
      Some (Some (t, ?b + 2, of_nat (length p)), after_read ln (length p + 2) ch, net', m')"
    using r(1) t l by (simp add: lnsocket_recv_def Let_def)
  moreover have "mread m' (?b + 2) (length p) = p" using arg_cong [OF r(2), of "drop 2"] by simp
  ultimately show ?thesis using r(3-5) by blast
qed

text \<open>Messages of a type and a payload on the wire.\<close>

fun wire_of :: "'a aead_scheme \<Rightarrow> bolt8_chan \<Rightarrow> (u16 \<times> bytes) list \<Rightarrow> bytes" where
  "wire_of L ch [] = []"
| "wire_of L ch ((t, p) # ms) =
     (case bolt8_encrypt L ch (be_bytes 2 t @ p) of (c, ch) \<Rightarrow> c @ wire_of L ch ms)"

section \<open>A connection in use\<close>

text \<open>The bytes of a buffer are outside the message buffer.\<close>

definition apart :: "lnsocket \<Rightarrow> addr \<Rightarrow> nat \<Rightarrow> bool" where
  "apart ln buf n \<longleftrightarrow> buf + n \<le> c_start (ln_msgbuf ln) \<or> c_end (ln_msgbuf ln) \<le> buf"

text \<open>Connected, writes are taken, and the stack is outside the message buffer.\<close>

definition client_ready :: "addr \<Rightarrow> lnsocket \<Rightarrow> net \<Rightarrow> bool" where
  "client_ready stk ln net \<longleftrightarrow> ln_wf ln \<and> ln_socket ln \<noteq> 0 \<and> chan_ok (send_chan (ln_crypto_state ln)) \<and>
     chan_ok (recv_chan (ln_crypto_state ln)) \<and> n_out net = [] \<and> apart ln stk 0xFFFF"

lemma other_chan [simp]:
  "send_chan (cs\<lparr>cs_rn := n, cs_rk := k, cs_r_ck := c\<rparr>) = send_chan cs"
  "recv_chan (cs\<lparr>cs_sn := n, cs_sk := k, cs_s_ck := c\<rparr>) = recv_chan cs"
  by (simp_all add: send_chan_def recv_chan_def)

lemma client_ready_after_read:
  assumes "client_ready stk ln net" "n_out net' = []" "chan_ok ch" "n \<le> 65528"
  shows "client_ready stk (after_read ln n ch) net'" "recv_chan (ln_crypto_state (after_read ln n ch)) = ch"
    "send_chan (ln_crypto_state (after_read ln n ch)) = send_chan (ln_crypto_state ln)" "apart (after_read ln n ch) = apart ln"
  using assms ln_wf_after_read [of ln n ch]
  by (auto simp: client_ready_def MSGBUF_MEM_def after_read_def apart_def fun_eq_iff)

lemma client_reads:
  assumes "aead_ok L" "client_ready stk ln net" "length p + 2 \<le> 65528"
    and "stream (n_in net) = wire_of L (recv_chan (ln_crypto_state ln)) ((t, p) # ms) @ rest"
  shows "\<exists>ln' net' m' buf. lnsocket_recv L ln net m = Some (Some (t, buf, of_nat (length p)), ln', net', m') \<and>
    mread m' buf (length p) = p \<and> client_ready stk ln' net' \<and>
    stream (n_in net') = wire_of L (recv_chan (ln_crypto_state ln')) ms @ rest \<and> n_sent net' = n_sent net"
proof -
  obtain packet ch where e: "bolt8_encrypt L (recv_chan (ln_crypto_state ln)) (be_bytes 2 t @ p) = (packet, ch)" by force
  have r: "ln_wf ln" "chan_ok (recv_chan (ln_crypto_state ln))" "n_out net = []" using assms(2) by (simp_all add: client_ready_def)
  obtain net' m' buf where d: "lnsocket_recv L ln net m = Some (Some (t, buf, of_nat (length p)), after_read ln (length p + 2) ch, net', m')"
      "mread m' buf (length p) = p" "stream (n_in net') = wire_of L ch ms @ rest" "n_out net' = n_out net" "n_sent net' = n_sent net"
    using recv_delivers [OF assms(1) r(1,2) e assms(3), of net "wire_of L ch ms @ rest" m] assms(4) e by auto
  have ch: "chan_ok ch" using bolt8_encrypt_ok [OF r(2), of L "be_bytes 2 t @ p"] e by simp
  moreover have "n_out net' = []" using d(4) r(3) by simp
  ultimately show ?thesis using d(1,2,3,5) client_ready_after_read [OF assms(2) _ ch assms(3), of net'] by auto
qed

lemma client_writes:
  assumes "aead_ok L" "client_ready stk ln net" "apart ln buf (unat n)"
    and "bolt8_encrypt L (send_chan (ln_crypto_state ln)) (mread m buf (unat n)) = (packet, ch)"
  shows "lnsocket_write L ln buf n net m = Some (True, after_write ln ch, net\<lparr>n_sent := n_sent net @ packet\<rparr>,
      mwrite m (c_start (ln_msgbuf ln)) packet)"
    "client_ready stk (after_write ln ch) (net\<lparr>n_sent := n_sent net @ packet\<rparr>)"
    "send_chan (ln_crypto_state (after_write ln ch)) = ch"
    "recv_chan (ln_crypto_state (after_write ln ch)) = recv_chan (ln_crypto_state ln)"
proof -
  have r: "ln_wf ln" "ln_socket ln \<noteq> 0" "chan_ok (send_chan (ln_crypto_state ln))" "n_out net = []"
    using assms(2) by (simp_all add: client_ready_def)
  have "buf + unat n \<le> c_start (ln_msgbuf ln) \<or> c_start (ln_msgbuf ln) + 18 \<le> buf"
    using r(1) assms(3) by (auto simp: ln_wf_def MSGBUF_MEM_def apart_def)
  from write_sends [OF assms(1) r this assms(4)]
  show "lnsocket_write L ln buf n net m = Some (True, after_write ln ch, net\<lparr>n_sent := n_sent net @ packet\<rparr>,
      mwrite m (c_start (ln_msgbuf ln)) packet)" .
  show recv: "recv_chan (ln_crypto_state (after_write ln ch)) = recv_chan (ln_crypto_state ln)" by (simp add: after_write_def)
  have "chan_ok ch" using bolt8_encrypt_ok [OF r(3)] assms(4) by (metis snd_conv)
  then show "client_ready stk (after_write ln ch) (net\<lparr>n_sent := n_sent net @ packet\<rparr>)"
    "send_chan (ln_crypto_state (after_write ln ch)) = ch"
    using assms(2) recv by (simp_all add: client_ready_def apart_def)
qed

lemma client_inits:
  assumes "aead_ok L" "client_ready stk ln net" "length p0 + 2 \<le> 65528"
    and "stream (n_in net) = wire_of L (recv_chan (ln_crypto_state ln)) ((t0, p0) # ms) @ rest"
    and "bolt8_encrypt L (send_chan (ln_crypto_state ln)) our_init = (c1, ch1)"
  shows "\<exists>ln' net' m'. lnsocket_perform_init L stk ln net m = Some (True, ln', net', m') \<and> n_sent net' = n_sent net @ c1 \<and>
    stream (n_in net') = wire_of L (recv_chan (ln_crypto_state ln')) ms @ rest \<and> send_chan (ln_crypto_state ln') = ch1 \<and>
    client_ready stk ln' net' \<and> apart ln' = apart ln"
proof -
  let ?init = "be_bytes 2 t0 @ p0"
  obtain pk ch where e0: "bolt8_encrypt L (recv_chan (ln_crypto_state ln)) ?init = (pk, ch)" by force
  have r: "ln_wf ln" "ln_socket ln \<noteq> 0" "n_out net = []" "chan_ok (send_chan (ln_crypto_state ln))"
      "chan_ok (recv_chan (ln_crypto_state ln))" "apart ln stk 0xFFFF"
    using assms(2) by (simp_all add: client_ready_def)
  have ch: "chan_ok ch" "chan_ok ch1"
    using bolt8_encrypt_ok [OF r(5), of L ?init] bolt8_encrypt_ok [OF r(4), of L our_init] e0 assms(5) by simp_all
  have stk: "stk + 1024 \<le> c_start (ln_msgbuf ln) \<or> c_end (ln_msgbuf ln) \<le> stk" using r(6) by (auto simp: apart_def)
  have len: "length ?init \<le> 65528" using assms(3) by simp
  have stream: "stream (n_in net) = fst (bolt8_encrypt L (recv_chan (ln_crypto_state ln)) ?init) @ (wire_of L ch ms @ rest)"
    using assms(4) e0 by simp
  obtain ln1 net1 m1 where i: "lnsocket_perform_init L stk ln net m = Some (True, ln1, net1, m1)" "n_sent net1 = n_sent net @ c1"
      "stream (n_in net1) = wire_of L ch ms @ rest"
      "send_chan (ln_crypto_state ln1) = ch1" "recv_chan (ln_crypto_state ln1) = ch" "ln_wf ln1" "ln_socket ln1 = ln_socket ln"
      "n_out net1 = []" "c_start (ln_msgbuf ln1) = c_start (ln_msgbuf ln)" "c_end (ln_msgbuf ln1) = c_end (ln_msgbuf ln)"
    using perform_init_exchanges [OF assms(1) r(1-5) len stream stk, of m, unfolded e0 assms(5) fst_conv snd_conv] by blast
  have "apart ln1 = apart ln" using i(9,10) by (simp add: apart_def fun_eq_iff)
  then show ?thesis using i(1-8) ch r by (auto simp: client_ready_def)
qed

section \<open>Connecting\<close>

text \<open>
  A client with a key meets a node that follows the specification: the connection of
  \<open>lnsocket_create\<close> is connected, nothing is on the wire but the handshake, and the keys are the
  peer's crosswise.
\<close>

definition arena_apart :: "addr \<Rightarrow> nat \<Rightarrow> addr \<Rightarrow> nat \<Rightarrow> bool" where
  "arena_apart a sz buf n \<longleftrightarrow> buf + n \<le> a + sz \<or> a + sz + MSGBUF_MEM \<le> buf"

lemma client_connects:
  assumes "aead_ok L" "secp_ok L"
    and "pubkey_create L (kp_priv ls) = (True, kp_pub ls)"
    and "pubkey_create L (kp_priv re) = (True, kp_pub re)"
    and "pubkey_create L (kp_priv key) = (True, kp_pub key)" "generate_key L rnd = Some (e, rnd')" "\<exists>b \<in> set (kp_priv key). b \<noteq> 0"
    and "os_connects os host None" "0 < os_socket os" "os_socket os < 1024" "arena_apart a sz stk 0xFFFF"
  shows "\<exists>ln0 m0 act1 st1 msg2 st2 act3 rk sk ck.
    lnsocket_create (Some a) sz m = (Some ln0, m0) \<and>
    responder_act_one L (kp_priv ls) (bolt8_start (pubkey_serialize L (kp_pub ls))) act1 = Some st1 \<and>
    responder_act_two L re st1 = (msg2, st2) \<and>
    responder_act_three L re st2 act3 = Some (kp_pub key, rk, sk, ck) \<and>
    (\<forall>net es. n_out net = [] \<and> n_in net = Data msg2 # es \<longrightarrow>
      (\<exists>ln1. lnsocket_connect L os hdr0 (ln0\<lparr>ln_key := key\<rparr>) (hex_encode (pubkey_serialize L (kp_pub ls))) host rnd net m0 =
          Some ((True, rnd', direct_calls os host 3000), ln1, net\<lparr>n_in := es, n_sent := n_sent net @ act1 @ act3\<rparr>, m0) \<and>
        client_ready stk ln1 (net\<lparr>n_in := es, n_sent := n_sent net @ act1 @ act3\<rparr>) \<and> apart ln1 = arena_apart a sz \<and>
        send_chan (ln_crypto_state ln1) = \<lparr>ch_k = rk, ch_ck = ck, ch_n = 0\<rparr> \<and>
        recv_chan (ln_crypto_state ln1) = \<lparr>ch_k = sk, ch_ck = ck, ch_n = 0\<rparr>))"
proof -
  obtain ln0 m0 where create: "lnsocket_create (Some a) sz m = (Some ln0, m0)"
      and ln0: "ln0 = zero_lnsocket\<lparr>ln_msgbuf := make_cursor (a + sz) (a + sz + MSGBUF_MEM),
      ln_errs := \<lparr>e_cur = make_cursor (a + sz + MSGBUF_MEM) (a + sz + MSGBUF_MEM + ERROR_MEM), e_enabled = True\<rparr>,
      ln_mem := \<lparr>c_start = a, c_p = a + sz + MSGBUF_MEM + ERROR_MEM, c_end = a + sz + MSGBUF_MEM + ERROR_MEM\<rparr>\<rparr>"
    using create_eq [of a sz m] by blast
  let ?ln = "ln0\<lparr>ln_key := key, ln_socket := os_socket os\<rparr>"
  have ln: "ln_key ?ln = key" "act_two_shape (ln_handshake ?ln)" "c_start (ln_msgbuf ?ln) = a + sz"
      "c_end (ln_msgbuf ?ln) = a + sz + MSGBUF_MEM" "ln_wf ?ln"
    by (simp_all add: ln0 make_cursor_def ln_wf_def cursor_ok_def)
  have keys: "pubkey_create L (kp_priv (ln_key ?ln)) = (True, kp_pub (ln_key ?ln))" using assms(5) by simp
  from handshake_over_socket [OF assms(1-4) keys assms(6) ln(2), of m0] obtain act1 st1 msg2 st2 act3 rk sk ck where
    peer: "responder_act_one L (kp_priv ls) (bolt8_start (pubkey_serialize L (kp_pub ls))) act1 = Some st1"
      "responder_act_two L re st1 = (msg2, st2)" "responder_act_three L re st2 act3 = Some (kp_pub key, rk, sk, ck)"
    and len: "length rk = 32" "length sk = 32" "length ck = 32"
    and good: "\<And>net es. n_in net = Data msg2 # es \<and> n_out net = [] \<Longrightarrow>
      \<exists>ln'. begin_handshake L ?ln (kp_pub ls) rnd net m0 =
        Some ((True, rnd'), ln', net\<lparr>n_in := es, n_sent := n_sent net @ act1 @ act3\<rparr>, m0) \<and> ln_same ?ln ln' \<and>
        ln_crypto_state ln' = \<lparr>cs_rn = 0, cs_sn = 0, cs_sk = rk, cs_rk = sk, cs_s_ck = ck, cs_r_ck = ck\<rparr>"
    unfolding ln(1) by blast
  have "\<exists>ln1. lnsocket_connect L os hdr0 (ln0\<lparr>ln_key := key\<rparr>) (hex_encode (pubkey_serialize L (kp_pub ls))) host rnd net m0 =
        Some ((True, rnd', direct_calls os host 3000), ln1, net\<lparr>n_in := es, n_sent := n_sent net @ act1 @ act3\<rparr>, m0) \<and>
      client_ready stk ln1 (net\<lparr>n_in := es, n_sent := n_sent net @ act1 @ act3\<rparr>) \<and> apart ln1 = arena_apart a sz \<and>
      send_chan (ln_crypto_state ln1) = \<lparr>ch_k = rk, ch_ck = ck, ch_n = 0\<rparr> \<and>
      recv_chan (ln_crypto_state ln1) = \<lparr>ch_k = sk, ch_ck = ck, ch_n = 0\<rparr>"
    if n: "n_out net = [] \<and> n_in net = Data msg2 # es" for net es
  proof -
    let ?net = "net\<lparr>n_in := es, n_sent := n_sent net @ act1 @ act3\<rparr>"
    from good [of net es] n obtain ln1 where h: "begin_handshake L ?ln (kp_pub ls) rnd net m0 = Some ((True, rnd'), ln1, ?net, m0)"
        "ln_same ?ln ln1" "ln_crypto_state ln1 = \<lparr>cs_rn = 0, cs_sn = 0, cs_sk = rk, cs_rk = sk, cs_s_ck = ck, cs_r_ck = ck\<rparr>" by blast
    have chans: "send_chan (ln_crypto_state ln1) = \<lparr>ch_k = rk, ch_ck = ck, ch_n = 0\<rparr>"
        "recv_chan (ln_crypto_state ln1) = \<lparr>ch_k = sk, ch_ck = ck, ch_n = 0\<rparr>"
      using h(3) by (simp_all add: send_chan_def recv_chan_def)
    have away: "apart ln1 = arena_apart a sz"
      using h(2) ln(3,4) by (simp add: apart_def arena_apart_def ln_same_def fun_eq_iff)
    have "client_ready stk ln1 ?net"
      using h(2) ln(5) assms(9,11) n len away by (simp add: client_ready_def chans chan_ok_def ln_same_def ln_wf_def)
    moreover have "lnsocket_connect L os hdr0 (ln0\<lparr>ln_key := key\<rparr>) (hex_encode (pubkey_serialize L (kp_pub ls))) host rnd net m0 =
        Some ((True, rnd', direct_calls os host 3000), ln1, ?net, m0)"
      using connect_begins [OF assms(2,3) _ assms(8-10), of "ln0\<lparr>ln_key := key\<rparr>"] assms(7) h(1) by simp
    ultimately show ?thesis using chans away by blast
  qed
  then show ?thesis using create peer by blast
qed

end
