(* ===== verification/Lnrpc.thy ===== *)
theory Lnrpc
  imports Client
begin

text \<open>
  The command line client \<open>lnrpc.c\<close>: it connects with a fresh key, sends one commando request and
  prints the reply, which comes in parts, between other messages of the node. Modelled are its
  exit code and what it prints on \<open>stdout\<close>; messages on \<open>stderr\<close> are left out.
\<close>

section \<open>The program\<close>

definition usage_text :: bytes where
  "usage_text =
     ascii ''lnrpc <nodeid> <ip/hostname> <rune> <method>  [params (json string)]'' @ [10, 10] @
     ascii ''currently supports commando for clightning, but potentially more rpc types in the future!'' @ [10]"

text \<open>
  \<open>printf("%.*s", prec, s)\<close>: up to \<open>prec\<close> bytes of a string; with a negative precision all of it, a
  crash when no NUL comes before the end of the allocation.
\<close>

definition printf_str :: "mem \<Rightarrow> int \<Rightarrow> addr \<Rightarrow> addr \<Rightarrow> bytes option" where
  "printf_str m prec s limit =
     (if 0 \<le> prec then Some (takeWhile (\<lambda>c. c \<noteq> 0) (mread m s (nat prec)))
      else if 0 \<in> set (mread m s (limit - s)) then Some (takeWhile (\<lambda>c. c \<noteq> 0) (mread m s (limit - s)))
      else None)"

text \<open>
  The loop, on the results of its \<open>select\<close> calls; when they are over, so is the time. The result is
  \<open>ok\<close> and what was printed.
\<close>

fun rpc_loop :: "'a aead_scheme \<Rightarrow> addr \<Rightarrow> int list \<Rightarrow> lnsocket \<Rightarrow> net \<Rightarrow> mem \<Rightarrow> (bool \<times> bytes) io" where
  "rpc_loop L stk [] ln net m = Some ((False, []), ln, net, m)"
| "rpc_loop L stk (rv # sel) ln net m =
     (if rv = - 1 then Some ((False, []), ln, net, m)
      else if rv = 0 then Some ((False, []), ln, net, m)
      else do {
        (r, ln, net, m) \<leftarrow> lnsocket_recv L ln net m;
        case r of
          None \<Rightarrow> Some ((False, []), ln, net, m)
        | Some (msgtype, buf, len) \<Rightarrow>
            (if msgtype = COMMANDO_REPLY_TERM then do {
               text \<leftarrow> printf_str m (uint len - 8) (buf + 8) (c_end (e_cur (ln_errs ln)));
               Some ((True, text @ [10]), ln, net, m) }
             else if msgtype = COMMANDO_REPLY_CONTINUES then do {
               text \<leftarrow> printf_str m (uint len - 8) (buf + 8) (c_end (e_cur (ln_errs ln)));
               ((ok, out), ln, net, m) \<leftarrow> rpc_loop L stk sel ln net m;
               Some ((ok, text @ out), ln, net, m) }
             else if msgtype = WIRE_PING then do {
               (_, ln, net, m) \<leftarrow> lnsocket_pong L stk ln buf len net m;
               rpc_loop L stk sel ln net m }
             else rpc_loop L stk sel ln net m) })"

text \<open>
  \<open>argv\<close> with the program's name first, \<open>argv[argc]\<close> is a null pointer. \<open>arena\<close> and \<open>struct_size\<close> are
  as in \<open>lnsocket_create\<close>, \<open>sbuf\<close> is the address of the static buffer and \<open>stk\<close> that of the stack
  frames of the calls. The result is the exit code, the output, and the socket.
\<close>

definition lnrpc_main ::
  "'a lib_scheme \<Rightarrow> os \<Rightarrow> bytes \<Rightarrow> bytes list \<Rightarrow> addr option \<Rightarrow> nat \<Rightarrow> addr \<Rightarrow> addr \<Rightarrow> bytes list \<Rightarrow> int list \<Rightarrow> net \<Rightarrow> mem
    \<Rightarrow> (int \<times> bytes \<times> net) option" where
  "lnrpc_main L os hdr0 argv arena struct_size sbuf stk rnd sel net m =
     (if length argv < 5 then Some (0, usage_text, net)
      else case lnsocket_create arena struct_size m of
        (None, _) \<Rightarrow> None
      | (Some ln, m) \<Rightarrow> do {
          let finish = (\<lambda>ok out net. Some (if ok then 0 else 1, out, net));
          (ln, rnd) \<leftarrow> lnsocket_genkey L ln rnd;
          let nodeid = argv ! 1;
          let host = argv ! 2;
          let rune = argv ! 3;
          let cmd = argv ! 4;
          let params = (if length argv < 7 then (if length argv = 5 then None else Some (argv ! 5)) else None);
          ((ok, rnd, tr), ln, net, m) \<leftarrow> lnsocket_connect L os hdr0 ln nodeid host rnd net m;
          if \<not> ok then finish False [] net
          else do {
            (ok, ln, net, m) \<leftarrow> lnsocket_perform_init L stk ln net m;
            if \<not> ok then finish False [] net
            else do {
              (n, m) \<leftarrow> commando_make_rpc_msg (lib_order L) cmd params rune 1 sbuf 4096 m;
              let len = (of_nat n :: u16);
              if len = 0 then finish False [] net
              else do {
                (ok, ln, net, m) \<leftarrow> lnsocket_write L ln sbuf len net m;
                if \<not> ok then finish False [] net
                else do {
                  ((ok, out), ln, net, m) \<leftarrow> rpc_loop L stk sel ln net m;
                  finish ok out net } } } } })"

section \<open>The reply\<close>

text \<open>What is printed of a message.\<close>

definition reply_text :: "u16 \<times> bytes \<Rightarrow> bytes" where
  "reply_text = (\<lambda>(t, p). if t = COMMANDO_REPLY_CONTINUES \<or> t = COMMANDO_REPLY_TERM
     then takeWhile (\<lambda>c. c \<noteq> 0) (drop 8 p) else [])"

definition node_message :: "u16 \<times> bytes \<Rightarrow> bool" where
  "node_message = (\<lambda>(t, p). length p \<le> 65526 \<and>
     (t = COMMANDO_REPLY_CONTINUES \<or> t = COMMANDO_REPLY_TERM \<longrightarrow> 8 \<le> length p))"

lemma pong_ready:
  assumes "aead_ok L" "client_ready stk ln net"
  shows "\<exists>ok ln' net' m'. lnsocket_pong L stk ln ping n net m = Some (ok, ln', net', m') \<and> client_ready stk ln' net' \<and>
    n_in net' = n_in net \<and> recv_chan (ln_crypto_state ln') = recv_chan (ln_crypto_state ln) \<and> prefix (n_sent net) (n_sent net')"
proof -
  obtain len m1 where p: "lnsocket_make_pong_from_ping (lib_order L) stk 0xFFFF ping (unat n) m = Some (len, m1)"
    using make_pong_from_ping_total by blast
  show ?thesis
  proof (cases "len = 0")
    case True
    then show ?thesis using p assms(2) by (auto simp: lnsocket_pong_def)
  next
    case False
    obtain packet ch where e: "bolt8_encrypt L (send_chan (ln_crypto_state ln)) (mread m1 stk (unat (of_nat len :: u16))) = (packet, ch)"
      by force
    have "unat (of_nat len :: u16) < 2 ^ LENGTH(16)" by (rule unsigned_less)
    then have "apart ln stk (unat (of_nat len :: u16))" using assms(2) by (auto simp: client_ready_def apart_def)
    from client_writes [OF assms this e] p False show ?thesis by (auto simp: lnsocket_pong_def)
  qed
qed

text \<open>One message of the node.\<close>

lemma recv_one:
  assumes "aead_ok L" "client_ready stk ln net" "node_message (t, p)"
    and "stream (n_in net) = wire_of L (recv_chan (ln_crypto_state ln)) ((t, p) # ms) @ rest"
  shows "\<exists>ln' net' m' buf. lnsocket_recv L ln net m = Some (Some (t, buf, of_nat (length p)), ln', net', m') \<and>
    (t = COMMANDO_REPLY_CONTINUES \<or> t = COMMANDO_REPLY_TERM \<longrightarrow>
      (\<forall>limit. printf_str m' (uint (of_nat (length p) :: u16) - 8) (buf + 8) limit = Some (reply_text (t, p)))) \<and>
    client_ready stk ln' net' \<and> stream (n_in net') = wire_of L (recv_chan (ln_crypto_state ln')) ms @ rest \<and>
    n_sent net' = n_sent net"
proof -
  have len: "length p + 2 \<le> 65528" using assms(3) by (simp add: node_message_def)
  obtain ln' net' m' buf where d: "lnsocket_recv L ln net m = Some (Some (t, buf, of_nat (length p)), ln', net', m')"
      "mread m' buf (length p) = p" "client_ready stk ln' net'"
      "stream (n_in net') = wire_of L (recv_chan (ln_crypto_state ln')) ms @ rest" "n_sent net' = n_sent net"
    using client_reads [OF assms(1,2) len assms(4), of m] by blast
  have u: "uint (of_nat (length p) :: u16) = int (length p)"
    using of_nat_u16 [of "length p"] len by (simp add: uint_nat)
  have "mread m' (buf + 8) (length p - 8) = drop 8 p" using arg_cong [OF d(2), of "drop 8"] by simp
  then have "t = COMMANDO_REPLY_CONTINUES \<or> t = COMMANDO_REPLY_TERM \<longrightarrow>
      printf_str m' (uint (of_nat (length p) :: u16) - 8) (buf + 8) limit = Some (reply_text (t, p))" for limit
    unfolding u using assms(3) by (auto simp: printf_str_def reply_text_def nat_diff_distrib node_message_def)
  then show ?thesis using d(1,3-5) by blast
qed

lemma rpc_loop_prints:
  assumes "aead_ok L" "client_ready stk ln net" "\<forall>x \<in> set ms. node_message x \<and> fst x \<noteq> COMMANDO_REPLY_TERM"
    and "node_message (COMMANDO_REPLY_TERM, p)" "length ms < length sel" "\<forall>rv \<in> set sel. rv \<noteq> - 1 \<and> rv \<noteq> 0"
    and "stream (n_in net) = wire_of L (recv_chan (ln_crypto_state ln)) (ms @ [(COMMANDO_REPLY_TERM, p)]) @ rest"
  shows "\<exists>ln' net' m'. rpc_loop L stk sel ln net m =
      Some ((True, concat (map reply_text ms) @ reply_text (COMMANDO_REPLY_TERM, p) @ [10]), ln', net', m') \<and>
    stream (n_in net') = rest \<and> prefix (n_sent net) (n_sent net')"
  using assms(2,3,5-7)
proof (induction ms arbitrary: sel ln net m)
  case Nil
  obtain rv sel' where "sel = rv # sel'" "rv \<noteq> - 1" "rv \<noteq> 0" using Nil.prems(3,4) by (cases sel) auto
  then show ?case using recv_one [OF assms(1) Nil.prems(1) assms(4), of "[]" rest m] Nil.prems(5) by fastforce
next
  case (Cons x ms)
  obtain t q where x: "x = (t, q)" by force
  obtain rv sel' where sel: "sel = rv # sel'" "rv \<noteq> - 1" "rv \<noteq> 0" using Cons.prems(3,4) by (cases sel) auto
  have t: "node_message (t, q)" "t \<noteq> COMMANDO_REPLY_TERM" using Cons.prems(2) x by auto
  obtain ln1 net1 m1 buf where r: "lnsocket_recv L ln net m = Some (Some (t, buf, of_nat (length q)), ln1, net1, m1)"
      "t = COMMANDO_REPLY_CONTINUES \<longrightarrow>
        (\<forall>limit. printf_str m1 (uint (of_nat (length q) :: u16) - 8) (buf + 8) limit = Some (reply_text (t, q)))"
      "client_ready stk ln1 net1" "n_sent net1 = n_sent net"
      "stream (n_in net1) = wire_of L (recv_chan (ln_crypto_state ln1)) (ms @ [(COMMANDO_REPLY_TERM, p)]) @ rest"
    using recv_one [OF assms(1) Cons.prems(1) t(1), of "ms @ [(COMMANDO_REPLY_TERM, p)]" rest m] Cons.prems(5) x by auto
  have go: "\<exists>ln' net' m'. rpc_loop L stk sel' ln2 net2 m2 =
        Some ((True, concat (map reply_text ms) @ reply_text (COMMANDO_REPLY_TERM, p) @ [10]), ln', net', m') \<and>
      stream (n_in net') = rest \<and> prefix (n_sent net) (n_sent net')"
    if "client_ready stk ln2 net2" "n_in net2 = n_in net1" "recv_chan (ln_crypto_state ln2) = recv_chan (ln_crypto_state ln1)"
      "prefix (n_sent net1) (n_sent net2)"
    for ln2 net2 m2
    using Cons.IH [OF that(1), of sel' m2] Cons.prems(2-4) sel r(4,5) that(2-4)
    by (auto simp: r(4))
  consider (continues) "t = COMMANDO_REPLY_CONTINUES" | (ping) "t = WIRE_PING" "t \<noteq> COMMANDO_REPLY_CONTINUES"
    | (other) "t \<noteq> WIRE_PING" "t \<noteq> COMMANDO_REPLY_CONTINUES" by blast
  then show ?case
  proof cases
    case continues
    then show ?thesis using r(1,2) t(2) sel x go [OF r(3) refl refl prefix_order.refl, of m1] by fastforce
  next
    case ping
    obtain ok ln2 net2 m2 where "lnsocket_pong L stk ln1 buf (of_nat (length q)) net1 m1 = Some (ok, ln2, net2, m2)"
        "client_ready stk ln2 net2" "n_in net2 = n_in net1" "recv_chan (ln_crypto_state ln2) = recv_chan (ln_crypto_state ln1)"
        "prefix (n_sent net1) (n_sent net2)"
      using pong_ready [OF assms(1) r(3)] by blast
    then show ?thesis using r(1) t(2) sel x ping go [of ln2 net2 m2] by (auto simp: reply_text_def)
  next
    case other
    then show ?thesis using r(1) t(2) sel x go [OF r(3) refl refl prefix_order.refl, of m1] by (auto simp: reply_text_def)
  qed
qed

section \<open>The whole program\<close>

definition request :: "bytes \<Rightarrow> bytes option \<Rightarrow> bytes \<Rightarrow> bytes" where
  "request cmd params rune = be_bytes 2 COMMANDO_CMD @ be_bytes 8 (1 :: u64) @ commando_json cmd (commando_params params) rune"

text \<open>From a connection on: init, the request, the reply.\<close>

lemma rpc_session:
  assumes "aead_ok L" "client_ready stk ln net" "apart ln sbuf 4096"
    and "length (request cmd params rune) < 4096" "length p0 + 2 \<le> 65528"
    and "\<forall>x \<in> set ms. node_message x \<and> fst x \<noteq> COMMANDO_REPLY_TERM" "node_message (COMMANDO_REPLY_TERM, p)"
    and "length ms < length sel" "\<forall>rv \<in> set sel. rv \<noteq> - 1 \<and> rv \<noteq> 0"
    and "stream (n_in net) = wire_of L (recv_chan (ln_crypto_state ln)) ((t0, p0) # ms @ [(COMMANDO_REPLY_TERM, p)]) @ rest"
    and "bolt8_encrypt L (send_chan (ln_crypto_state ln)) our_init = (c1, ch1)"
    and "bolt8_encrypt L ch1 (request cmd params rune) = (c2, ch2)"
  shows "\<exists>ln1 net1 m1 n m2 ln2 net2 m3 ln3 net3 m4.
    lnsocket_perform_init L stk ln net m = Some (True, ln1, net1, m1) \<and>
    commando_make_rpc_msg (lib_order L) cmd params rune 1 sbuf 4096 m1 = Some (n, m2) \<and> (of_nat n :: u16) \<noteq> 0 \<and>
    lnsocket_write L ln1 sbuf (of_nat n) net1 m2 = Some (True, ln2, net2, m3) \<and>
    rpc_loop L stk sel ln2 net2 m3 =
      Some ((True, concat (map reply_text ms) @ reply_text (COMMANDO_REPLY_TERM, p) @ [10]), ln3, net3, m4) \<and>
    stream (n_in net3) = rest \<and> prefix (n_sent net @ c1 @ c2) (n_sent net3)"
proof -
  let ?req = "request cmd params rune"
  obtain ln1 net1 m1 where i: "lnsocket_perform_init L stk ln net m = Some (True, ln1, net1, m1)" "n_sent net1 = n_sent net @ c1"
      "stream (n_in net1) = wire_of L (recv_chan (ln_crypto_state ln1)) (ms @ [(COMMANDO_REPLY_TERM, p)]) @ rest"
      "send_chan (ln_crypto_state ln1) = ch1" "client_ready stk ln1 net1" "apart ln1 = apart ln"
    using client_inits [OF assms(1,2,5,10,11), of m] by blast
  obtain m2 where c: "commando_make_rpc_msg (lib_order L) cmd params rune 1 sbuf 4096 m1 = Some (length ?req, m2)"
      "mread m2 sbuf (length ?req) = ?req"
    using commando_eq [where meth = cmd and params = params and rune = rune and req_id = 1 and bo = "lib_order L" and buf = sbuf
        and buflen = 4096 and m = m1] assms(4) by (auto simp: request_def wrote_def)
  have n: "unat (of_nat (length ?req) :: u16) = length ?req" using assms(4) by (intro of_nat_u16) simp
  have "length ?req \<noteq> 0" by (simp add: request_def)
  then have nz: "(of_nat (length ?req) :: u16) \<noteq> 0" using n by auto
  have away: "apart ln1 sbuf (unat (of_nat (length ?req) :: u16))"
    using assms(3,4) unfolding n i(6) by (auto simp: apart_def)
  have "bolt8_encrypt L (send_chan (ln_crypto_state ln1)) (mread m2 sbuf (unat (of_nat (length ?req) :: u16))) = (c2, ch2)"
    using assms(12) unfolding n c(2) i(4) .
  note w = client_writes [OF assms(1) i(5) away this]
  obtain ln3 net3 m4 where "rpc_loop L stk sel (after_write ln1 ch2) (net1\<lparr>n_sent := n_sent net1 @ c2\<rparr>) (mwrite m2 (c_start (ln_msgbuf ln1)) c2) =
      Some ((True, concat (map reply_text ms) @ reply_text (COMMANDO_REPLY_TERM, p) @ [10]), ln3, net3, m4)"
      "stream (n_in net3) = rest" "prefix (n_sent net1 @ c2) (n_sent net3)"
    using rpc_loop_prints [OF assms(1) w(2) assms(6-9), of rest "mwrite m2 (c_start (ln_msgbuf ln1)) c2"] i(3) w(4) by auto
  then show ?thesis using i(1,2) c(1) nz w(1) by auto
qed

section \<open>Properties\<close>

text \<open>C3: The program from end to end: called with a node's id, address, rune, method and parameters, against a
  peer that follows BOLT 8, sends an init message and then the reply in any number of parts, with
  pings and other messages between them and the stream cut at will after Act Two, \<open>lnrpc\<close> sends the
  handshake, our init message and the request (pongs may follow), prints the text of the parts in
  order and a newline, exits with 0, and leaves what follows on the wire.\<close>

theorem lnrpc_prints_reply:
  assumes "aead_ok L" "secp_ok L"
    and "pubkey_create L (kp_priv ls) = (True, kp_pub ls)"
    and "pubkey_create L (kp_priv re) = (True, kp_pub re)"
    and "generate_key L rnd = Some (key, rnd1)" "generate_key L rnd1 = Some (e, rnd2)" "\<exists>b \<in> set (kp_priv key). b \<noteq> 0"
    and "os_connects os host None" "0 < os_socket os" "os_socket os < 1024"
    and "stk + 0xFFFF \<le> a + sz \<or> a + sz + MSGBUF_MEM \<le> stk" "sbuf + 4096 \<le> a + sz \<or> a + sz + MSGBUF_MEM \<le> sbuf"
    and "length (request cmd (Some params) rune) < 4096" "length p0 + 2 \<le> 65528"
    and "\<forall>x \<in> set ms. node_message x \<and> fst x \<noteq> COMMANDO_REPLY_TERM" "node_message (COMMANDO_REPLY_TERM, p)"
    and "length ms < length sel" "\<forall>rv \<in> set sel. rv \<noteq> - 1 \<and> rv \<noteq> 0"
  shows "\<exists>act1 st1 msg2 st2 act3 rk sk ck.
    responder_act_one L (kp_priv ls) (bolt8_start (pubkey_serialize L (kp_pub ls))) act1 = Some st1 \<and>
    responder_act_two L re st1 = (msg2, st2) \<and>
    responder_act_three L re st2 act3 = Some (kp_pub key, rk, sk, ck) \<and>
    (\<forall>net es rest. n_out net = [] \<longrightarrow> n_in net = Data msg2 # es \<longrightarrow>
      stream es = wire_of L \<lparr>ch_k = sk, ch_ck = ck, ch_n = 0\<rparr> ((t0, p0) # ms @ [(COMMANDO_REPLY_TERM, p)]) @ rest \<longrightarrow>
      (\<exists>net'. lnrpc_main L os hdr0 [ascii ''lnrpc'', hex_encode (pubkey_serialize L (kp_pub ls)), host, rune, cmd, params]
            (Some a) sz sbuf stk rnd sel net m =
          Some (0, concat (map reply_text ms) @ reply_text (COMMANDO_REPLY_TERM, p) @ [10], net') \<and>
        stream (n_in net') = rest \<and>
        prefix (n_sent net @ act1 @ act3 @ wire_of L \<lparr>ch_k = rk, ch_ck = ck, ch_n = 0\<rparr>
            [(16, drop 2 our_init), (COMMANDO_CMD, drop 2 (request cmd (Some params) rune))]) (n_sent net')))"
proof -
  let ?req = "request cmd (Some params) rune" and ?out = "concat (map reply_text ms) @ reply_text (COMMANDO_REPLY_TERM, p) @ [10]"
    and ?id = "hex_encode (pubkey_serialize L (kp_pub ls))"
  have "arena_apart a sz stk 0xFFFF" using assms(11) by (simp add: arena_apart_def)
  from client_connects [OF assms(1-4) generate_key_valid [OF assms(5)] assms(6-10) this, of m hdr0] obtain ln0 m0 act1 st1 msg2 st2 act3 rk sk ck where
    create: "lnsocket_create (Some a) sz m = (Some ln0, m0)"
    and peer: "responder_act_one L (kp_priv ls) (bolt8_start (pubkey_serialize L (kp_pub ls))) act1 = Some st1"
      "responder_act_two L re st1 = (msg2, st2)" "responder_act_three L re st2 act3 = Some (kp_pub key, rk, sk, ck)"
    and good: "\<And>net es. n_out net = [] \<and> n_in net = Data msg2 # es \<Longrightarrow>
      \<exists>ln1. lnsocket_connect L os hdr0 (ln0\<lparr>ln_key := key\<rparr>) ?id host rnd1 net m0 =
          Some ((True, rnd2, direct_calls os host 3000), ln1, net\<lparr>n_in := es, n_sent := n_sent net @ act1 @ act3\<rparr>, m0) \<and>
        client_ready stk ln1 (net\<lparr>n_in := es, n_sent := n_sent net @ act1 @ act3\<rparr>) \<and> apart ln1 = arena_apart a sz \<and>
        send_chan (ln_crypto_state ln1) = \<lparr>ch_k = rk, ch_ck = ck, ch_n = 0\<rparr> \<and>
        recv_chan (ln_crypto_state ln1) = \<lparr>ch_k = sk, ch_ck = ck, ch_n = 0\<rparr>"
    by blast
  let ?s = "\<lparr>ch_k = rk, ch_ck = ck, ch_n = 0\<rparr>" and ?r = "\<lparr>ch_k = sk, ch_ck = ck, ch_n = 0\<rparr>"
  obtain c1 ch1 c2 ch2 where c: "bolt8_encrypt L ?s our_init = (c1, ch1)" "bolt8_encrypt L ch1 ?req = (c2, ch2)" by (meson surj_pair)
  have "be_bytes 2 (16 :: u16) @ drop 2 our_init = our_init" "be_bytes 2 COMMANDO_CMD @ drop 2 ?req = ?req"
    by (simp_all add: our_init_def request_def be_bytes_234)
  then have sent: "wire_of L ?s [(16, drop 2 our_init), (COMMANDO_CMD, drop 2 ?req)] = c1 @ c2" using c by simp
  have "\<exists>net'. lnrpc_main L os hdr0 [ascii ''lnrpc'', ?id, host, rune, cmd, params]
            (Some a) sz sbuf stk rnd sel net m = Some (0, ?out, net') \<and>
        stream (n_in net') = rest \<and> prefix (n_sent net @ act1 @ act3 @ wire_of L ?s
          [(16, drop 2 our_init), (COMMANDO_CMD, drop 2 ?req)]) (n_sent net')"
    if n: "n_out net = []" "n_in net = Data msg2 # es"
      "stream es = wire_of L ?r ((t0, p0) # ms @ [(COMMANDO_REPLY_TERM, p)]) @ rest" for net es rest
  proof -
    let ?net = "net\<lparr>n_in := es, n_sent := n_sent net @ act1 @ act3\<rparr>"
    obtain ln1 where h: "lnsocket_connect L os hdr0 (ln0\<lparr>ln_key := key\<rparr>) ?id host rnd1 net m0 =
          Some ((True, rnd2, direct_calls os host 3000), ln1, ?net, m0)" "client_ready stk ln1 ?net"
        "apart ln1 = arena_apart a sz" "send_chan (ln_crypto_state ln1) = ?s" "recv_chan (ln_crypto_state ln1) = ?r"
      using good [of net es] n by blast
    have sbuf: "apart ln1 sbuf 4096" using assms(12) h(3) by (simp add: arena_apart_def)
    have stream: "stream (n_in ?net) = wire_of L (recv_chan (ln_crypto_state ln1)) ((t0, p0) # ms @ [(COMMANDO_REPLY_TERM, p)]) @ rest"
      using n(3) h(5) by simp
    obtain ln2 net2 m2 k m3 ln3 net3 m4 ln4 net4 m5 where "lnsocket_perform_init L stk ln1 ?net m0 = Some (True, ln2, net2, m2)"
        "commando_make_rpc_msg (lib_order L) cmd (Some params) rune 1 sbuf 4096 m2 = Some (k, m3)" "(of_nat k :: u16) \<noteq> 0"
        "lnsocket_write L ln2 sbuf (of_nat k) net2 m3 = Some (True, ln3, net3, m4)"
        "rpc_loop L stk sel ln3 net3 m4 = Some ((True, ?out), ln4, net4, m5)"
        "stream (n_in net4) = rest" "prefix (n_sent ?net @ c1 @ c2) (n_sent net4)"
      using rpc_session [OF assms(1) h(2) sbuf assms(13-18) stream c [folded h(4)], of m0] by blast
    moreover have "lnsocket_genkey L ln0 rnd = Some (ln0\<lparr>ln_key := key\<rparr>, rnd1)" using assms(5) by (simp add: lnsocket_genkey_def)
    ultimately show ?thesis using create h(1) unfolding sent by (simp add: lnrpc_main_def)
  qed
  then show ?thesis using peer by blast
qed

definition example_reply :: "(u16 \<times> bytes) list" where
  "example_reply = [(COMMANDO_REPLY_CONTINUES, [0, 0, 0, 0, 0, 0, 0, 1] @ ascii ''{\"id\":''), (WIRE_PING, [0, 4, 0, 0])]"

theorem lnrpc_prints_reply_witness:
  "\<exists>act1 st1 msg2 st2 act3 rk sk ck.
    responder_act_one example_lib (kp_priv (example_pair 2))
      (bolt8_start (pubkey_serialize example_lib (kp_pub (example_pair 2)))) act1 = Some st1 \<and>
    responder_act_two example_lib (example_pair 3) st1 = (msg2, st2) \<and>
    responder_act_three example_lib (example_pair 3) st2 act3 = Some (kp_pub (example_pair 5), rk, sk, ck) \<and>
    (\<forall>net es rest. n_out net = [] \<longrightarrow> n_in net = Data msg2 # es \<longrightarrow>
      stream es = wire_of example_lib \<lparr>ch_k = sk, ch_ck = ck, ch_n = 0\<rparr>
        ((16, [0, 0, 0, 0]) # example_reply @ [(COMMANDO_REPLY_TERM, [0, 0, 0, 0, 0, 0, 0, 1] @ ascii ''7}'')]) @ rest \<longrightarrow>
      (\<exists>net'. lnrpc_main example_lib example_os [0, 0] [ascii ''lnrpc'', hex_encode (pubkey_serialize example_lib (kp_pub (example_pair 2))),
            ascii ''127.0.0.1'', ascii ''rune'', ascii ''getinfo'', ascii ''{}'']
            (Some 4096) 2000 1000000 500000 [replicate 32 5, replicate 32 4] [1, 1, 1] net (\<lambda>_. 0) =
          Some (0, concat (map reply_text example_reply) @
            reply_text (COMMANDO_REPLY_TERM, [0, 0, 0, 0, 0, 0, 0, 1] @ ascii ''7}'') @ [10], net') \<and>
        stream (n_in net') = rest \<and>
        prefix (n_sent net @ act1 @ act3 @ wire_of example_lib \<lparr>ch_k = rk, ch_ck = ck, ch_n = 0\<rparr>
            [(16, drop 2 our_init), (COMMANDO_CMD, drop 2 (request (ascii ''getinfo'') (Some (ascii ''{}'')) (ascii ''rune'')))])
          (n_sent net')))"
proof (rule lnrpc_prints_reply [OF example_lib_ok])
  show "pubkey_create example_lib (kp_priv (example_pair 2)) = (True, kp_pub (example_pair 2))"
    and "pubkey_create example_lib (kp_priv (example_pair 3)) = (True, kp_pub (example_pair 3))"
    by (rule example_pair_valid, simp)+
  show "generate_key example_lib [replicate 32 5, replicate 32 4] = Some (example_pair 5, [replicate 32 4])"
    using example_pair_valid [of 5] by (simp add: example_pair_def)
  show "generate_key example_lib [replicate 32 4] = Some (example_pair 4, [])"
    using example_pair_valid [of 4] by (simp add: example_pair_def)
  show "\<exists>b \<in> set (kp_priv (example_pair 5)). b \<noteq> 0" by (simp add: example_pair_def)
  show "os_connects example_os (ascii ''127.0.0.1'') None" "0 < os_socket example_os" "os_socket example_os < 1024"
    by (simp_all add: example_os_def os_connects_def peer_address_def case_prod_beta)
  show "length (request (ascii ''getinfo'') (Some (ascii ''{}'')) (ascii ''rune'')) < 4096"
    by (simp add: request_def commando_json_def commando_params_def)
  show "\<forall>x \<in> set example_reply. node_message x \<and> fst x \<noteq> COMMANDO_REPLY_TERM"
    "node_message (COMMANDO_REPLY_TERM, [0, 0, 0, 0, 0, 0, 0, 1] @ ascii ''7}'')" "length example_reply < length [1, 1, 1 :: int]"
    by (simp_all add: example_reply_def node_message_def WIRE_PING_def COMMANDO_REPLY_TERM_def COMMANDO_REPLY_CONTINUES_def)
qed (simp_all add: MSGBUF_MEM_def)

end
