(* ===== verification/Test_Program.thy ===== *)
theory Test_Program
  imports Client
begin

text \<open>
  The program \<open>test.c\<close>: it connects to a node on the network with a random key, sends a ping and
  waits for the pong. Modelled are its exit code and its standard output.
\<close>

section \<open>The program\<close>

text \<open>\<open>print_data\<close>: two lower case digits for each byte.\<close>

definition print_data :: "mem \<Rightarrow> addr \<Rightarrow> nat \<Rightarrow> bytes" where
  "print_data m buf len = hex_encode (mread m buf len) @ [10]"

definition test_nodeid :: bytes where
  "test_nodeid = ascii ''03f3c108ccd536b8526841f0a5c58212bb9e6584a1eb493080e7c1cc34f82dad71''"

text \<open>The loop, for the packets left: \<open>ok\<close> and what was printed.\<close>

fun test_loop :: "'a aead_scheme \<Rightarrow> nat \<Rightarrow> lnsocket \<Rightarrow> net \<Rightarrow> mem \<Rightarrow> (bool \<times> bytes) io" where
  "test_loop L 0 ln net m = Some ((True, []), ln, net, m)"
| "test_loop L (Suc packets) ln net m = do {
     (r, ln, net, m) \<leftarrow> lnsocket_recv L ln net m;
     case r of
       None \<Rightarrow> Some ((False, []), ln, net, m)
     | Some (msgtype, buf, len) \<Rightarrow>
         (if msgtype = WIRE_PONG then
            Some ((True, ascii ''got pong! '' @ print_data m buf (unat len)), ln, net, m)
          else test_loop L packets ln net m) }"

text \<open>
  \<open>msgbuf\<close> is the address of the static buffer; the other parameters are those of \<open>lnrpc_main\<close>. A
  failing \<open>assert\<close> is a crash.
\<close>

definition test_main ::
  "'a lib_scheme \<Rightarrow> os \<Rightarrow> bytes \<Rightarrow> addr option \<Rightarrow> nat \<Rightarrow> addr \<Rightarrow> addr \<Rightarrow> bytes list \<Rightarrow> net \<Rightarrow> mem
    \<Rightarrow> (int \<times> bytes \<times> net) option" where
  "test_main L os hdr0 arena struct_size msgbuf stk rnd net m =
     (case lnsocket_create arena struct_size m of
        (None, _) \<Rightarrow> None
      | (Some ln, m) \<Rightarrow> do {
          let finish = (\<lambda>ok out net. Some (if ok then 0 else 1, out, net));
          let (set, ln) = lnsocket_setkey L ln (replicate 32 0);
          if set then finish False [] net
          else case rnd of
            [] \<Rightarrow> None
          | key # rnd \<Rightarrow> do {
              let (ok, ln) = lnsocket_setkey L ln key;
              if \<not> ok then finish False [] net
              else do {
                ((ok, rnd, tr), ln, net, m) \<leftarrow> lnsocket_connect L os hdr0 ln test_nodeid (ascii ''24.84.152.187'') rnd net m;
                if \<not> ok then finish False [] net
                else do {
                  (ok, ln, net, m) \<leftarrow> lnsocket_perform_init L stk ln net m;
                  if \<not> ok then finish False [] net
                  else do {
                    let out = ascii ''init ok!'' @ [10];
                    (n, m) \<leftarrow> lnsocket_make_ping_msg (lib_order L) msgbuf 4096 1 1 m;
                    let len = (of_nat n :: u16);
                    if len = 0 then finish False out net
                    else do {
                      (ok, ln, net, m) \<leftarrow> lnsocket_write L ln msgbuf len net m;
                      if \<not> ok then finish False out net
                      else do {
                        let out = out @ ascii ''sent ping '' @ print_data m msgbuf (unat len);
                        ((ok, out'), ln, net, m) \<leftarrow> test_loop L 3 ln net m;
                        finish ok (out @ out') net } } } } } } })"

section \<open>The messages of the node\<close>

text \<open>What is printed of the first three messages.\<close>

definition pong_text :: "(u16 \<times> bytes) list \<Rightarrow> bytes" where
  "pong_text ms = (case dropWhile (\<lambda>x. fst x \<noteq> WIRE_PONG) ms of
     [] \<Rightarrow> []
   | x # _ \<Rightarrow> ascii ''got pong! '' @ hex_encode (snd x) @ [10])"

lemma test_loop_prints:
  assumes "aead_ok L" "client_ready stk ln net" "\<forall>x \<in> set ms. length (snd x) \<le> 65526" "n \<le> length ms \<or> WIRE_PONG \<in> fst ` set ms"
    and "stream (n_in net) = wire_of L (recv_chan (ln_crypto_state ln)) ms @ rest"
  shows "\<exists>ln' net' m'. test_loop L n ln net m = Some ((True, pong_text (take n ms)), ln', net', m') \<and>
    n_sent net' = n_sent net"
  using assms(2-5)
proof (induction n arbitrary: ms ln net m)
  case (Suc n)
  from Suc.prems(3) obtain t p ms' where ms: "ms = (t, p) # ms'" by (cases ms) auto
  obtain ln1 net1 m1 buf where r: "lnsocket_recv L ln net m = Some (Some (t, buf, of_nat (length p)), ln1, net1, m1)"
      "mread m1 buf (length p) = p" "client_ready stk ln1 net1"
      "stream (n_in net1) = wire_of L (recv_chan (ln_crypto_state ln1)) ms' @ rest" "n_sent net1 = n_sent net"
    using client_reads [OF assms(1) Suc.prems(1), of p t ms' rest m] Suc.prems(2,4) ms by auto
  have len: "unat (of_nat (length p) :: u16) = length p" using Suc.prems(2) ms by (intro of_nat_u16) simp
  show ?case
  proof (cases "t = WIRE_PONG")
    case True
    then show ?thesis using r(1,2,5) len by (simp add: ms pong_text_def print_data_def)
  next
    case False
    then have "n \<le> length ms' \<or> WIRE_PONG \<in> fst ` set ms'" using Suc.prems(3) ms by auto
    then have "\<exists>ln' net' m'. test_loop L n ln1 net1 m1 = Some ((True, pong_text (take n ms')), ln', net', m') \<and>
        n_sent net' = n_sent net1"
      using Suc.prems(2) ms by (intro Suc.IH [OF r(3) _ _ r(4)]) simp_all
    then show ?thesis using r(1,5) False by (auto simp: ms pong_text_def)
  qed
qed (simp add: pong_text_def)

definition test_ping :: bytes where
  "test_ping = [0, 18, 0, 1, 0, 1, 0]"

lemma test_session:
  assumes "aead_ok L" "client_ready stk ln net" "apart ln msgbuf 4096" "length p0 \<le> 65526"
    and "\<forall>x \<in> set ms. length (snd x) \<le> 65526" "3 \<le> length ms \<or> WIRE_PONG \<in> fst ` set ms"
    and "stream (n_in net) = wire_of L (recv_chan (ln_crypto_state ln)) ((t0, p0) # ms) @ rest"
    and "bolt8_encrypt L (send_chan (ln_crypto_state ln)) our_init = (c1, ch1)"
    and "bolt8_encrypt L ch1 test_ping = (c2, ch2)"
  shows "\<exists>ln1 net1 m1 m2 ln2 net2 m3 ln3 net3 m4.
    lnsocket_perform_init L stk ln net m = Some (True, ln1, net1, m1) \<and>
    lnsocket_make_ping_msg (lib_order L) msgbuf 4096 1 1 m1 = Some (7, m2) \<and>
    lnsocket_write L ln1 msgbuf 7 net1 m2 = Some (True, ln2, net2, m3) \<and> mread m3 msgbuf 7 = test_ping \<and>
    test_loop L 3 ln2 net2 m3 = Some ((True, pong_text (take 3 ms)), ln3, net3, m4) \<and>
    n_sent net3 = n_sent net @ c1 @ c2"
proof -
  have len0: "length p0 + 2 \<le> 65528" using assms(4) by simp
  obtain ln1 net1 m1 where i: "lnsocket_perform_init L stk ln net m = Some (True, ln1, net1, m1)" "n_sent net1 = n_sent net @ c1"
      "stream (n_in net1) = wire_of L (recv_chan (ln_crypto_state ln1)) ms @ rest"
      "send_chan (ln_crypto_state ln1) = ch1" "client_ready stk ln1 net1" "apart ln1 = apart ln"
    using client_inits [OF assms(1,2) len0 assms(7,8), of m] by blast
  obtain m2 where p: "lnsocket_make_ping_msg (lib_order L) msgbuf 4096 1 1 m1 = Some (7, m2)" and "wrote msgbuf 4096 test_ping m1 m2"
    using make_ping_msg_eq [of "lib_order L" msgbuf 4096 1 1 m1] by (auto simp: test_ping_def be_bytes_234)
  then have "mread m2 msgbuf (length test_ping) = test_ping" by (simp only: wrote_def)
  moreover have "length test_ping = 7" by (simp add: test_ping_def)
  ultimately have ping: "mread m2 msgbuf 7 = test_ping" by metis
  have away: "apart ln1 msgbuf (unat (7 :: u16))" using assms(3) unfolding i(6) by (auto simp: apart_def)
  have enc: "bolt8_encrypt L (send_chan (ln_crypto_state ln1)) (mread m2 msgbuf (unat (7 :: u16))) = (c2, ch2)"
    using assms(9) ping i(4) by simp
  note w = client_writes [OF assms(1) i(5) away enc]
  let ?m3 = "mwrite m2 (c_start (ln_msgbuf ln1)) c2"
  obtain ln3 net3 m4 where "test_loop L 3 (after_write ln1 ch2) (net1\<lparr>n_sent := n_sent net1 @ c2\<rparr>) ?m3 =
      Some ((True, pong_text (take 3 ms)), ln3, net3, m4)" "n_sent net3 = n_sent net1 @ c2"
    using test_loop_prints [OF assms(1) w(2) assms(5,6), of rest ?m3] i(3) w(4) by auto
  moreover have "mread ?m3 msgbuf 7 = test_ping"
  proof -
    have "chan_ok ch1" using i(4,5) by (auto simp: client_ready_def)
    then have "length c2 = 41" using length_bolt8_packet [OF assms(1), of ch1 test_ping] assms(9) by (simp add: test_ping_def)
    then have "mread ?m3 msgbuf 7 = mread m2 msgbuf 7"
      using away i(5) by (intro mread_mwrite_disjoint) (auto simp: apart_def client_ready_def ln_wf_def MSGBUF_MEM_def)
    then show ?thesis using ping by simp
  qed
  ultimately show ?thesis using i(1,2) p w(1) by auto
qed

section \<open>Properties\<close>

text \<open>C4: The test program against the node it names: if the node follows BOLT 8 and sends an init message
  and at least three more messages, or a pong before, the program sends the handshake, our init
  message and one ping, and exits with 0. It prints the pong when one is among the first three
  messages, and exits with 0 also when none is.\<close>

theorem test_passes:
  fixes key :: keypair
  assumes "aead_ok L" "secp_ok L" "\<not> fst (pubkey_create L (replicate 32 0))"
    and "pubkey_create L (kp_priv ls) = (True, kp_pub ls)" "hex_encode (pubkey_serialize L (kp_pub ls)) = test_nodeid"
    and "pubkey_create L (kp_priv re) = (True, kp_pub re)"
    and "pubkey_create L (kp_priv key) = (True, kp_pub key)" "generate_key L rnd = Some (e, rnd')" "\<exists>b \<in> set (kp_priv key). b \<noteq> 0"
    and "os_connects os (ascii ''24.84.152.187'') None" "0 < os_socket os" "os_socket os < 1024"
    and "stk + 0xFFFF \<le> a + sz \<or> a + sz + MSGBUF_MEM \<le> stk" "msgbuf + 4096 \<le> a + sz \<or> a + sz + MSGBUF_MEM \<le> msgbuf"
    and "\<forall>x \<in> set ((t0, p0) # ms). length (snd x) \<le> 65526" "3 \<le> length ms \<or> WIRE_PONG \<in> fst ` set ms"
  shows "\<exists>act1 st1 msg2 st2 act3 rk sk ck.
    responder_act_one L (kp_priv ls) (bolt8_start (pubkey_serialize L (kp_pub ls))) act1 = Some st1 \<and>
    responder_act_two L re st1 = (msg2, st2) \<and>
    responder_act_three L re st2 act3 = Some (kp_pub key, rk, sk, ck) \<and>
    (\<forall>net es rest. n_out net = [] \<longrightarrow> n_in net = Data msg2 # es \<longrightarrow>
      stream es = wire_of L \<lparr>ch_k = sk, ch_ck = ck, ch_n = 0\<rparr> ((t0, p0) # ms) @ rest \<longrightarrow>
      (\<exists>net'. test_main L os hdr0 (Some a) sz msgbuf stk (kp_priv key # rnd) net m =
          Some (0, ascii ''init ok!'' @ [10] @ ascii ''sent ping 00120001000100'' @ [10] @ pong_text (take 3 ms), net') \<and>
        n_sent net' = n_sent net @ act1 @ act3 @ wire_of L \<lparr>ch_k = rk, ch_ck = ck, ch_n = 0\<rparr>
          [(16, drop 2 our_init), (18, drop 2 test_ping)]))"
proof -
  have "arena_apart a sz stk 0xFFFF" using assms(13) by (simp add: arena_apart_def)
  from client_connects [OF assms(1,2,4,6-12) this, of m hdr0] obtain ln0 m0 act1 st1 msg2 st2 act3 rk sk ck where
    create: "lnsocket_create (Some a) sz m = (Some ln0, m0)"
    and peer: "responder_act_one L (kp_priv ls) (bolt8_start (pubkey_serialize L (kp_pub ls))) act1 = Some st1"
      "responder_act_two L re st1 = (msg2, st2)" "responder_act_three L re st2 act3 = Some (kp_pub key, rk, sk, ck)"
    and good: "\<And>net es. n_out net = [] \<and> n_in net = Data msg2 # es \<Longrightarrow>
      \<exists>ln1. lnsocket_connect L os hdr0 (ln0\<lparr>ln_key := key\<rparr>) test_nodeid (ascii ''24.84.152.187'') rnd net m0 =
          Some ((True, rnd', direct_calls os (ascii ''24.84.152.187'') 3000), ln1, net\<lparr>n_in := es, n_sent := n_sent net @ act1 @ act3\<rparr>, m0) \<and>
        client_ready stk ln1 (net\<lparr>n_in := es, n_sent := n_sent net @ act1 @ act3\<rparr>) \<and> apart ln1 = arena_apart a sz \<and>
        send_chan (ln_crypto_state ln1) = \<lparr>ch_k = rk, ch_ck = ck, ch_n = 0\<rparr> \<and>
        recv_chan (ln_crypto_state ln1) = \<lparr>ch_k = sk, ch_ck = ck, ch_n = 0\<rparr>"
    unfolding assms(5) by blast
  let ?s = "\<lparr>ch_k = rk, ch_ck = ck, ch_n = 0\<rparr>"
  obtain c1 ch1 c2 ch2 where c: "bolt8_encrypt L ?s our_init = (c1, ch1)" "bolt8_encrypt L ch1 test_ping = (c2, ch2)" by (meson surj_pair)
  have "be_bytes 2 (16 :: u16) @ drop 2 our_init = our_init" "be_bytes 2 (18 :: u16) @ drop 2 test_ping = test_ping"
    by (simp_all add: our_init_def test_ping_def be_bytes_234)
  then have sent: "wire_of L ?s [(16, drop 2 our_init), (18, drop 2 test_ping)] = c1 @ c2" using c by simp
  have set: "lnsocket_setkey L ln0 (replicate 32 0) = (False, ln0)" "lnsocket_setkey L ln0 (kp_priv key) = (True, ln0\<lparr>ln_key := key\<rparr>)"
    using assms(3,7) by (cases "pubkey_create L (replicate 32 0)"; simp add: lnsocket_setkey_def)+
  have hex: "hex_encode test_ping = ascii ''00120001000100''" by (simp add: test_ping_def hex_encode_def hex_digit_def)
  have "\<exists>net'. test_main L os hdr0 (Some a) sz msgbuf stk (kp_priv key # rnd) net m =
        Some (0, ascii ''init ok!'' @ [10] @ ascii ''sent ping 00120001000100'' @ [10] @ pong_text (take 3 ms), net') \<and>
      n_sent net' = n_sent net @ act1 @ act3 @ wire_of L ?s [(16, drop 2 our_init), (18, drop 2 test_ping)]"
    if n: "n_out net = []" "n_in net = Data msg2 # es"
      "stream es = wire_of L \<lparr>ch_k = sk, ch_ck = ck, ch_n = 0\<rparr> ((t0, p0) # ms) @ rest" for net es rest
  proof -
    let ?net = "net\<lparr>n_in := es, n_sent := n_sent net @ act1 @ act3\<rparr>"
    obtain ln1 where h: "lnsocket_connect L os hdr0 (ln0\<lparr>ln_key := key\<rparr>) test_nodeid (ascii ''24.84.152.187'') rnd net m0 =
          Some ((True, rnd', direct_calls os (ascii ''24.84.152.187'') 3000), ln1, ?net, m0)" "client_ready stk ln1 ?net"
        "apart ln1 = arena_apart a sz" "send_chan (ln_crypto_state ln1) = ?s"
        "recv_chan (ln_crypto_state ln1) = \<lparr>ch_k = sk, ch_ck = ck, ch_n = 0\<rparr>"
      using good [of net es] n by blast
    have "apart ln1 msgbuf 4096" using assms(14) h(3) by (simp add: arena_apart_def)
    moreover have "stream (n_in ?net) = wire_of L (recv_chan (ln_crypto_state ln1)) ((t0, p0) # ms) @ rest"
      using n(3) h(5) by simp
    moreover have "length p0 \<le> 65526" "\<forall>x \<in> set ms. length (snd x) \<le> 65526" using assms(15) by simp_all
    ultimately obtain ln2 net2 m2 m3 ln3 net3 m4 ln4 net4 m5 where
      "lnsocket_perform_init L stk ln1 ?net m0 = Some (True, ln2, net2, m2)"
        "lnsocket_make_ping_msg (lib_order L) msgbuf 4096 1 1 m2 = Some (7, m3)"
        "lnsocket_write L ln2 msgbuf 7 net2 m3 = Some (True, ln3, net3, m4)" "mread m4 msgbuf 7 = test_ping"
        "test_loop L 3 ln3 net3 m4 = Some ((True, pong_text (take 3 ms)), ln4, net4, m5)"
        "n_sent net4 = n_sent ?net @ c1 @ c2"
      using test_session [OF assms(1) h(2) _ _ _ assms(16) _ c [folded h(4)], of msgbuf p0 t0 rest m0] by blast
    then show ?thesis using create set h(1) unfolding sent by (simp add: test_main_def print_data_def hex)
  qed
  then show ?thesis using peer by blast
qed

text \<open>A library whose keys have the parity of the node's, and the node's key.\<close>

definition test_lib :: lib where
  "test_lib = example_lib\<lparr>pubkey_parse := (\<lambda>b. (length b = 33 \<and> hd b = 3, drop 1 b @ replicate 32 0)),
     pubkey_serialize := (\<lambda>p. 3 # take 32 (p @ replicate 32 0))\<rparr>"

definition test_node :: keypair where
  "test_node = (let key = [0xf3, 0xc1, 0x08, 0xcc, 0xd5, 0x36, 0xb8, 0x52, 0x68, 0x41, 0xf0, 0xa5, 0xc5, 0x82, 0x12, 0xbb,
       0x9e, 0x65, 0x84, 0xa1, 0xeb, 0x49, 0x30, 0x80, 0xe7, 0xc1, 0xcc, 0x34, 0xf8, 0x2d, 0xad, 0x71]
     in \<lparr>kp_pub = key @ replicate 32 0, kp_priv = key\<rparr>)"

lemma test_lib_ok: "aead_ok test_lib" "secp_ok test_lib"
proof -
  show "aead_ok test_lib" using example_lib_ok(1) by (simp add: aead_ok_def test_lib_def)
  show "secp_ok test_lib" using example_lib_ok(2)
    by (auto simp: secp_ok_def test_lib_def example_lib_def aead.defs lib.defs)
qed

lemma test_create: "pubkey_create test_lib d = (length d = 32 \<and> d \<noteq> replicate 32 0, d @ replicate 32 0)"
  by (simp add: test_lib_def example_lib_def aead.defs lib.defs)

theorem test_passes_witness:
  "\<exists>act1 st1 msg2 st2 act3 rk sk ck.
    responder_act_one test_lib (kp_priv test_node) (bolt8_start (pubkey_serialize test_lib (kp_pub test_node))) act1 = Some st1 \<and>
    responder_act_two test_lib (example_pair 3) st1 = (msg2, st2) \<and>
    responder_act_three test_lib (example_pair 3) st2 act3 = Some (kp_pub (example_pair 5), rk, sk, ck) \<and>
    (\<forall>net es rest. n_out net = [] \<longrightarrow> n_in net = Data msg2 # es \<longrightarrow>
      stream es = wire_of test_lib \<lparr>ch_k = sk, ch_ck = ck, ch_n = 0\<rparr> ((16, [0, 0, 0, 0]) # [(19, [0, 1, 0])]) @ rest \<longrightarrow>
      (\<exists>net'. test_main test_lib example_os [0, 0] (Some 4096) 2000 1000000 500000 (kp_priv (example_pair 5) # [replicate 32 4])
            net (\<lambda>_. 0) =
          Some (0, ascii ''init ok!'' @ [10] @ ascii ''sent ping 00120001000100'' @ [10] @ pong_text (take 3 [(19, [0, 1, 0])]), net') \<and>
        n_sent net' = n_sent net @ act1 @ act3 @ wire_of test_lib \<lparr>ch_k = rk, ch_ck = ck, ch_n = 0\<rparr>
          [(16, drop 2 our_init), (18, drop 2 test_ping)]))"
proof (rule test_passes [OF test_lib_ok])
  show "\<not> fst (pubkey_create test_lib (replicate 32 0))" by (simp add: test_create)
  have first: "b # bs = replicate n (0 :: u8) \<longleftrightarrow> b = 0 \<and> bs = replicate (n - 1) 0 \<and> 0 < n" for b bs n by (cases n) auto
  show "pubkey_create test_lib (kp_priv test_node) = (True, kp_pub test_node)"
    by (simp add: test_create test_node_def first)
  show "hex_encode (pubkey_serialize test_lib (kp_pub test_node)) = test_nodeid"
    by (simp add: test_lib_def test_node_def test_nodeid_def hex_encode_def hex_digit_def)
  show "pubkey_create test_lib (kp_priv (example_pair 3)) = (True, kp_pub (example_pair 3))"
    "pubkey_create test_lib (kp_priv (example_pair 5)) = (True, kp_pub (example_pair 5))"
    by (simp_all add: test_create example_pair_def replicate_eq_replicate)
  show "generate_key test_lib [replicate 32 4] = Some (example_pair 4, [])"
    by (simp add: test_create example_pair_def replicate_eq_replicate)
  show "\<exists>b \<in> set (kp_priv (example_pair 5)). b \<noteq> 0" by (simp add: example_pair_def)
  show "os_connects example_os (ascii ''24.84.152.187'') None" "0 < os_socket example_os" "os_socket example_os < 1024"
    by (simp_all add: example_os_def os_connects_def peer_address_def case_prod_beta)
qed (simp_all add: MSGBUF_MEM_def WIRE_PONG_def)

end
