(* ===== verification/Wrapper.thy ===== *)
theory Wrapper
  imports Client
begin

text \<open>
  The JavaScript wrapper \<open>lnsocket_lib.js\<close> around the exported C functions: the queue of received
  chunks, reading and writing of messages, the handshake, and the reply to an rpc. The wrapper has no
  socket of the kernel; what the WebSocket (or the socket of node.js) delivers is a list of chunks.
  Results in the memory of the module are views, an address and a length, so that what a later call
  writes there shows through them. The messages are carried by the same contract as those of
  \<open>lnsocket_read\<close>, the locale \<open>stream_channel\<close>.
\<close>

section \<open>State\<close>

text \<open>
  The object \<open>LNSocket\<close> with the module it calls: the connection, the module's memory, the random
  source, the chunks received and to come, and what was given to \<open>send\<close>, with \<open>None\<close> for \<open>null\<close>.
  \<open>js_connected\<close> is read when a call of \<open>read_all\<close> starts. The event \<open>close\<close> clears it, also while chunks
  are waiting; during the calls that are modelled it is taken to come after the last chunk has been
  taken, and what comes earlier is a state without \<open>js_connected\<close>, in which \<open>read_all\<close> throws.
  What is given to \<open>send\<close> is copied at once, as a WebSocket does; a socket of node.js may keep the view.
\<close>

record js =
  js_ln :: lnsocket
  js_mem :: mem
  js_rnd :: "bytes list"
  js_queue :: "bytes list"
  js_connected :: bool
  js_sent :: "bytes option list"

text \<open>The exceptions: a rejected promise, or an \<open>Error\<close>.\<close>

datatype js_error =
    Rejected
  | Not_connected
  | Short_header
  | Short_act_two nat
  | Encrypt_error
  | Decrypt_error

text \<open>An exception or a result; no value is the abort of the module.\<close>

type_synonym 'r js_io = "((js_error + 'r) \<times> js) option"

definition js_then :: "'r js_io \<Rightarrow> ('r \<Rightarrow> js \<Rightarrow> 's js_io) \<Rightarrow> 's js_io" where
  "js_then r f =
     (case r of
        None \<Rightarrow> None
      | Some (Inl e, js) \<Rightarrow> Some (Inl e, js)
      | Some (Inr x, js) \<Rightarrow> f x js)"

lemma js_then_simps [simp]:
  "js_then None f = None" "js_then (Some (Inl e, js)) f = Some (Inl e, js)" "js_then (Some (Inr x, js)) f = f x js"
  by (simp_all add: js_then_def)

text \<open>A \<open>Uint8Array\<close> on the module's memory, and its content at a time.\<close>

type_synonym view = "addr \<times> nat"

definition wasm_mem :: "addr \<Rightarrow> nat \<Rightarrow> view" where
  "wasm_mem ptr sz = (ptr, sz)"

definition view_bytes :: "js \<Rightarrow> view \<Rightarrow> bytes" where
  "view_bytes js v = mread (js_mem js) (fst v) (snd v)"

text \<open>The exported functions that share a signature with those that use a socket do not look at it.\<close>

definition no_net :: net where
  "no_net = \<lparr>n_in = [], n_out = [], n_sent = [], n_errno = []\<rparr>"

section \<open>The queue\<close>

text \<open>
  \<open>read_all\<close>: the loop takes chunks from the queue until \<open>n\<close> bytes are there, and puts the rest of
  the last one back. Of the chunks \<open>concat_u8_arrays\<close> makes one array.
\<close>

fun read_chunks :: "nat \<Rightarrow> bytes list \<Rightarrow> nat \<Rightarrow> bytes list \<Rightarrow> bytes list option \<times> bytes list" where
  "read_chunks n chunks count [] = (None, [])"
| "read_chunks n chunks count (res # queue) =
     (let remaining = int n - int count
      in if int (length res) > remaining then
           (Some (chunks @ [take (nat remaining) res]), drop (nat remaining) res # queue)
         else if int (length res) = remaining then (Some (chunks @ [res]), queue)
         else read_chunks n (chunks @ [res]) (count + length res) queue)"

definition js_read_all :: "nat \<Rightarrow> js \<Rightarrow> bytes js_io" where
  "js_read_all n js =
     (if \<not> js_connected js then Some (Inl Not_connected, js)
      else (case read_chunks n [] 0 (js_queue js) of
              (None, queue) \<Rightarrow> Some (Inl Rejected, js\<lparr>js_queue := queue, js_connected := False\<rparr>)
            | (Some chunks, queue) \<Rightarrow> Some (Inr (concat chunks), js\<lparr>js_queue := queue\<rparr>)))"

section \<open>Messages\<close>

text \<open>
  \<open>stk\<close> is the address where the glue of Emscripten copies an array that is passed to a function.
  Without \<open>print_errors\<close>, which only prints.
\<close>

definition js_encrypt :: "'a aead_scheme \<Rightarrow> addr \<Rightarrow> bytes \<Rightarrow> js \<Rightarrow> view js_io" where
  "js_encrypt L stk dat js = do {
     (len, ln, _, m) \<leftarrow> lnsocket_encrypt_for True L (js_ln js) stk (of_nat (length dat)) no_net (mwrite (js_mem js) stk dat);
     let js = js\<lparr>js_ln := ln, js_mem := m\<rparr>;
     if len = 0 then Some (Inl Encrypt_error, js)
     else Some (Inr (wasm_mem (lnsocket_msgbuf ln) len), js) }"

definition js_decrypt :: "'a aead_scheme \<Rightarrow> addr \<Rightarrow> bytes \<Rightarrow> js \<Rightarrow> view js_io" where
  "js_decrypt L stk dat js = do {
     (len, ln, _, m) \<leftarrow> lnsocket_decrypt L (js_ln js) stk (length dat) no_net (mwrite (js_mem js) stk dat);
     let js = js\<lparr>js_ln := ln, js_mem := m\<rparr>;
     if len = 0 then Some (Inl Decrypt_error, js)
     else Some (Inr (wasm_mem (lnsocket_msgbuf ln) len), js) }"

definition js_write :: "'a aead_scheme \<Rightarrow> addr \<Rightarrow> bytes \<Rightarrow> js \<Rightarrow> unit js_io" where
  "js_write L stk dat js =
     js_then (js_encrypt L stk dat js) (\<lambda>enc js.
     Some (Inr (), js\<lparr>js_sent := js_sent js @ [Some (view_bytes js enc)]\<rparr>))"

definition js_read_header :: "'a aead_scheme \<Rightarrow> addr \<Rightarrow> js \<Rightarrow> nat js_io" where
  "js_read_header L stk js =
     js_then (js_read_all 18 js) (\<lambda>header js.
     if length header \<noteq> 18 then Some (Inl Short_header, js)
     else do {
       (len, ln, _, m) \<leftarrow> lnsocket_decrypt_header L (js_ln js) stk no_net (mwrite (js_mem js) stk header);
       Some (Inr len, js\<lparr>js_ln := ln, js_mem := m\<rparr>) })"

definition js_read :: "'a aead_scheme \<Rightarrow> addr \<Rightarrow> js \<Rightarrow> view js_io" where
  "js_read L stk js =
     js_then (js_read_header L stk js) (\<lambda>sz js.
     js_then (js_read_all (sz + 16) js) (\<lambda>enc js.
     js_decrypt L stk enc js))"

text \<open>An element outside an array is \<open>undefined\<close>, which \<open><<\<close> and \<open>|\<close> take for 0. A \<open>slice\<close> is a copy.\<close>

definition element_at :: "bytes \<Rightarrow> nat \<Rightarrow> u32" where
  "element_at buf i = (if i < length buf then ucast (buf ! i) else 0)"

definition parse_msgtype :: "bytes \<Rightarrow> u32" where
  "parse_msgtype buf = push_bit 8 (element_at buf 0) OR element_at buf 1"

definition js_recv :: "'a aead_scheme \<Rightarrow> addr \<Rightarrow> js \<Rightarrow> (u32 \<times> bytes) js_io" where
  "js_recv L stk js =
     js_then (js_read L stk js) (\<lambda>msg js.
     let msgtype = parse_msgtype (take 2 (view_bytes js msg))
     in Some (Inr (msgtype, drop 2 (view_bytes js msg)), js))"

section \<open>The handshake\<close>

text \<open>
  A structure the functions return a pointer to is sent as its bytes; \<open>None\<close> is the null pointer,
  and \<open>connect\<close> sends what it gets without a look, so also \<open>null\<close>. The connection itself, the
  promise of \<open>handle_connect\<close>, is made before.
\<close>

definition js_act_one_data :: "'a lib_scheme \<Rightarrow> addr \<Rightarrow> bytes \<Rightarrow> js \<Rightarrow> (bytes option \<times> js) option" where
  "js_act_one_data L stk node_id js = do {
     ((act1, rnd), ln, _, m) \<leftarrow>
       lnsocket_act_one L (js_ln js) node_id (js_rnd js) no_net (mwrite (js_mem js) stk (node_id @ [0]));
     Some (map_option act_one_bytes act1, js\<lparr>js_ln := ln, js_mem := m, js_rnd := rnd\<rparr>) }"

definition js_act_two :: "'a lib_scheme \<Rightarrow> addr \<Rightarrow> bytes \<Rightarrow> js \<Rightarrow> (bytes option \<times> js) option" where
  "js_act_two L stk act2 js = do {
     (act3, ln, m) \<leftarrow> lnsocket_act_two L (js_ln js) (act_two_of_bytes act2) (mwrite (js_mem js) stk act2);
     Some (map_option act_three_bytes act3, js\<lparr>js_ln := ln, js_mem := m\<rparr>) }"

definition js_connect :: "'a lib_scheme \<Rightarrow> addr \<Rightarrow> bytes \<Rightarrow> js \<Rightarrow> unit js_io" where
  "js_connect L stk node_id js = do {
     (act1, js) \<leftarrow> js_act_one_data L stk node_id js;
     let js = js\<lparr>js_sent := js_sent js @ [act1]\<rparr>;
     js_then (js_read_all ACT_TWO_SIZE js) (\<lambda>act2 js.
     if length act2 \<noteq> ACT_TWO_SIZE then Some (Inl (Short_act_two (length act2)), js)
     else do {
       (act3, js) \<leftarrow> js_act_two L stk act2 js;
       Some (Inr (), js\<lparr>js_sent := js_sent js @ [act3]\<rparr>) }) }"

section \<open>What is taken from the queue\<close>

lemma read_chunks_takes:
  "concat queue = x @ rest \<Longrightarrow> length x = n - count \<Longrightarrow> x \<noteq> [] \<Longrightarrow>
   \<exists>out queue'. read_chunks n chunks count queue = (Some out, queue') \<and> concat out = concat chunks @ x \<and> concat queue' = rest"
proof (induction n chunks count queue arbitrary: x rule: read_chunks.induct)
  case (1 n chunks count)
  then show ?case by simp
next
  case (2 n chunks count res queue)
  have r: "int n - int count = int (length x)" using "2.prems"(2,3) by (cases x) auto
  consider "length x < length res" | "length res = length x" | "length res < length x" by linarith
  then show ?case
  proof cases
    case 1
    then obtain y where "res = x @ y" "rest = y @ concat queue"
      using "2.prems"(1) by (auto simp: append_eq_append_conv2)
    then show ?thesis using 1 r by (auto simp: Let_def)
  next
    case len: 2
    then have "res = x" "concat queue = rest" using "2.prems"(1) by simp_all
    then show ?thesis using r by (simp add: Let_def)
  next
    case 3
    then obtain y where y: "x = res @ y" "concat queue = y @ rest"
      using "2.prems"(1) by (auto simp: append_eq_append_conv2)
    then have "length y = n - (count + length res)" "y \<noteq> []" using "2.prems"(2) 3 by auto
    from "2.IH" [OF refl _ _ y(2) this] show ?thesis using 3 r y(1) by (auto simp: Let_def)
  qed
qed

lemma read_chunks_fails: "length (concat queue) < n - count \<Longrightarrow> read_chunks n chunks count queue = (None, [])"
  by (induction n chunks count queue rule: read_chunks.induct) (auto simp: Let_def)

lemma js_read_all_takes:
  assumes "js_connected js" "concat (js_queue js) = x @ rest" "length x = n" "x \<noteq> []"
  obtains queue where "js_read_all n js = Some (Inr x, js\<lparr>js_queue := queue\<rparr>)" "concat queue = rest"
  using read_chunks_takes [OF assms(2), of n 0 "[]"] assms(1,3,4) by (auto simp: js_read_all_def)

section \<open>One message\<close>

text \<open>Arrays passed to the functions are outside the message buffer.\<close>

definition js_ok :: "addr \<Rightarrow> js \<Rightarrow> bool" where
  "js_ok stk js \<longleftrightarrow> ln_wf (js_ln js) \<and> apart (js_ln js) stk (2 ^ 17)"

lemma js_encrypt_eq:
  assumes "aead_ok L" "js_ok stk js" "chan_ok (send_chan (ln_crypto_state (js_ln js)))" "length msg < 2 ^ 16"
    and "bolt8_encrypt L (send_chan (ln_crypto_state (js_ln js))) msg = (packet, ch)"
  shows "js_encrypt L stk msg js =
    Some (Inr (c_start (ln_msgbuf (js_ln js)), length msg + 34),
      js\<lparr>js_ln := after_write (js_ln js) ch,
         js_mem := mwrite (mwrite (js_mem js) stk msg) (c_start (ln_msgbuf (js_ln js))) packet\<rparr>)"
proof -
  let ?s = "c_start (ln_msgbuf (js_ln js))" and ?h = "bolt8_header L (send_chan (ln_crypto_state (js_ln js))) (length msg)"
  have wf: "ln_wf (js_ln js)" "stk + 2 ^ 17 \<le> ?s \<or> ?s + MSGBUF_MEM \<le> stk"
    using assms(2) by (auto simp: js_ok_def apart_def ln_wf_def)
  have n: "unat (of_nat (length msg) :: u16) = length msg" using assms(4) by simp
  have "mread (mwrite (mwrite (js_mem js) stk msg) ?s ?h) stk (length msg) = mread (mwrite (js_mem js) stk msg) stk (length msg)"
    using wf(2) assms(4) length_bolt8_header [OF assms(1,3)]
    by (intro mread_mwrite_disjoint) (auto simp: MSGBUF_MEM_def)
  then have "msg = mread (mwrite (mwrite (js_mem js) stk msg) ?s ?h) stk (length msg)" by simp
  then show ?thesis
    using encrypt_in_place [OF assms(1) wf(1) _ assms(3) _ assms(5), of True "mwrite (js_mem js) stk msg" "of_nat (length msg)" stk no_net] n
    by (simp add: js_encrypt_def Let_def wasm_mem_def lnsocket_msgbuf_def)
qed

text \<open>The connection after a message has been decrypted: the log of errors is as it was.\<close>

definition after_decrypt :: "lnsocket \<Rightarrow> nat \<Rightarrow> bolt8_chan \<Rightarrow> lnsocket" where
  "after_decrypt ln n ch = ln\<lparr>ln_msgbuf := (ln_msgbuf ln)\<lparr>c_p := c_start (ln_msgbuf ln) + n\<rparr>,
     ln_crypto_state := (ln_crypto_state ln)\<lparr>cs_rn := of_nat (ch_n ch), cs_rk := ch_k ch, cs_r_ck := ch_ck ch\<rparr>\<rparr>"

lemma decrypt_message:
  assumes "aead_ok L" "ln_wf ln" "apart ln stk (2 ^ 17)" "chan_ok (recv_chan cs)" "length msg < 2 ^ 16"
    and "bolt8_encrypt L (recv_chan cs) msg = (packet, ch)" "ln_crypto_state ln = cs\<lparr>cs_rn := cs_rn cs + 1\<rparr>"
  shows "\<exists>m'. lnsocket_decrypt L ln stk (length msg + 16) net (mwrite m stk (drop 18 packet)) =
      Some (length msg, after_decrypt (ln\<lparr>ln_crypto_state := cs\<rparr>) (length msg) ch, net, m') \<and>
    mread m' (c_start (ln_msgbuf ln)) (length msg) = msg"
proof -
  let ?s = "c_start (ln_msgbuf ln)" and ?k = "length msg" and ?m = "mwrite m stk (drop 18 packet)"
  have len: "length (drop 18 packet) = ?k + 16" using length_bolt8_packet [OF assms(1,4), of msg] assms(6) by simp
  have room: "?s + ?k \<le> c_end (ln_msgbuf ln)" "stk + 2 ^ 17 \<le> ?s \<or> ?s + MSGBUF_MEM \<le> stk"
    using assms(2,3,5) by (auto simp: ln_wf_def apart_def MSGBUF_MEM_def)
  have slice: "cursor_slice (reset_cursor (ln_msgbuf ln)) ?k ?m =
      (Some (make_cursor ?s (?s + ?k)), (ln_msgbuf ln)\<lparr>c_p := ?s + ?k\<rparr>, mwrite ?m ?s (replicate ?k 0))"
    using room(1) by (simp add: cursor_slice_eq reset_cursor_def)
  have "mread (mwrite ?m ?s (replicate ?k 0)) stk (?k + 16) = mread ?m stk (?k + 16)"
    using room(2) assms(5) by (intro mread_mwrite_disjoint) (auto simp: MSGBUF_MEM_def)
  also have "\<dots> = drop 18 packet" using len by simp
  finally have enc: "mread (mwrite ?m ?s (replicate ?k 0)) stk (?k + 16) = drop 18 packet" .
  have "?k < 2 ^ 31" using assms(5) by simp
  from decrypt_body_packet [OF assms(1,4,6) this order.refl enc, of ?s]
  show ?thesis
    using slice assms(7)
    by (auto simp: lnsocket_decrypt_def Let_def make_cursor_def after_decrypt_def)
qed

text \<open>The state after a message of \<open>n\<close> bytes has been read.\<close>

definition js_after_read :: "js \<Rightarrow> nat \<Rightarrow> bolt8_chan \<Rightarrow> bytes list \<Rightarrow> mem \<Rightarrow> js" where
  "js_after_read js n ch queue m = js\<lparr>js_ln := after_decrypt (js_ln js) n ch, js_mem := m, js_queue := queue\<rparr>"

lemma js_read_eq:
  assumes "aead_ok L" "js_ok stk js" "js_connected js" "chan_ok (recv_chan (ln_crypto_state (js_ln js)))"
    and "msg \<noteq> []" "length msg < 2 ^ 16" "bolt8_encrypt L (recv_chan (ln_crypto_state (js_ln js))) msg = (packet, ch)"
    and "concat (js_queue js) = packet @ rest"
  shows "\<exists>queue m. js_read L stk js =
      Some (Inr (c_start (ln_msgbuf (js_ln js)), length msg), js_after_read js (length msg) ch queue m) \<and>
    mread m (c_start (ln_msgbuf (js_ln js))) (length msg) = msg \<and> concat queue = rest"
proof -
  let ?ln = "js_ln js"
  define cs where "cs = ln_crypto_state ?ln"
  note cs = cs_def [symmetric]
  have ln: "ln_wf ?ln" "apart ?ln stk (2 ^ 17)" using assms(2) by (simp_all add: js_ok_def)
  have chan: "chan_ok (recv_chan cs)" "bolt8_encrypt L (recv_chan cs) msg = (packet, ch)"
    using assms(4,7) by (simp_all add: cs_def)
  have len: "length packet = length msg + 34" using length_bolt8_packet [OF assms(1) chan(1), of msg] chan(2) by simp
  let ?h = "take 18 packet" and ?b = "drop 18 packet"
  have parts: "packet = ?h @ ?b" "length ?h = 18" "?h \<noteq> []" "length ?b = length msg + 16" "?b \<noteq> []"
    using len by auto
  have "concat (js_queue js) = ?h @ (?b @ rest)" using assms(8) by (simp flip: append_assoc)
  then obtain q1 where q1: "js_read_all 18 js = Some (Inr ?h, js\<lparr>js_queue := q1\<rparr>)" "concat q1 = ?b @ rest"
    by (rule js_read_all_takes [OF assms(3) _ parts(2,3)])
  let ?m1 = "mwrite (js_mem js) stk ?h"
  have "mread ?m1 stk 18 = ?h" using parts(2) by simp
  then have "lnsocket_decrypt_header L ?ln stk no_net ?m1 = Some (length msg, ?ln\<lparr>ln_crypto_state := cs\<lparr>cs_rn := cs_rn cs + 1\<rparr>\<rparr>, no_net, ?m1)"
    using decrypt_header_packet [OF assms(1) chan] assms(6) by (simp add: lnsocket_decrypt_header_def Let_def cs)
  then have hdr: "js_read_header L stk js = Some (Inr (length msg),
      js\<lparr>js_ln := ?ln\<lparr>ln_crypto_state := cs\<lparr>cs_rn := cs_rn cs + 1\<rparr>\<rparr>, js_mem := ?m1, js_queue := q1\<rparr>)"
    using q1(1) parts(2) by (simp add: js_read_header_def)
  let ?js1 = "js\<lparr>js_ln := ?ln\<lparr>ln_crypto_state := cs\<lparr>cs_rn := cs_rn cs + 1\<rparr>\<rparr>, js_mem := ?m1, js_queue := q1\<rparr>"
  have "js_connected ?js1" "concat (js_queue ?js1) = ?b @ rest" using assms(3) q1(2) by simp_all
  then obtain q2 where q2: "js_read_all (length msg + 16) ?js1 = Some (Inr ?b, ?js1\<lparr>js_queue := q2\<rparr>)" "concat q2 = rest"
    by (rule js_read_all_takes [OF _ _ parts(4,5)])
  have "\<exists>m'. lnsocket_decrypt L (?ln\<lparr>ln_crypto_state := cs\<lparr>cs_rn := cs_rn cs + 1\<rparr>\<rparr>) stk (length msg + 16) no_net (mwrite ?m1 stk ?b) =
      Some (length msg, after_decrypt ?ln (length msg) ch, no_net, m') \<and> mread m' (c_start (ln_msgbuf ?ln)) (length msg) = msg"
    using decrypt_message [OF assms(1) _ _ chan(1) assms(6) chan(2), of "?ln\<lparr>ln_crypto_state := cs\<lparr>cs_rn := cs_rn cs + 1\<rparr>\<rparr>" stk no_net ?m1] ln
    by (simp add: ln_wf_def apart_def cs_def)
  then obtain m' where "lnsocket_decrypt L (?ln\<lparr>ln_crypto_state := cs\<lparr>cs_rn := cs_rn cs + 1\<rparr>\<rparr>) stk (length msg + 16) no_net (mwrite ?m1 stk ?b) =
      Some (length msg, after_decrypt ?ln (length msg) ch, no_net, m')" "mread m' (c_start (ln_msgbuf ?ln)) (length msg) = msg" by blast
  then show ?thesis using q2 hdr parts(4) assms(5)
    by (intro exI [of _ q2] exI [of _ m'])
      (simp add: js_read_def js_decrypt_def wasm_mem_def lnsocket_msgbuf_def js_after_read_def after_decrypt_def)
qed

lemma js_ok_after_write: "js_ok stk js \<Longrightarrow> js_ok stk (js\<lparr>js_ln := after_write (js_ln js) ch, js_mem := m, js_sent := out\<rparr>)"
  by (simp add: js_ok_def apart_def)

lemma js_after_read_simps [simp]:
  "ln_errs (js_ln (js_after_read js n ch queue m)) = ln_errs (js_ln js)"
  "send_chan (ln_crypto_state (js_ln (js_after_read js n ch queue m))) = send_chan (ln_crypto_state (js_ln js))"
  "chan_ok ch \<Longrightarrow> recv_chan (ln_crypto_state (js_ln (js_after_read js n ch queue m))) = ch"
  "js_queue (js_after_read js n ch queue m) = queue" "js_mem (js_after_read js n ch queue m) = m"
  "js_connected (js_after_read js n ch queue m) = js_connected js" "js_sent (js_after_read js n ch queue m) = js_sent js"
  by (simp_all add: js_after_read_def after_decrypt_def)

lemma js_ok_after_read: "js_ok stk js \<Longrightarrow> n < 2 ^ 16 \<Longrightarrow> js_ok stk (js_after_read js n ch queue m)"
  by (auto simp: js_ok_def js_after_read_def after_decrypt_def ln_wf_def apart_def cursor_ok_def MSGBUF_MEM_def)

section \<open>The two ends of a connection\<close>

text \<open>An end is the library, the address for arrays and the object.\<close>

type_synonym 'a ws_end = "'a aead_scheme \<times> addr \<times> js"

fun ws_put :: "'a ws_end \<Rightarrow> bytes \<Rightarrow> (bytes \<times> 'a ws_end) option" where
  "ws_put (L, stk, js) msg =
     (case js_write L stk msg js of
        Some (Inr _, js') \<Rightarrow> map_option (\<lambda>frame. (frame, L, stk, js')) (last (js_sent js'))
      | _ \<Rightarrow> None)"

fun ws_get :: "'a ws_end \<Rightarrow> (bytes \<times> 'a ws_end) option" where
  "ws_get (L, stk, js) =
     (case js_read L stk js of
        Some (Inr v, js') \<Rightarrow> Some (view_bytes js' v, L, stk, js')
      | _ \<Rightarrow> None)"

fun ws_wire :: "'a ws_end \<Rightarrow> bytes" where
  "ws_wire (L, stk, js) = concat (js_queue js)"

fun ws_ready :: "'a ws_end \<Rightarrow> bool" where
  "ws_ready (L, stk, js) \<longleftrightarrow> aead_ok L \<and> js_ok stk js \<and> chan_ok (send_chan (ln_crypto_state (js_ln js)))"

fun ws_paired :: "'a ws_end \<Rightarrow> 'a ws_end \<Rightarrow> bool" where
  "ws_paired (L, stk, js) (L', stk', js') \<longleftrightarrow> ws_ready (L, stk, js) \<and> L' = L \<and> js_ok stk' js' \<and> js_connected js' \<and>
     in_sync (ln_crypto_state (js_ln js)) (ln_crypto_state (js_ln js'))"

text \<open>Every message of the protocol but the empty one, whose length 0 is taken for a failure.\<close>

definition ws_fits :: "bytes \<Rightarrow> bool" where
  "ws_fits msg \<longleftrightarrow> msg \<noteq> [] \<and> length msg < 2 ^ 16"

lemma js_write_eq:
  assumes "aead_ok L" "js_ok stk js" "chan_ok (send_chan (ln_crypto_state (js_ln js)))" "length msg < 2 ^ 16"
    and "bolt8_encrypt L (send_chan (ln_crypto_state (js_ln js))) msg = (packet, ch)"
  shows "js_write L stk msg js = Some (Inr (),
      js\<lparr>js_ln := after_write (js_ln js) ch,
         js_mem := mwrite (mwrite (js_mem js) stk msg) (c_start (ln_msgbuf (js_ln js))) packet,
         js_sent := js_sent js @ [Some packet]\<rparr>)"
  using js_encrypt_eq [OF assms] length_bolt8_packet [OF assms(1,3), of msg] assms(5)
  by (simp add: js_write_def view_bytes_def)

lemma ws_put_eq:
  assumes "ws_ready (L, stk, js)" "length msg < 2 ^ 16"
    and "bolt8_encrypt L (send_chan (ln_crypto_state (js_ln js))) msg = (packet, ch)"
  shows "ws_put (L, stk, js) msg = Some (packet, L, stk, js\<lparr>js_ln := after_write (js_ln js) ch,
     js_mem := mwrite (mwrite (js_mem js) stk msg) (c_start (ln_msgbuf (js_ln js))) packet,
     js_sent := js_sent js @ [Some packet]\<rparr>)"
  using js_write_eq [of L stk js msg packet ch] assms by simp

lemma ws_put_ready:
  assumes "ws_ready s" "ws_fits msg"
  shows "\<exists>c s'. ws_put s msg = Some (c, s') \<and> ws_ready s'"
proof -
  obtain L stk js where s: "s = (L, stk, js)" by (cases s)
  obtain packet ch where e: "bolt8_encrypt L (send_chan (ln_crypto_state (js_ln js))) msg = (packet, ch)"
    by (cases "bolt8_encrypt L (send_chan (ln_crypto_state (js_ln js))) msg")
  have "chan_ok ch" using bolt8_encrypt_ok [of "send_chan (ln_crypto_state (js_ln js))" L msg] assms(1) e by (simp add: s)
  then show ?thesis using ws_put_eq [of L stk js msg packet ch] js_ok_after_write [of stk js] assms e
    by (simp add: s ws_fits_def)
qed

lemma ws_get_put:
  assumes "ws_paired s r" "ws_fits msg" "ws_put s msg = Some (c, s')" "ws_wire r = c @ rest"
  shows "\<exists>r'. ws_get r = Some (msg, r') \<and> ws_wire r' = rest \<and> ws_paired s' r'"
proof -
  obtain L stk js where s: "s = (L, stk, js)" by (cases s)
  obtain stk' jsr where r: "r = (L, stk', jsr)" using assms(1) s by (cases r) simp
  obtain packet ch where e: "bolt8_encrypt L (send_chan (ln_crypto_state (js_ln js))) msg = (packet, ch)"
    by (cases "bolt8_encrypt L (send_chan (ln_crypto_state (js_ln js))) msg")
  have pair: "aead_ok L" "ws_ready (L, stk, js)" "js_ok stk' jsr" "js_connected jsr"
      "chan_ok (send_chan (ln_crypto_state (js_ln js)))"
      "recv_chan (ln_crypto_state (js_ln jsr)) = send_chan (ln_crypto_state (js_ln js))"
    using assms(1) by (simp_all add: s r in_sync_def)
  have msg: "msg \<noteq> []" "length msg < 2 ^ 16" using assms(2) by (simp_all add: ws_fits_def)
  have ch: "chan_ok ch" using bolt8_encrypt_ok [OF pair(5), of L msg] e by simp
  note put = ws_put_eq [OF pair(2) msg(2) e]
  have c: "c = packet" using put assms(3) by (simp add: s del: ws_put.simps)
  have "concat (js_queue jsr) = packet @ rest" using assms(4) c by (simp add: r)
  note js_read_eq [OF pair(1,3,4) _ msg _ this, unfolded pair(6), OF pair(5) e]
  then obtain queue m where "js_read L stk' jsr = Some (Inr (c_start (ln_msgbuf (js_ln jsr)), length msg), js_after_read jsr (length msg) ch queue m)"
      "mread m (c_start (ln_msgbuf (js_ln jsr))) (length msg) = msg" "concat queue = rest"
    by blast
  then show ?thesis
    using put assms(3) pair(1-4) msg(2) ch js_ok_after_write [of stk js] js_ok_after_read [OF pair(3) msg(2)]
    by (auto simp: s r view_bytes_def in_sync_def simp del: ws_put.simps)
qed

interpretation ws: stream_channel ws_put ws_ready ws_fits ws_get ws_wire ws_paired
proof unfold_locales
  fix s r :: "'a ws_end" and r' :: "'a ws_end"
  show "ws_paired s r \<Longrightarrow> ws_ready s" by (cases s; cases r) simp
next
  fix s :: "'a ws_end" and msg
  assume "ws_ready s" "ws_fits msg"
  then show "\<exists>c s'. ws_put s msg = Some (c, s') \<and> ws_ready s'" by (rule ws_put_ready)
next
  fix s s' r :: "'a ws_end" and msg c rest
  assume "ws_paired s r" "ws_fits msg" "ws_put s msg = Some (c, s')" "ws_wire r = c @ rest"
  then show "\<exists>r'. ws_get r = Some (msg, r') \<and> ws_wire r' = rest \<and> ws_paired s' r'" by (rule ws_get_put)
qed

section \<open>Replies to an rpc\<close>

definition queued :: "js \<Rightarrow> nat" where
  "queued js = length (concat (js_queue js))"

lemma read_chunks_shrinks:
  "read_chunks n chunks count queue = (Some out, queue') \<Longrightarrow> count < n \<Longrightarrow>
   length (concat queue') + (n - count) = length (concat queue)"
proof (induction n chunks count queue rule: read_chunks.induct)
  case (1 n chunks count)
  then show ?case by simp
next
  case (2 n chunks count res queue)
  consider "int (length res) > int n - int count" | "int (length res) = int n - int count" | "int (length res) < int n - int count" by linarith
  then show ?case
  proof cases
    case 3
    then show ?thesis using "2.IH" [OF refl] "2.prems" by (auto simp: Let_def)
  qed (use "2.prems" in \<open>auto simp: Let_def\<close>)
qed

lemma js_read_all_shrinks: "js_read_all n js = Some (Inr x, js') \<Longrightarrow> 0 < n \<Longrightarrow> queued js' + n = queued js"
  by (auto simp: js_read_all_def queued_def split: if_splits prod.splits option.splits dest!: read_chunks_shrinks)

lemma js_thenE:
  assumes "js_then r f = Some (Inr y, js')"
  obtains x js where "r = Some (Inr x, js)" "f x js = Some (Inr y, js')"
  using assms by (auto simp: js_then_def split: option.splits sum.splits)

lemma js_recv_shrinks:
  assumes "js_recv L stk js = Some (Inr x, js')"
  shows "queued js' < queued js"
proof -
  obtain v js1 where 1: "js_read L stk js = Some (Inr v, js1)" "js' = js1"
    using assms by (auto simp: js_recv_def elim!: js_thenE)
  obtain sz js2 enc js3 where 2: "js_read_header L stk js = Some (Inr sz, js2)" "js_read_all (sz + 16) js2 = Some (Inr enc, js3)"
      "js_decrypt L stk enc js3 = Some (Inr v, js1)"
    using 1(1) by (auto simp: js_read_def elim!: js_thenE)
  obtain header js4 where 4: "js_read_all 18 js = Some (Inr header, js4)" "js_queue js2 = js_queue js4"
    using 2(1) by (auto simp: js_read_header_def bind_eq_Some_conv split: if_splits elim!: js_thenE)
  have "js_queue js1 = js_queue js3"
    using 2(3) by (auto simp: js_decrypt_def Let_def bind_eq_Some_conv split: if_splits)
  then show ?thesis using js_read_all_shrinks [OF 2(2)] js_read_all_shrinks [OF 4(1)] 4(2) 1(2) by (simp add: queued_def)
qed

text \<open>
  The loop of \<open>read_all_rpc\<close>; the text decoder is applied to its result. It ends because every
  message takes bytes from the queue.
\<close>

function js_read_all_rpc :: "'a aead_scheme \<Rightarrow> addr \<Rightarrow> bytes list \<Rightarrow> js \<Rightarrow> bytes js_io" where
  "js_read_all_rpc L stk chunks js =
     (case js_recv L stk js of
        None \<Rightarrow> None
      | Some (Inl e, js1) \<Rightarrow> Some (Inl e, js1)
      | Some (Inr (typ, msg), js1) \<Rightarrow>
          (if typ = ucast COMMANDO_REPLY_TERM then Some (Inr (concat (chunks @ [drop 8 msg])), js1)
           else if typ = ucast COMMANDO_REPLY_CONTINUES then js_read_all_rpc L stk (chunks @ [drop 8 msg]) js1
           else js_read_all_rpc L stk chunks js1))"
  by pat_completeness auto
termination
  by (relation "measure (\<lambda>(L, stk, chunks, js). queued js)") (auto dest: js_recv_shrinks)

declare js_read_all_rpc.simps [simp del]

text \<open>\<open>rpc\<close> from the request on, which \<open>commando_make_rpc_msg\<close> makes, to the text that is parsed.\<close>

definition js_rpc :: "'a aead_scheme \<Rightarrow> addr \<Rightarrow> bytes \<Rightarrow> js \<Rightarrow> bytes js_io" where
  "js_rpc L stk msg js = js_then (js_write L stk msg js) (\<lambda>_ js. js_read_all_rpc L stk [] js)"

lemma parse_msgtype_eq: "parse_msgtype (be_bytes 2 (t :: u16)) = ucast t"
proof -
  have "parse_msgtype (be_bytes 2 t) = push_bit 8 (ucast (ucast (drop_bit 8 t) :: u8)) OR ucast (ucast t :: u8)"
    by (simp add: be_bytes_234 parse_msgtype_def element_at_def)
  also have "\<dots> = ucast t"
    by (rule bit_word_eqI)
      (auto simp: bit_or_iff bit_push_bit_iff bit_ucast_iff bit_drop_bit_eq dest: bit_imp_le_length)
  finally show ?thesis .
qed

section \<open>What stays with an end\<close>

lemma js_encrypt_sent: "js_encrypt L stk msg js = Some (Inr v, js') \<Longrightarrow> js_sent js' = js_sent js"
  by (auto simp: js_encrypt_def Let_def bind_eq_Some_conv split: if_splits)

lemma ws_put_sent:
  assumes "ws_put (L, stk, js) msg = Some (frame, t)"
  shows "\<exists>js'. t = (L, stk, js') \<and> js_sent js' = js_sent js @ [Some frame]"
  using assms js_encrypt_sent [of L stk msg js]
  by (auto simp: js_write_def split: option.splits sum.splits elim!: js_thenE)

lemma ws_put_all_sent:
  "run_all ws_put (L, stk, js) msgs = Some (frames, t) \<Longrightarrow>
   \<exists>js'. t = (L, stk, js') \<and> js_sent js' = js_sent js @ map Some frames"
proof (induction msgs arbitrary: js frames)
  case Nil
  then show ?case by auto
next
  case (Cons msg msgs)
  then obtain frame t1 frames' where f: "ws_put (L, stk, js) msg = Some (frame, t1)" "run_all ws_put t1 msgs = Some (frames', t)"
      "frames = frame # frames'"
    by (auto simp: bind_eq_Some_conv simp del: ws_put.simps)
  from ws_put_sent [OF f(1)] obtain js1 where "t1 = (L, stk, js1)" "js_sent js1 = js_sent js @ [Some frame]" by blast
  with Cons.IH [of js1 frames'] f(2,3) show ?case by auto
qed

lemma ws_get_end: "ws_get (L, stk, js) = Some (msg, t) \<Longrightarrow> \<exists>js'. t = (L, stk, js')"
  by (auto split: option.splits sum.splits)

lemma ws_get_all_end: "get_all ws_get n (L, stk, js) = Some (msgs, t) \<Longrightarrow> \<exists>js'. t = (L, stk, js')"
proof (induction n arbitrary: js msgs)
  case 0
  then show ?case by auto
next
  case (Suc n)
  then obtain msg t1 msgs' where "ws_get (L, stk, js) = Some (msg, t1)" "get_all ws_get n t1 = Some (msgs', t)"
    by (auto simp: bind_eq_Some_conv simp del: ws_get.simps)
  then show ?case using ws_get_end Suc.IH by blast
qed

section \<open>Replies\<close>

text \<open>What is kept of a message of a reply.\<close>

definition reply_part :: "u16 \<times> bytes \<Rightarrow> bytes" where
  "reply_part = (\<lambda>(t, p). if t = COMMANDO_REPLY_CONTINUES \<or> t = COMMANDO_REPLY_TERM then drop 8 p else [])"

lemma js_recv_eq:
  assumes "aead_ok L" "js_ok stk js" "js_connected js" "chan_ok (recv_chan (ln_crypto_state (js_ln js)))" "length p + 2 < 2 ^ 16"
    and "concat (js_queue js) = wire_of L (recv_chan (ln_crypto_state (js_ln js))) ((t, p) # ms) @ rest"
  shows "\<exists>js'. js_recv L stk js = Some (Inr (ucast t, p), js') \<and> js_ok stk js' \<and> js_connected js' \<and>
    chan_ok (recv_chan (ln_crypto_state (js_ln js'))) \<and> js_sent js' = js_sent js \<and>
    send_chan (ln_crypto_state (js_ln js')) = send_chan (ln_crypto_state (js_ln js)) \<and>
    concat (js_queue js') = wire_of L (recv_chan (ln_crypto_state (js_ln js'))) ms @ rest"
proof -
  let ?msg = "be_bytes 2 t @ p" and ?ch = "recv_chan (ln_crypto_state (js_ln js))"
  obtain packet ch where e: "bolt8_encrypt L ?ch ?msg = (packet, ch)" by (cases "bolt8_encrypt L ?ch ?msg")
  have ch: "chan_ok ch" using bolt8_encrypt_ok [OF assms(4), of L ?msg] e by simp
  have "?msg \<noteq> []" by (simp add: be_bytes_234)
  from js_read_eq [OF assms(1-4) this _ e] obtain queue m where
    r: "js_read L stk js = Some (Inr (c_start (ln_msgbuf (js_ln js)), length ?msg), js_after_read js (length ?msg) ch queue m)"
      "mread m (c_start (ln_msgbuf (js_ln js))) (length ?msg) = ?msg" "concat queue = wire_of L ch ms @ rest"
    using assms(5,6) e by fastforce
  have "view_bytes (js_after_read js (length ?msg) ch queue m) (c_start (ln_msgbuf (js_ln js)), length ?msg) = ?msg"
    using r(2) by (simp add: view_bytes_def)
  moreover have "length ?msg < 2 ^ 16" using assms(5) by simp
  ultimately show ?thesis
    using r(1,3) ch assms(3) js_ok_after_read [OF assms(2), of "length ?msg" ch queue m]
    by (simp add: js_recv_def parse_msgtype_eq)
qed

lemma read_all_rpc_collects:
  "aead_ok L \<Longrightarrow> js_ok stk js \<Longrightarrow> js_connected js \<Longrightarrow> chan_ok (recv_chan (ln_crypto_state (js_ln js))) \<Longrightarrow>
   \<forall>(t, p) \<in> set ms. t \<noteq> COMMANDO_REPLY_TERM \<and> length p + 2 < 2 ^ 16 \<Longrightarrow> length p + 2 < 2 ^ 16 \<Longrightarrow>
   concat (js_queue js) = wire_of L (recv_chan (ln_crypto_state (js_ln js))) (ms @ [(COMMANDO_REPLY_TERM, p)]) @ rest \<Longrightarrow>
   \<exists>js'. js_read_all_rpc L stk chunks js =
      Some (Inr (concat chunks @ concat (map reply_part (ms @ [(COMMANDO_REPLY_TERM, p)]))), js') \<and>
     concat (js_queue js') = rest \<and> js_sent js' = js_sent js"
proof (induction ms arbitrary: js chunks)
  case Nil
  then obtain js1 where "js_recv L stk js = Some (Inr (ucast COMMANDO_REPLY_TERM, p), js1)" "js_sent js1 = js_sent js"
      "concat (js_queue js1) = wire_of L (recv_chan (ln_crypto_state (js_ln js1))) [] @ rest"
    using js_recv_eq [of L stk js p COMMANDO_REPLY_TERM "[]" rest] by auto
  then show ?case by (simp add: js_read_all_rpc.simps reply_part_def)
next
  case (Cons tp ms)
  obtain t q where tp: "tp = (t, q)" by (cases tp)
  have q: "length q + 2 < 2 ^ 16" "t \<noteq> COMMANDO_REPLY_TERM" "\<forall>(t, p) \<in> set ms. t \<noteq> COMMANDO_REPLY_TERM \<and> length p + 2 < 2 ^ 16"
    using Cons.prems(5) by (auto simp: tp)
  obtain js1 where js1: "js_recv L stk js = Some (Inr (ucast t, q), js1)" "js_ok stk js1" "js_connected js1"
      "chan_ok (recv_chan (ln_crypto_state (js_ln js1)))" "js_sent js1 = js_sent js"
      "concat (js_queue js1) = wire_of L (recv_chan (ln_crypto_state (js_ln js1))) (ms @ [(COMMANDO_REPLY_TERM, p)]) @ rest"
    using js_recv_eq [OF Cons.prems(1-4) q(1), of t "ms @ [(COMMANDO_REPLY_TERM, p)]" rest] Cons.prems(7) by (auto simp: tp)
  have "ucast t = (ucast u :: u32) \<longleftrightarrow> t = u" for u :: u16
    by (simp add: word_uint_eq_iff uint_up_ucast is_up)
  then show ?case
    using Cons.IH [OF Cons.prems(1) js1(2-4) q(3) Cons.prems(6) js1(6), of "chunks @ [drop 8 q]"]
      Cons.IH [OF Cons.prems(1) js1(2-4) q(3) Cons.prems(6) js1(6), of chunks] js1(1,5) q(2)
    by (auto simp: js_read_all_rpc.simps [of L stk chunks js] tp reply_part_def)
qed

section \<open>Views after a write\<close>

lemma mread_overwritten:
  assumes "mread m a (length p) = p"
  shows "mread (mwrite m a bs) a (length p) = take (length p) (bs @ drop (length bs) p)"
proof -
  have "m (a + i) = p ! i" if "i < length p" for i
    using arg_cong [OF assms, of "\<lambda>xs. xs ! i"] that by simp
  then show ?thesis by (intro nth_equalityI) (auto simp: mwrite_def nth_append)
qed

lemma view_after_write:
  assumes "aead_ok L" "js_ok stk js" "chan_ok (send_chan (ln_crypto_state (js_ln js)))" "length q < 2 ^ 16" "length p < 2 ^ 16"
    and "view_bytes js (c_start (ln_msgbuf (js_ln js)), length p) = p"
  shows "\<exists>js'. js_write L stk q js = Some (Inr (), js') \<and>
    (let packet = fst (bolt8_encrypt L (send_chan (ln_crypto_state (js_ln js))) q)
     in view_bytes js' (c_start (ln_msgbuf (js_ln js)), length p) = take (length p) (packet @ drop (length packet) p))"
proof -
  let ?s = "c_start (ln_msgbuf (js_ln js))"
  obtain packet ch where e: "bolt8_encrypt L (send_chan (ln_crypto_state (js_ln js))) q = (packet, ch)"
    by (cases "bolt8_encrypt L (send_chan (ln_crypto_state (js_ln js))) q")
  have "stk + 2 ^ 17 \<le> ?s \<or> ?s + MSGBUF_MEM \<le> stk" using assms(2) by (auto simp: js_ok_def ln_wf_def apart_def)
  then have "mread (mwrite (js_mem js) stk q) ?s (length p) = p"
    using assms(4-6) by (subst mread_mwrite_disjoint) (auto simp: view_bytes_def MSGBUF_MEM_def)
  from mread_overwritten [OF this, of packet] js_write_eq [OF assms(1-4) e] show ?thesis
    by (simp add: e view_bytes_def Let_def)
qed

section \<open>Properties\<close>

text \<open>C19: Messages between two objects of the wrapper: any sequence of non-empty messages below 65536
  bytes, so also those \<open>lnsocket_read\<close> has no room for, that one end gives to \<open>write\<close> is
  sent as one frame each; however the network cuts the frames into chunks, the matching end gets
  them with \<open>read\<close>, in order and across key rotations, and what follows stays in its queue.\<close>

theorem websocket_delivers:
  assumes "aead_ok L" "js_ok stk a" "js_ok stk' b" "js_connected b"
    and "in_sync (ln_crypto_state (js_ln a)) (ln_crypto_state (js_ln b))"
    and "\<forall>msg \<in> set msgs. msg \<noteq> [] \<and> length msg < 2 ^ 16"
  shows "\<exists>frames a'. run_all ws_put (L, stk, a) msgs = Some (frames, L, stk, a') \<and>
    js_sent a' = js_sent a @ map Some frames \<and>
    (\<forall>chunks rest. concat chunks = concat frames @ rest \<longrightarrow>
      (\<exists>b'. get_all ws_get (length msgs) (L, stk', b\<lparr>js_queue := chunks\<rparr>) = Some (msgs, L, stk', b') \<and>
        concat (js_queue b') = rest))"
proof -
  have fits: "\<forall>msg \<in> set msgs. ws_fits msg" using assms(6) by (simp add: ws_fits_def)
  have ready: "ws_ready (L, stk, a)" using assms(1,2,5) by (simp add: in_sync_def)
  have paired: "ws_paired (L, stk, a) (L, stk', b\<lparr>js_queue := chunks\<rparr>)" for chunks
    using assms ready by (simp add: js_ok_def)
  obtain frames s' where put: "run_all ws_put (L, stk, a) msgs = Some (frames, s')" using ws.put_all [OF ready fits] by blast
  then obtain a' where a': "s' = (L, stk, a')" "js_sent a' = js_sent a @ map Some frames" using ws_put_all_sent by blast
  have "\<exists>b'. get_all ws_get (length msgs) (L, stk', b\<lparr>js_queue := chunks\<rparr>) = Some (msgs, L, stk', b') \<and> concat (js_queue b') = rest"
    if "concat chunks = concat frames @ rest" for chunks rest
  proof -
    have "ws_wire (L, stk', b\<lparr>js_queue := chunks\<rparr>) = concat frames @ rest" using that by simp
    from ws.get_all_put_all [OF paired fits put this] obtain r' where
      r': "get_all ws_get (length msgs) (L, stk', b\<lparr>js_queue := chunks\<rparr>) = Some (msgs, r')" "ws_wire r' = rest" by blast
    with ws_get_all_end [OF r'(1)] show ?thesis by auto
  qed
  then show ?thesis using put a' by blast
qed

definition example_js :: js where
  "example_js = \<lparr>js_ln = example_ln, js_mem = (\<lambda>_. 0), js_rnd = [replicate 32 4], js_queue = [], js_connected = True, js_sent = []\<rparr>"

lemma example_js_ok: "js_ok 200000 example_js" "js_connected example_js"
  by (simp_all add: js_ok_def example_js_def example_ln_wf apart_def example_ln_simps)

theorem websocket_delivers_witness:
  "\<exists>frames a'. run_all ws_put (example_aead, 200000, example_js) (replicate 600 [1, 2, 3] @ [replicate 65535 7]) =
      Some (frames, example_aead, 200000, a') \<and>
    js_sent a' = js_sent example_js @ map Some frames \<and>
    (\<forall>chunks rest. concat chunks = concat frames @ rest \<longrightarrow>
      (\<exists>b'. get_all ws_get (length (replicate 600 [1, 2, 3] @ [replicate 65535 (7 :: u8)]))
          (example_aead, 200000, example_js\<lparr>js_ln := example_ln\<lparr>ln_crypto_state := example_peer\<rparr>, js_queue := chunks\<rparr>) =
          Some (replicate 600 [1, 2, 3] @ [replicate 65535 7], example_aead, 200000, b') \<and>
        concat (js_queue b') = rest))"
proof (rule websocket_delivers [OF example_aead_ok example_js_ok(1)])
  let ?b = "example_js\<lparr>js_ln := example_ln\<lparr>ln_crypto_state := example_peer\<rparr>\<rparr>"
  show "js_ok 200000 ?b" "js_connected ?b"
    using example_js_ok by (auto simp: js_ok_def example_js_def ln_wf_def apart_def)
  show "in_sync (ln_crypto_state (js_ln example_js)) (ln_crypto_state (js_ln ?b))"
    using example_sync by (simp add: example_js_def example_ln_simps)
qed simp

text \<open>C18: The handshake of the wrapper: \<open>connect\<close>, with the hexadecimal key of a node, sends an Act One the
  node accepts, takes the 50 bytes of Act Two from the queue in whatever chunks they come, where
  the handshake over a socket needs them in one read, and sends an Act Three from
  which the node recovers this side's key. The two sides then hold each other's keys, with
  nonces 0; what came after Act Two stays in the queue.\<close>

theorem js_connect_reaches_peer:
  assumes "aead_ok L" "secp_ok L"
    and "pubkey_create L (kp_priv ls) = (True, kp_pub ls)"
    and "pubkey_create L (kp_priv re) = (True, kp_pub re)"
    and "pubkey_create L (kp_priv (ln_key (js_ln js))) = (True, kp_pub (ln_key (js_ln js)))"
    and "generate_key L (js_rnd js) = Some (e, rnd')" "\<exists>b \<in> set (kp_priv (ln_key (js_ln js))). b \<noteq> 0" "js_connected js"
  shows "\<exists>act1 st1 msg2 st2 act3 rk sk ck.
    responder_act_one L (kp_priv ls) (bolt8_start (pubkey_serialize L (kp_pub ls))) act1 = Some st1 \<and>
    responder_act_two L re st1 = (msg2, st2) \<and>
    responder_act_three L re st2 act3 = Some (kp_pub (ln_key (js_ln js)), rk, sk, ck) \<and>
    (\<forall>chunks rest. concat chunks = msg2 @ rest \<longrightarrow>
      (\<exists>js'. js_connect L stk (hex_encode (pubkey_serialize L (kp_pub ls))) (js\<lparr>js_queue := chunks\<rparr>) = Some (Inr (), js') \<and>
        js_sent js' = js_sent js @ [Some act1, Some act3] \<and> concat (js_queue js') = rest \<and> ln_same (js_ln js) (js_ln js') \<and>
        ln_crypto_state (js_ln js') = \<lparr>cs_rn = 0, cs_sn = 0, cs_sk = rk, cs_rk = sk, cs_s_ck = ck, cs_r_ck = ck\<rparr>))"
proof -
  let ?id = "hex_encode (pubkey_serialize L (kp_pub ls))"
  let ?m = "mwrite (js_mem js) stk (?id @ [0])"
  obtain act1 ln1 st1 msg2 st2 act3 rk sk ck where
    h: "lnsocket_act_one L (js_ln js) ?id (js_rnd js) no_net ?m = Some ((Some act1, rnd'), ln1, no_net, ?m)"
      "responder_act_one L (kp_priv ls) (bolt8_start (pubkey_serialize L (kp_pub ls))) (act_one_bytes act1) = Some st1"
      "responder_act_two L re st1 = (msg2, st2)" "length msg2 = ACT_TWO_SIZE"
      "responder_act_three L re st2 (act_three_bytes act3) = Some (kp_pub (ln_key (js_ln js)), rk, sk, ck)"
    and act2: "\<And>m. \<exists>ln2. lnsocket_act_two L ln1 (act_two_of_bytes msg2) m = Some (Some act3, ln2, m) \<and> ln_same (js_ln js) ln2 \<and>
      ln_crypto_state ln2 = \<lparr>cs_rn = 0, cs_sn = 0, cs_sk = rk, cs_rk = sk, cs_s_ck = ck, cs_r_ck = ck\<rparr>"
    by (rule handshake_without_socket [OF assms(1-7), of no_net ?m]) (rule that, assumption+)
  have "\<exists>js'. js_connect L stk ?id (js\<lparr>js_queue := chunks\<rparr>) = Some (Inr (), js') \<and>
      js_sent js' = js_sent js @ [Some (act_one_bytes act1), Some (act_three_bytes act3)] \<and> concat (js_queue js') = rest \<and>
      ln_same (js_ln js) (js_ln js') \<and>
      ln_crypto_state (js_ln js') = \<lparr>cs_rn = 0, cs_sn = 0, cs_sk = rk, cs_rk = sk, cs_s_ck = ck, cs_r_ck = ck\<rparr>"
    if "concat chunks = msg2 @ rest" for chunks rest
  proof -
    let ?js1 = "js\<lparr>js_queue := chunks, js_ln := ln1, js_mem := ?m, js_rnd := rnd', js_sent := js_sent js @ [Some (act_one_bytes act1)]\<rparr>"
    have "js_connected ?js1" "concat (js_queue ?js1) = msg2 @ rest" "msg2 \<noteq> []"
      using that assms(8) h(4) by (auto simp: ACT_TWO_SIZE_def)
    then obtain queue where q: "js_read_all ACT_TWO_SIZE ?js1 = Some (Inr msg2, ?js1\<lparr>js_queue := queue\<rparr>)" "concat queue = rest"
      using js_read_all_takes [of ?js1 msg2 rest ACT_TWO_SIZE] h(4) by blast
    from act2 [of "mwrite ?m stk msg2"] obtain ln2 where
      "lnsocket_act_two L ln1 (act_two_of_bytes msg2) (mwrite ?m stk msg2) = Some (Some act3, ln2, mwrite ?m stk msg2)"
      "ln_same (js_ln js) ln2" "ln_crypto_state ln2 = \<lparr>cs_rn = 0, cs_sn = 0, cs_sk = rk, cs_rk = sk, cs_s_ck = ck, cs_r_ck = ck\<rparr>"
      by blast
    then show ?thesis using h(1,4) q by (simp add: js_connect_def js_act_one_data_def js_act_two_def)
  qed
  then show ?thesis using h(2,3,5) by blast
qed

theorem js_connect_reaches_peer_witness:
  "\<exists>act1 st1 msg2 st2 act3 rk sk ck.
    responder_act_one example_lib (kp_priv (example_pair 2))
      (bolt8_start (pubkey_serialize example_lib (kp_pub (example_pair 2)))) act1 = Some st1 \<and>
    responder_act_two example_lib (example_pair 3) st1 = (msg2, st2) \<and>
    responder_act_three example_lib (example_pair 3) st2 act3 = Some (kp_pub (ln_key (js_ln example_js)), rk, sk, ck) \<and>
    (\<forall>chunks rest. concat chunks = msg2 @ rest \<longrightarrow>
      (\<exists>js'. js_connect example_lib 200000 (hex_encode (pubkey_serialize example_lib (kp_pub (example_pair 2))))
          (example_js\<lparr>js_queue := chunks\<rparr>) = Some (Inr (), js') \<and>
        js_sent js' = js_sent example_js @ [Some act1, Some act3] \<and> concat (js_queue js') = rest \<and>
        ln_same (js_ln example_js) (js_ln js') \<and>
        ln_crypto_state (js_ln js') = \<lparr>cs_rn = 0, cs_sn = 0, cs_sk = rk, cs_rk = sk, cs_s_ck = ck, cs_r_ck = ck\<rparr>))"
proof (rule js_connect_reaches_peer [OF example_lib_ok])
  show "pubkey_create example_lib (kp_priv (example_pair 2)) = (True, kp_pub (example_pair 2))"
    and "pubkey_create example_lib (kp_priv (example_pair 3)) = (True, kp_pub (example_pair 3))"
    and "pubkey_create example_lib (kp_priv (ln_key (js_ln example_js))) = (True, kp_pub (ln_key (js_ln example_js)))"
    using example_pair_valid [of 1] by (simp_all add: example_pair_valid example_ln_def example_js_def)
  show "generate_key example_lib (js_rnd example_js) = Some (example_pair 4, [])"
    using example_pair_valid [of 4] by (simp add: example_pair_def example_js_def)
  show "\<exists>b \<in> set (kp_priv (ln_key (js_ln example_js))). b \<noteq> 0" by (simp add: example_js_def example_ln_def example_pair_def)
  show "js_connected example_js" by (rule example_js_ok)
qed

text \<open>C21: What \<open>read\<close> returns is a view of the message buffer, into which the next message is
  encrypted: after a \<open>write\<close>, the message that was read shows the bytes of the packet sent, as far
  as they reach.\<close>

theorem read_result_is_overwritten:
  assumes "aead_ok L" "js_ok stk js" "js_connected js"
    and "chan_ok (recv_chan (ln_crypto_state (js_ln js)))" "chan_ok (send_chan (ln_crypto_state (js_ln js)))"
    and "p \<noteq> []" "length p < 2 ^ 16" "length q < 2 ^ 16"
    and "concat (js_queue js) = fst (bolt8_encrypt L (recv_chan (ln_crypto_state (js_ln js))) p) @ rest"
  shows "\<exists>v js1 js2. js_read L stk js = Some (Inr v, js1) \<and> view_bytes js1 v = p \<and>
    js_write L stk q js1 = Some (Inr (), js2) \<and>
    (let packet = fst (bolt8_encrypt L (send_chan (ln_crypto_state (js_ln js))) q)
     in view_bytes js2 v = take (length p) (packet @ drop (length packet) p))"
proof -
  let ?s = "c_start (ln_msgbuf (js_ln js))"
  obtain packet ch where e: "bolt8_encrypt L (recv_chan (ln_crypto_state (js_ln js))) p = (packet, ch)"
    by (cases "bolt8_encrypt L (recv_chan (ln_crypto_state (js_ln js))) p")
  then obtain queue m where r: "js_read L stk js = Some (Inr (?s, length p), js_after_read js (length p) ch queue m)"
      "mread m ?s (length p) = p"
    using js_read_eq [OF assms(1-4,6,7) e, of rest] assms(9) by auto
  let ?js1 = "js_after_read js (length p) ch queue m"
  have s: "c_start (ln_msgbuf (js_ln ?js1)) = ?s" by (simp add: js_after_read_def after_decrypt_def)
  have "view_bytes ?js1 (?s, length p) = p" using r(2) by (simp add: view_bytes_def)
  with view_after_write [OF assms(1) js_ok_after_read [OF assms(2,7)], of ch queue m q p] assms(5,7,8) r(1) show ?thesis
    by (simp add: s)
qed

theorem read_result_is_overwritten_witness:
  "\<exists>v js1 js2. js_read example_aead 200000
      (example_js\<lparr>js_queue := [fst (bolt8_encrypt example_aead (recv_chan example_state) [1, 2, 3])]\<rparr>) = Some (Inr v, js1) \<and>
    view_bytes js1 v = [1, 2, 3] \<and> js_write example_aead 200000 [4] js1 = Some (Inr (), js2) \<and>
    (let packet = fst (bolt8_encrypt example_aead (send_chan (ln_crypto_state (js_ln
        (example_js\<lparr>js_queue := [fst (bolt8_encrypt example_aead (recv_chan example_state) [1, 2, 3])]\<rparr>)))) [4])
     in view_bytes js2 v = take (length [1, 2, 3 :: u8]) (packet @ drop (length packet) [1, 2, 3]))"
proof (rule read_result_is_overwritten [OF example_aead_ok, of _ _ _ _ "[]"])
  let ?js = "example_js\<lparr>js_queue := [fst (bolt8_encrypt example_aead (recv_chan example_state) [1, 2, 3])]\<rparr>"
  have cs: "ln_crypto_state (js_ln ?js) = example_state" by (simp add: example_js_def example_ln_simps)
  show "js_ok 200000 ?js" "js_connected ?js" using example_js_ok by (simp_all add: js_ok_def)
  show "chan_ok (recv_chan (ln_crypto_state (js_ln ?js)))" "chan_ok (send_chan (ln_crypto_state (js_ln ?js)))"
    unfolding cs using example_sync by (simp_all add: in_sync_def)
  show "concat (js_queue ?js) = fst (bolt8_encrypt example_aead (recv_chan (ln_crypto_state (js_ln ?js))) [1, 2, 3]) @ []"
    unfolding cs by simp
qed simp_all

text \<open>C20: An rpc of the wrapper: the request is sent as one packet, and when the node answers with
  messages of any types up to a final reply, in whatever chunks, the text that is parsed is that of
  all parts of the reply in order, without their request ids; the rest stays in the queue. It needs
  no fuel: the loop ends with the queue.\<close>

theorem js_rpc_collects_reply:
  assumes "aead_ok L" "js_ok stk js" "js_connected js"
    and "chan_ok (recv_chan (ln_crypto_state (js_ln js)))" "chan_ok (send_chan (ln_crypto_state (js_ln js)))"
    and "length msg < 2 ^ 16" "length p + 2 < 2 ^ 16"
    and "\<forall>(t, p) \<in> set ms. t \<noteq> COMMANDO_REPLY_TERM \<and> length p + 2 < 2 ^ 16"
    and "concat (js_queue js) = wire_of L (recv_chan (ln_crypto_state (js_ln js))) (ms @ [(COMMANDO_REPLY_TERM, p)]) @ rest"
  shows "\<exists>js'. js_rpc L stk msg js =
      Some (Inr (concat (map reply_part (ms @ [(COMMANDO_REPLY_TERM, p)]))), js') \<and>
    js_sent js' = js_sent js @ [Some (fst (bolt8_encrypt L (send_chan (ln_crypto_state (js_ln js))) msg))] \<and>
    concat (js_queue js') = rest"
proof -
  obtain packet ch where e: "bolt8_encrypt L (send_chan (ln_crypto_state (js_ln js))) msg = (packet, ch)"
    by (cases "bolt8_encrypt L (send_chan (ln_crypto_state (js_ln js))) msg")
  let ?js1 = "js\<lparr>js_ln := after_write (js_ln js) ch,
     js_mem := mwrite (mwrite (js_mem js) stk msg) (c_start (ln_msgbuf (js_ln js))) packet,
     js_sent := js_sent js @ [Some packet]\<rparr>"
  have recv: "recv_chan (ln_crypto_state (js_ln ?js1)) = recv_chan (ln_crypto_state (js_ln js))" by (simp add: after_write_def)
  have "js_ok stk ?js1" "js_connected ?js1" using js_ok_after_write [OF assms(2)] assms(3) by simp_all
  from read_all_rpc_collects [OF assms(1) this _ assms(8,7), unfolded recv, OF assms(4), of rest "[]"] assms(9)
  show ?thesis using js_write_eq [OF assms(1,2,5,6) e] e by (auto simp: js_rpc_def)
qed

definition example_answer :: "(u16 \<times> bytes) list" where
  "example_answer = [(COMMANDO_REPLY_CONTINUES, replicate 8 0 @ [123]), (WIRE_PING, [0, 4, 0, 0])]"

definition example_answered :: js where
  "example_answered = example_js\<lparr>js_queue :=
     [wire_of example_aead (recv_chan example_state) (example_answer @ [(COMMANDO_REPLY_TERM, replicate 8 0 @ [125])])]\<rparr>"

theorem js_rpc_collects_reply_witness:
  "\<exists>js'. js_rpc example_aead 200000 [1, 2] example_answered =
      Some (Inr (concat (map reply_part (example_answer @ [(COMMANDO_REPLY_TERM, replicate 8 0 @ [125])]))), js') \<and>
    js_sent js' = js_sent example_answered @
      [Some (fst (bolt8_encrypt example_aead (send_chan (ln_crypto_state (js_ln example_answered))) [1, 2]))] \<and>
    concat (js_queue js') = []"
proof (rule js_rpc_collects_reply [OF example_aead_ok])
  have cs: "ln_crypto_state (js_ln example_answered) = example_state"
    by (simp add: example_answered_def example_js_def example_ln_simps)
  show "js_ok 200000 example_answered" "js_connected example_answered"
    using example_js_ok by (simp_all add: js_ok_def example_answered_def)
  show "chan_ok (recv_chan (ln_crypto_state (js_ln example_answered)))" "chan_ok (send_chan (ln_crypto_state (js_ln example_answered)))"
    unfolding cs using example_sync by (simp_all add: in_sync_def)
  show "concat (js_queue example_answered) = wire_of example_aead (recv_chan (ln_crypto_state (js_ln example_answered)))
      (example_answer @ [(COMMANDO_REPLY_TERM, replicate 8 0 @ [125])]) @ []"
    unfolding cs by (simp add: example_answered_def)
qed (simp_all add: example_answer_def COMMANDO_REPLY_CONTINUES_def COMMANDO_REPLY_TERM_def WIRE_PING_def)

end
