(* ===== verification/Configurator.thy ===== *)
theory Configurator
  imports Errors "HOL-Library.Sublist"
begin

text \<open>
  \<open>configurator.c\<close>, the program that makes \<open>config.h\<close>: it compiles and runs small test programs, in
  the order of their dependencies, and prints a macro for each. The compiler and the shell are
  parameters. Modelled are the exit code, the standard output and the files written; messages on
  \<open>stderr\<close> are left out, and allocations succeed. The branches for Windows are not built.
\<close>

section \<open>Results and state\<close>

text \<open>
  A function exits the program with a code and the output so far, or returns; \<open>None\<close> is a crash,
  or a recursion without end.
\<close>

type_synonym 'a result = "((int \<times> bytes) + 'a) option"

definition and_then :: "'a result \<Rightarrow> ('a \<Rightarrow> 'b result) \<Rightarrow> 'b result" where
  "and_then r f = r \<bind> (\<lambda>x. case x of Inl e \<Rightarrow> Some (Inl e) | Inr y \<Rightarrow> f y)"

lemma and_then_simps [simp]:
  "and_then None f = None" "and_then (Some (Inl e)) f = Some (Inl e)" "and_then (Some (Inr x)) f = f x"
  by (simp_all add: and_then_def)

lemma and_then_mono [partial_function_mono]:
  assumes "mono_option B" "\<And>y. mono_option (\<lambda>f. C y f)"
  shows "mono_option (\<lambda>f. and_then (B f) (\<lambda>y. C y f))"
  unfolding and_then_def using assms(1)
proof (rule bind_mono)
  show "mono_option (\<lambda>f. case x of Inl e \<Rightarrow> Some (Inl e) | Inr y \<Rightarrow> C y f)" for x
    using assms(2) by (cases x) (simp_all add: monotone_def flat_ord_def)
qed

definition EXIT_BAD_USAGE :: int where "EXIT_BAD_USAGE = 1"
definition EXIT_TROUBLE_RUNNING :: int where "EXIT_TROUBLE_RUNNING = 2"
definition EXIT_BAD_TEST :: int where "EXIT_BAD_TEST = 3"
definition EXIT_BAD_INPUT :: int where "EXIT_BAD_INPUT = 4"

record test =
  t_name :: bytes
  t_desc :: bytes
  t_style :: bytes
  t_depends :: "bytes option"
  t_link :: "bytes option"
  t_fragment :: bytes
  t_flags :: "bytes option"
  t_overrides :: "bytes option"
  t_done :: bool
  t_answer :: bool

text \<open>
  The shell: whether a file can be created or appended to, whether closing it succeeds, and what a
  command gives in a world whose file \<open>configuratortest.c\<close> has the given contents: its output and
  the status from \<open>pclose\<close>, or nothing when it cannot be run or read.
\<close>

record 'x shell =
  sh_fopen :: "bytes \<Rightarrow> bool"
  sh_fclose :: "bytes \<Rightarrow> bool"
  sh_popen :: "bytes \<Rightarrow> bytes \<Rightarrow> 'x \<Rightarrow> (bytes \<times> int) option \<times> 'x"

text \<open>The global variables: the tests, the standard output, the rest of the world, and the switches.\<close>

record 'x conf =
  cf_tests :: "test list"
  cf_out :: bytes
  cf_world :: 'x

record switches =
  sw_verbose :: nat
  sw_like_a_libtool :: bool

definition exits :: "int \<Rightarrow> 'x conf \<Rightarrow> 'a result" where
  "exits code st = Some (Inl (code, cf_out st))"

definition put :: "bytes \<Rightarrow> 'x conf \<Rightarrow> 'x conf" where
  "put text st = st\<lparr>cf_out := cf_out st @ text\<rparr>"

text \<open>The contents of a buffer as a C string.\<close>

definition c_str :: "bytes \<Rightarrow> bytes" where
  "c_str bs = takeWhile (\<lambda>c. c \<noteq> 0) bs"

definition out_line :: "string \<Rightarrow> bytes" where
  "out_line cs = ascii cs @ [10]"

section \<open>The tests\<close>

definition new_test :: "bytes \<Rightarrow> bytes \<Rightarrow> bytes \<Rightarrow> bytes option \<Rightarrow> bytes \<Rightarrow> test" where
  "new_test name desc style depends fragment =
     \<lparr>t_name = name, t_desc = desc, t_style = style, t_depends = depends, t_link = None,
      t_fragment = fragment, t_flags = None, t_overrides = None, t_done = False, t_answer = False\<rparr>"

definition unaligned_test :: test where
  "unaligned_test = new_test (ascii ''HAVE_UNALIGNED_ACCESS'') (ascii ''unaligned access to int'')
     (ascii ''DEFINES_EVERYTHING|EXECUTE'') None
     (out_line ''#include <string.h>'' @
      out_line ''int main(int argc, char *argv[]) {'' @
      9 # out_line ''(void)argc;'' @
      out_line ''     char pad[sizeof(int *) * 1];'' @
      9 # out_line ''memcpy(pad, argv[0], sizeof(pad));'' @
      9 # out_line ''int *x = (int *)pad, *y = (int *)(pad + 1);'' @
      9 # out_line ''return *x == *y;'' @
      out_line ''}'')"

definition typeof_test :: test where
  "typeof_test = new_test (ascii ''HAVE_TYPEOF'') (ascii ''__typeof__ support'') (ascii ''INSIDE_MAIN'') None
     (ascii ''__typeof__(argc) i; i = argc; return i == argc ? 0 : 1;'')"

definition big_endian_test :: test where
  "big_endian_test = new_test (ascii ''HAVE_BIG_ENDIAN'') (ascii ''big endian'') (ascii ''INSIDE_MAIN|EXECUTE'') None
     (out_line ''union { int i; char c[sizeof(int)]; } u;'' @
      out_line ''u.i = 0x01020304;'' @
      ascii ''return u.c[0] == 0x01 && u.c[1] == 0x02 && u.c[2] == 0x03 && u.c[3] == 0x04 ? 0 : 1;'')"

definition byteswap_test :: test where
  "byteswap_test = new_test (ascii ''HAVE_BYTESWAP_H'') (ascii ''<byteswap.h>'') (ascii ''OUTSIDE_MAIN'') None
     (out_line ''#include <byteswap.h>'')"

definition bswap_64_test :: test where
  "bswap_64_test = new_test (ascii ''HAVE_BSWAP_64'') (ascii ''bswap64 in byteswap.h'') (ascii ''DEFINES_FUNC'')
     (Some (ascii ''HAVE_BYTESWAP_H''))
     (out_line ''#include <byteswap.h>'' @ ascii ''static int func(int x) { return bswap_64(x); }'')"

definition little_endian_test :: test where
  "little_endian_test = new_test (ascii ''HAVE_LITTLE_ENDIAN'') (ascii ''little endian'') (ascii ''INSIDE_MAIN|EXECUTE'') None
     (out_line ''union { int i; char c[sizeof(int)]; } u;'' @
      out_line ''u.i = 0x01020304;'' @
      ascii ''return u.c[0] == 0x04 && u.c[1] == 0x03 && u.c[2] == 0x02 && u.c[3] == 0x01 ? 0 : 1;'')"

definition base_tests :: "test list" where
  "base_tests = [unaligned_test, typeof_test, big_endian_test, byteswap_test, bswap_64_test, little_endian_test]"

section \<open>Running commands\<close>

definition BUFSIZ :: nat where "BUFSIZ = 8192"

text \<open>What \<open>fcopy\<close> writes, chunk by chunk, and the number it returns.\<close>

function fcopy :: "bytes \<Rightarrow> bytes \<times> nat" where
  "fcopy src =
     (if src = [] then ([], 0)
      else case fcopy (drop BUFSIZ src) of (copied, n) \<Rightarrow>
        (take BUFSIZ src @ copied, length (take BUFSIZ src) + n))"
  by pat_completeness auto
termination by (relation "measure length") (auto simp: BUFSIZ_def)

declare fcopy.simps [simp del]

text \<open>
  The loop of \<open>grab_stream\<close> on the bytes to come: what is in the buffer at the end, and its capacity.
  There is always room, so something is read or the stream is over.
\<close>

function grab_loop :: "nat \<Rightarrow> bytes \<Rightarrow> bytes \<Rightarrow> bytes \<times> nat" where
  "grab_loop cap buffer file =
     (let ret = take (cap - length buffer) file
      in if length ret = cap - length buffer \<and> ret \<noteq> []
         then grab_loop (cap * 2) (buffer @ ret) (drop (cap - length buffer) file)
         else (buffer @ ret, cap))"
  by pat_completeness auto
termination by (relation "measure (\<lambda>(cap, buffer, file). length file)") auto

declare grab_loop.simps [simp del]

definition grab_stream :: "bytes \<Rightarrow> bytes" where
  "grab_stream file = c_str (fst (grab_loop BUFSIZ [] file) @ [0])"

definition run :: "'x shell \<Rightarrow> bytes \<Rightarrow> bytes \<Rightarrow> 'x conf \<Rightarrow> (bytes \<times> int \<times> 'x conf) result" where
  "run S cmd source st =
     (case sh_popen S (cmd @ ascii '' 2>&1'') source (cf_world st) of
        (None, w) \<Rightarrow> exits EXIT_TROUBLE_RUNNING (st\<lparr>cf_world := w\<rparr>)
      | (Some (file, exitstatus), w) \<Rightarrow> Some (Inr (grab_stream file, exitstatus, st\<lparr>cf_world := w\<rparr>)))"

text \<open>The arguments after \<open>argv[0]\<close>, each followed by a blank unless it is the last thing on the line.\<close>

fun connect_args :: "bytes list \<Rightarrow> bytes \<Rightarrow> bytes \<Rightarrow> bytes" where
  "connect_args [] outflag files = outflag @ files"
| "connect_args (a # argv) outflag files =
     a @ (if argv \<noteq> [] \<or> outflag \<noteq> [] then [32] else []) @ connect_args argv outflag files"

section \<open>Running tests\<close>

definition start_test :: "switches \<Rightarrow> bytes \<Rightarrow> bytes \<Rightarrow> 'x conf \<Rightarrow> 'x conf" where
  "start_test sw what why st =
     (if sw_like_a_libtool sw then put (what @ why @ ascii ''... '') st else st)"

definition end_test :: "switches \<Rightarrow> bool \<Rightarrow> 'x conf \<Rightarrow> 'x conf" where
  "end_test sw res st =
     (if sw_like_a_libtool sw then put (ascii (if res then ''yes'' else ''no'') @ [10]) st else st)"

text \<open>The index of the test with a name; the code exits when there is none.\<close>

fun find_test :: "test list \<Rightarrow> bytes \<Rightarrow> nat option" where
  "find_test [] name = None"
| "find_test (t # ts) name = (if t_name t = name then Some 0 else map_option Suc (find_test ts name))"

definition PRE_BOILERPLATE :: bytes where
  "PRE_BOILERPLATE = out_line ''/* Test program generated by configurator. */''"
definition MAIN_START_BOILERPLATE :: bytes where
  "MAIN_START_BOILERPLATE = out_line ''int main(int argc, char *argv[]) {'' @ 9 # out_line ''(void)argc;''
     @ 9 # out_line ''(void)argv;''"
definition USE_FUNC_BOILERPLATE :: bytes where "USE_FUNC_BOILERPLATE = out_line ''(void)func;''"
definition MAIN_BODY_BOILERPLATE :: bytes where "MAIN_BODY_BOILERPLATE = out_line ''return 0;''"
definition MAIN_END_BOILERPLATE :: bytes where "MAIN_END_BOILERPLATE = out_line ''}''"

definition has_style :: "string \<Rightarrow> test \<Rightarrow> bool" where
  "has_style flag t \<longleftrightarrow> sublist (ascii flag) (t_style t)"

text \<open>The program written for a test; there is none when the style is unknown.\<close>

definition test_program :: "test \<Rightarrow> bytes option" where
  "test_program t =
     (if has_style ''INSIDE_MAIN'' t then
        Some (PRE_BOILERPLATE @ MAIN_START_BOILERPLATE @ t_fragment t @ MAIN_END_BOILERPLATE)
      else if has_style ''OUTSIDE_MAIN'' t then
        Some (PRE_BOILERPLATE @ t_fragment t @ MAIN_START_BOILERPLATE @ MAIN_BODY_BOILERPLATE @ MAIN_END_BOILERPLATE)
      else if has_style ''DEFINES_FUNC'' t then
        Some (PRE_BOILERPLATE @ t_fragment t @ MAIN_START_BOILERPLATE @ USE_FUNC_BOILERPLATE @ MAIN_BODY_BOILERPLATE
          @ MAIN_END_BOILERPLATE)
      else if has_style ''DEFINES_EVERYTHING'' t then Some (PRE_BOILERPLATE @ t_fragment t)
      else None)"

definition set_answer :: "nat \<Rightarrow> bool \<Rightarrow> 'x conf \<Rightarrow> 'x conf" where
  "set_answer i b st =
     st\<lparr>cf_tests := (cf_tests st)[i := (cf_tests st ! i)\<lparr>t_done := True, t_answer := b\<rparr>]\<rparr>"

text \<open>A test's own flags or libraries on the command line, and the line printed of them.\<close>

definition extra_args :: "switches \<Rightarrow> string \<Rightarrow> bytes option \<Rightarrow> bytes \<Rightarrow> 'x conf \<Rightarrow> bytes \<times> 'x conf" where
  "extra_args sw what extra newcmd st =
     (case extra of
        None \<Rightarrow> (newcmd, st)
      | Some x \<Rightarrow> (let newcmd = newcmd @ 32 # x
          in (newcmd, if sw_verbose sw > 1 then put (ascii what @ newcmd) st else st)))"

definition OUTPUT_FILE :: bytes where "OUTPUT_FILE = ascii ''configurator.out''"
definition INPUT_FILE :: bytes where "INPUT_FILE = ascii ''configuratortest.c''"

text \<open>
  The answer to a test from the result of its compilation; depending on the style the program is
  run as well.
\<close>

definition judge_test :: "'x shell \<Rightarrow> switches \<Rightarrow> bytes \<Rightarrow> bytes \<Rightarrow> test \<Rightarrow> bytes \<Rightarrow> int \<Rightarrow> 'x conf \<Rightarrow> (bool \<times> 'x conf) result" where
  "judge_test S sw wrapper source t output status st =
     (if status \<noteq> 0 \<or> sublist (ascii ''warning'') output then
        (let st = (if sw_verbose sw \<noteq> 0 then put (ascii ''Compile '' @
               ascii (if status \<noteq> 0 then ''fail'' else ''warning'') @ ascii '' for '' @ t_name t @
               ascii '', status '' @ dec_int status @ ascii '': '' @ output @ [10]) st else st)
         in if has_style ''EXECUTE'' t \<and> \<not> has_style ''MAY_NOT_COMPILE'' t then exits EXIT_BAD_TEST st
            else Some (Inr (False, st)))
      else if has_style ''EXECUTE'' t \<or> has_style ''INSIDE_MAIN'' t then
        and_then (run S (wrapper @ ascii '' ./'' @ OUTPUT_FILE) source st) (\<lambda>(output, status, st).
          if \<not> has_style ''EXECUTE'' t \<and> status \<noteq> 0 then exits EXIT_BAD_TEST st
          else
            (let st = (if sw_verbose sw \<noteq> 0 \<and> status \<noteq> 0 then
                 put (t_name t @ ascii '' exited '' @ dec_int status @ [10]) st else st)
             in Some (Inr (status = 0, st))))
      else Some (Inr (status = 0, st)))"

text \<open>The end of \<open>run_test\<close>: a test that came out true and overrides another one gives it the answer 1.\<close>

definition settle_test :: "switches \<Rightarrow> nat \<Rightarrow> bytes option \<Rightarrow> bool \<Rightarrow> 'x conf \<Rightarrow> (bool \<times> 'x conf) result" where
  "settle_test sw i overrides answer st =
     (let st = end_test sw answer (set_answer i answer st)
      in case (if answer then overrides else None) of
           None \<Rightarrow> Some (Inr (answer, st))
         | Some name \<Rightarrow>
             (case find_test (cf_tests st) name of
                None \<Rightarrow> exits EXIT_BAD_TEST st
              | Some j \<Rightarrow> (let st = set_answer j True st in Some (Inr (t_answer (cf_tests st ! i), st)))))"

text \<open>The part of \<open>run_test\<close> after the dependencies: the program is written and compiled.\<close>

definition perform_test :: "'x shell \<Rightarrow> switches \<Rightarrow> bytes \<Rightarrow> bytes \<Rightarrow> nat \<Rightarrow> 'x conf \<Rightarrow> (bool \<times> 'x conf) result" where
  "perform_test S sw cmd wrapper i st =
     (let t = cf_tests st ! i in
      if \<not> sh_fopen S INPUT_FILE then exits EXIT_TROUBLE_RUNNING st
      else case test_program t of
        None \<Rightarrow> exits EXIT_BAD_TEST st
      | Some source \<Rightarrow>
          (let st = (if sw_verbose sw > 1 then put (fst (fcopy source)) st else st);
               (newcmd, st) = extra_args sw ''Extra flags line: '' (t_flags t) cmd st;
               (newcmd, st) = extra_args sw ''Extra link line: '' (t_link t) newcmd st;
               st = start_test sw (ascii ''checking for '') (t_desc t) st
           in and_then (run S newcmd source st) (\<lambda>(output, status, st).
                and_then (judge_test S sw wrapper source t output status st) (\<lambda>(answer, st).
                  settle_test sw i (t_overrides t) answer st))))"

lemma next_dep_shorter:
  assumes "takeWhile P deps \<noteq> []"
  shows "length (dropWhile Q (dropWhile P deps)) < length deps"
proof -
  have "length (takeWhile P deps) + length (dropWhile P deps) = length deps"
    by (metis length_append takeWhile_dropWhile_id)
  moreover have "0 < length (takeWhile P deps)" using assms by blast
  moreover have "length (dropWhile Q (dropWhile P deps)) \<le> length (dropWhile P deps)" by (rule length_dropWhile_le)
  ultimately show ?thesis by linarith
qed

text \<open>
  The dependencies, separated by blanks: whether each is wanted, its name, and whether it ends the
  string. The code works on a copy of the string for all but the last.
\<close>

function split_deps :: "bytes \<Rightarrow> (bool \<times> bytes \<times> bool) list" where
  "split_deps deps =
     (let dep = takeWhile (\<lambda>c. c \<noteq> 32) deps; rest = dropWhile (\<lambda>c. c \<noteq> 32) deps
      in if dep = [] then []
         else (if hd dep = 33 then (False, tl dep, rest = []) else (True, dep, rest = [])) #
           split_deps (dropWhile (\<lambda>c. c = 32) rest))"
  by pat_completeness auto
termination
  by (relation "measure length") (simp_all add: next_dep_shorter)

declare split_deps.simps [simp del]

text \<open>
  The loop over them, with \<open>rec\<close> for the test of a name. The copy is freed through the pointer that
  was moved past the exclamation mark: a crash.
\<close>

primrec check_deps ::
  "(bytes \<Rightarrow> 'x conf \<Rightarrow> (bool \<times> 'x conf) result) \<Rightarrow> (bool \<times> bytes \<times> bool) list \<Rightarrow> 'x conf \<Rightarrow> (bool \<times> 'x conf) result"
where
  "check_deps rec [] st = Some (Inr (True, st))"
| "check_deps rec (d # ds) st =
     (case d of (positive, name, last_one) \<Rightarrow>
        and_then (rec name st) (\<lambda>(answer, st).
          if answer \<noteq> positive then Some (Inr (False, st))
          else if \<not> positive \<and> \<not> last_one then None
          else check_deps rec ds st))"

lemma check_deps_mono [partial_function_mono]:
  assumes "\<And>name st. mono_option (\<lambda>f. C f name st)"
  shows "mono_option (\<lambda>f. check_deps (C f) ds st)"
proof (induction ds arbitrary: st)
  case Nil
  show ?case by (simp add: option.const_mono)
next
  case (Cons d ds)
  have "mono_option (\<lambda>f. case y of (answer, st) \<Rightarrow> if answer \<noteq> positive then Some (Inr (False, st))
      else if \<not> positive \<and> \<not> last_one then None else check_deps (C f) ds st)" for y positive last_one
    by (cases y) (auto intro!: partial_function_mono Cons.IH)
  then show ?case by (cases d) (auto intro!: and_then_mono assms)
qed

partial_function (option) run_test ::
  "'x shell \<Rightarrow> switches \<Rightarrow> bytes \<Rightarrow> bytes \<Rightarrow> nat \<Rightarrow> 'x conf \<Rightarrow> ((int \<times> bytes) + (bool \<times> 'x conf)) option"
where
  "run_test S sw cmd wrapper i st =
     (if t_done (cf_tests st ! i) then Some (Inr (t_answer (cf_tests st ! i), st))
      else and_then
        (check_deps (\<lambda>name st. case find_test (cf_tests st) name of
             None \<Rightarrow> exits EXIT_BAD_TEST st
           | Some j \<Rightarrow> run_test S sw cmd wrapper j st)
           (case t_depends (cf_tests st ! i) of None \<Rightarrow> [] | Some deps \<Rightarrow> split_deps deps) st)
        (\<lambda>(ok, st).
          if \<not> ok then Some (Inr (False, set_answer i False st))
          else perform_test S sw cmd wrapper i st))"

section \<open>Reading descriptions of tests\<close>

text \<open>
  The standard input is the list of bytes to come. A reader gives the exit code of a bad input, or
  what was read with the rest of the input.
\<close>

type_synonym 'a reader = "bytes \<Rightarrow> int + ('a \<times> bytes)"

definition fgets :: "nat \<Rightarrow> bytes \<Rightarrow> (bytes \<times> bytes) option" where
  "fgets n stdin =
     (let k = min (n - 1) (length (takeWhile (\<lambda>c. c \<noteq> 10) stdin) + 1)
      in if stdin = [] then None else Some (c_str (take k stdin), drop k stdin))"

lemma fgets_shorter:
  assumes "fgets n stdin = Some (buf, rest)" "1 < n"
  shows "length rest < length stdin"
proof -
  obtain k where "rest = drop k stdin" "0 < k" "stdin \<noteq> []"
    using assms by (auto simp: fgets_def Let_def split: if_splits)
  then show ?thesis by simp
qed

function any_field :: "(bytes \<times> bytes) option reader" where
  "any_field stdin =
     (case fgets 1000 stdin of
        None \<Rightarrow> Inr (None, stdin)
      | Some (buf, stdin) \<Rightarrow>
          (let p = dropWhile (\<lambda>c. c = 32 \<or> c = 9) buf
           in if p \<noteq> [] \<and> (hd p = 35 \<or> hd p = 10) then any_field stdin
              else if 61 \<notin> set p then Inl EXIT_BAD_INPUT
              else (let fieldname = takeWhile (\<lambda>c. c \<noteq> 61) p; p = tl (dropWhile (\<lambda>c. c \<noteq> 61) p)
                    in Inr (Some (fieldname, if p \<noteq> [] \<and> last p = 10 then butlast p else p), stdin))))"
  by pat_completeness auto
termination by (relation "measure length") (auto dest: fgets_shorter)

declare any_field.simps [simp del]

definition read_field :: "bytes \<Rightarrow> bool \<Rightarrow> bytes option reader" where
  "read_field name compulsory stdin =
     (case any_field stdin of
        Inl e \<Rightarrow> Inl e
      | Inr (None, stdin) \<Rightarrow> if \<not> compulsory then Inr (None, stdin) else Inl EXIT_BAD_INPUT
      | Inr (Some (fieldname, val), stdin) \<Rightarrow>
          if fieldname \<noteq> name then Inl EXIT_BAD_INPUT else Inr (Some val, stdin))"

lemma any_field_shorter:
  "any_field stdin = Inr (r, rest) \<Longrightarrow> length rest \<le> length stdin \<and> (r \<noteq> None \<longrightarrow> length rest < length stdin)"
proof (induction stdin arbitrary: r rest rule: any_field.induct)
  case (1 stdin)
  show ?case
  proof (cases "fgets 1000 stdin")
    case None
    then show ?thesis using 1(2) by (simp add: any_field.simps)
  next
    case (Some x)
    then obtain buf s where f: "fgets 1000 stdin = Some (buf, s)" by (cases x) simp
    note less = fgets_shorter [OF f]
    let ?p = "dropWhile (\<lambda>c. c = 32 \<or> c = 9) buf"
    show ?thesis
    proof (cases "?p \<noteq> [] \<and> (hd ?p = 35 \<or> hd ?p = 10)")
      case True
      then have "any_field stdin = any_field s" using f by (subst any_field.simps) (simp add: Let_def)
      then have "any_field s = Inr (r, rest)" using 1(2) by simp
      then show ?thesis using 1(1) [OF f refl refl True] less by auto
    next
      case False
      then show ?thesis using 1(2) f less by (subst (asm) any_field.simps) (auto simp: Let_def split: if_splits)
    qed
  qed
qed

lemma read_field_shorter:
  assumes "read_field name c stdin = Inr (r, rest)"
  shows "length rest \<le> length stdin" "r \<noteq> None \<Longrightarrow> length rest < length stdin"
proof -
  obtain x rest' where a: "any_field stdin = Inr (x, rest')"
    using assms by (cases "any_field stdin") (auto simp: read_field_def)
  have "rest = rest'" "r \<noteq> None \<longrightarrow> x \<noteq> None"
    using assms a by (cases x; auto simp: read_field_def split: if_splits)+
  then show "length rest \<le> length stdin" "r \<noteq> None \<Longrightarrow> length rest < length stdin"
    using any_field_shorter [OF a] by auto
qed

text \<open>The loop over the optional fields, up to the value of \<open>code\<close>, if it is there.\<close>

function read_options :: "test \<Rightarrow> (test \<times> bytes option) reader" where
  "read_options test stdin =
     (case any_field stdin of
        Inl e \<Rightarrow> Inl e
      | Inr (None, stdin) \<Rightarrow> Inr ((test, None), stdin)
      | Inr (Some (field, val), stdin) \<Rightarrow>
          if field = ascii ''depends'' then read_options (test\<lparr>t_depends := Some val\<rparr>) stdin
          else if field = ascii ''link'' then read_options (test\<lparr>t_link := Some val\<rparr>) stdin
          else if field = ascii ''flags'' then read_options (test\<lparr>t_flags := Some val\<rparr>) stdin
          else if field = ascii ''overrides'' then read_options (test\<lparr>t_overrides := Some val\<rparr>) stdin
          else if field = ascii ''code'' then Inr ((test, Some val), stdin)
          else Inl EXIT_BAD_INPUT)"
  by pat_completeness auto
termination
  by (relation "measure (\<lambda>(test, stdin). length stdin)") (auto dest!: any_field_shorter)

declare read_options.simps [simp del]

function read_code :: "bytes \<Rightarrow> bytes \<Rightarrow> bytes \<times> bytes" where
  "read_code val stdin =
     (case fgets 1000 stdin of
        None \<Rightarrow> (val, stdin)
      | Some (buf, stdin) \<Rightarrow>
          if take 7 buf = ascii ''/*END*/'' then (val, stdin) else read_code (val @ buf) stdin)"
  by pat_completeness auto
termination by (relation "measure (\<lambda>(val, stdin). length stdin)") (auto dest: fgets_shorter)

declare read_code.simps [simp del]

definition read_test :: "test option reader" where
  "read_test stdin =
     (case read_field (ascii ''var'') False stdin of
        Inl e \<Rightarrow> Inl e
      | Inr (None, stdin) \<Rightarrow> Inr (None, stdin)
      | Inr (Some name, stdin) \<Rightarrow> (case read_field (ascii ''desc'') True stdin of
          Inl e \<Rightarrow> Inl e
        | Inr (desc, stdin) \<Rightarrow> (case read_field (ascii ''style'') True stdin of
            Inl e \<Rightarrow> Inl e
          | Inr (style, stdin) \<Rightarrow> (case read_options (new_test name (the desc) (the style) None []) stdin of
              Inl e \<Rightarrow> Inl e
            | Inr ((test, None), stdin) \<Rightarrow> Inl EXIT_BAD_INPUT
            | Inr ((test, Some val), stdin) \<Rightarrow>
                (let (val, stdin) = (if val = [] then read_code val stdin else (val, stdin))
                 in Inr (Some (test\<lparr>t_fragment := val\<rparr>), stdin))))))"

lemma read_options_shorter: "read_options t stdin = Inr (r, rest) \<Longrightarrow> length rest \<le> length stdin"
proof (induction t stdin rule: read_options.induct)
  case (1 t stdin)
  show ?case
  proof (cases "any_field stdin")
    case (Inl e)
    then show ?thesis using 1(5) by (simp add: read_options.simps)
  next
    case (Inr x)
    then obtain y s where a: "any_field stdin = Inr (y, s)" by (cases x) simp
    note less = any_field_shorter [OF a]
    show ?thesis
    proof (cases y)
      case None
      then show ?thesis using 1(5) a less by (simp add: read_options.simps)
    next
      case (Some fv)
      then obtain f v where y: "y = Some (f, v)" by (cases fv) simp
      have "length rest \<le> length s"
        using 1(5) 1(1-4) [OF a [unfolded y] refl refl refl] a y
        by (subst (asm) read_options.simps) (simp split: if_splits)
      then show ?thesis using less by simp
    qed
  qed
qed

lemma read_code_shorter: "length (snd (read_code val stdin)) \<le> length stdin"
proof (induction val stdin rule: read_code.induct)
  case (1 val stdin)
  show ?case
  proof (cases "fgets 1000 stdin")
    case (Some x)
    then obtain buf s where f: "fgets 1000 stdin = Some (buf, s)" by (cases x) simp
    from 1 [OF f refl] fgets_shorter [OF f] f show ?thesis by (subst read_code.simps) auto
  qed (simp add: read_code.simps)
qed

lemma read_test_shorter:
  assumes "read_test stdin = Inr (Some t, rest)"
  shows "length rest < length stdin"
proof -
  obtain name s1 where 1: "read_field (ascii ''var'') False stdin = Inr (Some name, s1)"
    using assms by (auto simp: read_test_def split: sum.splits option.splits)
  obtain desc s2 where 2: "read_field (ascii ''desc'') True s1 = Inr (desc, s2)"
    using assms 1 by (auto simp: read_test_def split: sum.splits)
  obtain style s3 where 3: "read_field (ascii ''style'') True s2 = Inr (style, s3)"
    using assms 1 2 by (auto simp: read_test_def split: sum.splits)
  obtain u val s4 where 4: "read_options (new_test name (the desc) (the style) None []) s3 = Inr ((u, Some val), s4)"
    using assms 1 2 3 by (auto simp: read_test_def split: sum.splits option.splits)
  have "length rest \<le> length s4" using assms 1 2 3 4 read_code_shorter [of val s4]
    by (auto simp: read_test_def split: if_splits prod.splits)
  moreover have "length s1 < length stdin" using read_field_shorter(2) [OF 1] by simp
  ultimately show ?thesis
    using read_field_shorter(1) [OF 2] read_field_shorter(1) [OF 3] read_options_shorter [OF 4] by linarith
qed

function read_tests :: "test list \<Rightarrow> test list reader" where
  "read_tests tests stdin =
     (case read_test stdin of
        Inl e \<Rightarrow> Inl e
      | Inr (None, stdin) \<Rightarrow> Inr (tests, stdin)
      | Inr (Some test, stdin) \<Rightarrow> read_tests (tests @ [test]) stdin)"
  by pat_completeness auto
termination by (relation "measure (\<lambda>(tests, stdin). length stdin)") (auto dest: read_test_shorter)

declare read_tests.simps [simp del]

section \<open>The program\<close>

record options =
  op_outflag :: bytes
  op_configurator_cc :: "bytes option"
  op_wrapper :: bytes
  op_varfile :: "bytes option"
  op_headerfile :: "bytes option"
  op_extra_tests :: bool
  op_switches :: switches

definition DEFAULT_COMPILER :: bytes where "DEFAULT_COMPILER = ascii ''cc''"
definition DEFAULT_FLAGS :: bytes where
  "DEFAULT_FLAGS = ascii ''-g3 -ggdb -Wall -Wundef -Wmissing-prototypes -Wmissing-declarations -Wstrict-prototypes -Wold-style-definition''"
definition DEFAULT_OUTPUT_EXE_FLAG :: bytes where "DEFAULT_OUTPUT_EXE_FLAG = ascii ''-o''"

definition default_options :: options where
  "default_options = \<lparr>op_outflag = DEFAULT_OUTPUT_EXE_FLAG, op_configurator_cc = None, op_wrapper = [],
     op_varfile = None, op_headerfile = None, op_extra_tests = False,
     op_switches = \<lparr>sw_verbose = 0, sw_like_a_libtool = False\<rparr>\<rparr>"

definition help_text :: bytes where
  "help_text = out_line (''Usage: configurator [-v] [--var-file=<filename>] [-O<outflag>] '' @
       ''[--configurator-cc=<compiler-for-tests>] [--wrapper=<wrapper-for-tests>] [--autotools-style] '' @
       ''[--extra-tests] [<compiler> <flags>...]'') @
     out_line ''  <compiler> <flags> will have \"<outflag> <outfile> <infile.c>\" appended'' @
     ascii ''Default: '' @ DEFAULT_COMPILER @ 32 # DEFAULT_FLAGS @ 32 # DEFAULT_OUTPUT_EXE_FLAG @ [10]"

text \<open>
  The loop over the options: the arguments left, or an exit with what is printed. After \<open>-O\<close> the
  code has already moved on when it reads the flag, two characters into the next argument, a crash
  when that is shorter or missing.
\<close>

definition more_verbose :: "nat \<Rightarrow> options \<Rightarrow> options" where
  "more_verbose n ops = ops\<lparr>op_switches := (op_switches ops)\<lparr>sw_verbose := sw_verbose (op_switches ops) + n\<rparr>\<rparr>"

fun parse_options :: "bytes list \<Rightarrow> options \<Rightarrow> (bytes list \<times> options) result" where
  "parse_options [] ops = Some (Inr ([], ops))"
| "parse_options (a # argv) ops =
     (if a = ascii ''--help'' then Some (Inl (0, help_text))
      else if prefix (ascii ''-O'') a then
        (case argv of
           [] \<Rightarrow> None
         | b # _ \<Rightarrow>
             if length b < 2 then None
             else if drop 2 b = [] then Some (Inl (EXIT_BAD_USAGE, []))
             else parse_options argv (ops\<lparr>op_outflag := drop 2 b\<rparr>))
      else if a = ascii ''-v'' then parse_options argv (more_verbose 1 ops)
      else if a = ascii ''-vv'' then parse_options argv (more_verbose 2 ops)
      else if prefix (ascii ''--configurator-cc='') a then
        parse_options argv (ops\<lparr>op_configurator_cc := Some (drop 18 a)\<rparr>)
      else if prefix (ascii ''--wrapper='') a then parse_options argv (ops\<lparr>op_wrapper := drop 10 a\<rparr>)
      else if prefix (ascii ''--var-file='') a then parse_options argv (ops\<lparr>op_varfile := Some (drop 11 a)\<rparr>)
      else if a = ascii ''--autotools-style'' then
        parse_options argv (ops\<lparr>op_switches := (op_switches ops)\<lparr>sw_like_a_libtool := True\<rparr>\<rparr>)
      else if prefix (ascii ''--header-file='') a then
        parse_options argv (ops\<lparr>op_headerfile := Some (drop 14 a)\<rparr>)
      else if a = ascii ''--extra-tests'' then parse_options argv (ops\<lparr>op_extra_tests := True\<rparr>)
      else if a = ascii ''--'' then Some (Inr (a # argv, ops))
      else if a \<noteq> [] \<and> hd a = 45 then Some (Inl (EXIT_BAD_USAGE, []))
      else Some (Inr (a # argv, ops)))"

fun run_tests :: "'x shell \<Rightarrow> switches \<Rightarrow> bytes \<Rightarrow> bytes \<Rightarrow> nat list \<Rightarrow> 'x conf \<Rightarrow> 'x conf result" where
  "run_tests S sw cmd wrapper [] st = Some (Inr st)"
| "run_tests S sw cmd wrapper (i # is) st =
     and_then (run_test S sw cmd wrapper i st) (\<lambda>(_, st). run_tests S sw cmd wrapper is st)"

definition test_var :: "test \<Rightarrow> bytes" where
  "test_var t = t_name t @ ascii ''='' @ dec_nat (of_bool (t_answer t)) @ [10]"

definition test_macro :: "test \<Rightarrow> bytes" where
  "test_macro t = ascii ''#define '' @ t_name t @ 32 # dec_nat (of_bool (t_answer t)) @ [10]"

definition config_header :: "bytes \<Rightarrow> bytes \<Rightarrow> bytes \<Rightarrow> test list \<Rightarrow> bytes" where
  "config_header orig_cc cflags outflag tests =
     out_line ''/* Generated by CCAN configurator */'' @
     out_line ''#ifndef CCAN_CONFIG_H'' @
     out_line ''#define CCAN_CONFIG_H'' @
     out_line ''#ifndef _GNU_SOURCE'' @
     out_line ''#define _GNU_SOURCE /* Always use GNU extensions. */'' @
     out_line ''#endif'' @
     ascii ''#define CCAN_COMPILER \"'' @ orig_cc @ ascii ''\"'' @ [10] @
     ascii ''#define CCAN_CFLAGS \"'' @ cflags @ ascii ''\"'' @ [10] @
     ascii ''#define CCAN_OUTPUT_EXE_CFLAG \"'' @ outflag @ ascii ''\"'' @ [10, 10] @
     out_line ''#define HAVE_CCAN 1'' @
     concat (map test_macro tests) @
     out_line ''#endif /* CCAN_CONFIG_H */''"

text \<open>
  A file is given what was printed to it, and written at its name; \<open>None\<close> stands for the standard
  output. The result is the state, and what was written to the files in order.
\<close>

definition print_file ::
  "'x shell \<Rightarrow> switches \<Rightarrow> string \<Rightarrow> bytes option \<Rightarrow> bytes \<Rightarrow> (bytes \<times> bytes) list \<Rightarrow> 'x conf
    \<Rightarrow> (int \<times> bytes \<times> (bytes \<times> bytes) list) + ((bytes \<times> bytes) list \<times> 'x conf)" where
  "print_file S sw what file text files st =
     (case file of
        None \<Rightarrow> Inr (files, put text st)
      | Some f \<Rightarrow>
          (let st = start_test sw (ascii what) f st in
           if \<not> sh_fopen S f then Inl (EXIT_TROUBLE_RUNNING, cf_out st, files)
           else if \<not> sh_fclose S f then Inl (EXIT_TROUBLE_RUNNING, cf_out st, files @ [(f, text)])
           else Inr (files @ [(f, text)], end_test sw True st)))"

text \<open>The arguments are those after \<open>argv[0]\<close>; the result is the exit code, the output, and the files.\<close>

definition configurator_main ::
  "'x shell \<Rightarrow> bytes list \<Rightarrow> bytes \<Rightarrow> 'x \<Rightarrow> (int \<times> bytes \<times> (bytes \<times> bytes) list) option" where
  "configurator_main S args stdin w = do {
     parsed \<leftarrow> parse_options args default_options;
     case parsed of
       Inl (code, out) \<Rightarrow> Some (code, out, [])
     | Inr (argv, ops) \<Rightarrow> (
         let argv = (if argv = [] then [DEFAULT_COMPILER, DEFAULT_FLAGS] else argv); sw = op_switches ops in
         case (if op_extra_tests ops then read_tests base_tests stdin else Inr (base_tests, stdin)) of
           Inl code \<Rightarrow> Some (code, [], [])
         | Inr (tests, _) \<Rightarrow> do {
             let orig_cc = hd argv;
             let argv = (case op_configurator_cc ops of None \<Rightarrow> argv | Some cc \<Rightarrow> cc # tl argv);
             let cmd = connect_args argv (op_outflag ops) (OUTPUT_FILE @ 32 # INPUT_FILE);
             let st = \<lparr>cf_tests = tests, cf_out = [], cf_world = w\<rparr>;
             let st = end_test sw True (start_test sw (ascii ''Making autoconf users comfortable'') [] st);
             ran \<leftarrow> run_tests S sw cmd (op_wrapper ops) [0..<length tests] st;
             case ran of
               Inl (code, out) \<Rightarrow> Some (code, out, [])
             | Inr st \<Rightarrow> (
                 let vars = concat (map test_var (cf_tests st)) in
                 case (case op_varfile ops of
                         None \<Rightarrow> Inr ([], st)
                       | Some f \<Rightarrow> print_file S sw ''Writing variables to ''
                           (if f = ascii ''-'' then None else Some f) vars [] st) of
                   Inl res \<Rightarrow> Some res
                 | Inr (files, st) \<Rightarrow> (
                     case print_file S sw ''Writing header to '' (op_headerfile ops)
                         (config_header orig_cc (connect_args (tl argv) [] []) (op_outflag ops) (cf_tests st)) files st of
                       Inl res \<Rightarrow> Some res
                     | Inr (files, st) \<Rightarrow> Some (0, cf_out st, files))) }) }"

section \<open>Descriptions read back\<close>

definition text_ok :: "bytes \<Rightarrow> bool" where
  "text_ok l \<longleftrightarrow> 10 \<notin> set l \<and> 0 \<notin> set l"

lemma up_to_first:
  "x \<notin> set l \<Longrightarrow> takeWhile (\<lambda>c. c \<noteq> x) (l @ x # r) = l \<and> dropWhile (\<lambda>c. c \<noteq> x) (l @ x # r) = x # r"
  by (induction l) auto

lemma fgets_line:
  assumes "text_ok l" "length l < 999"
  shows "fgets 1000 (l @ 10 # rest) = Some (l @ [10], rest)"
proof -
  have "takeWhile (\<lambda>c. c \<noteq> 10) (l @ 10 # rest) = l" using assms(1) by (simp add: text_ok_def up_to_first)
  moreover have "c_str (l @ [10]) = l @ [10]" using assms(1) by (auto simp: text_ok_def c_str_def takeWhile_eq_all_conv)
  ultimately show ?thesis using assms(2) by (simp add: fgets_def)
qed

text \<open>The line of a field.\<close>

definition field_line :: "string \<Rightarrow> bytes \<Rightarrow> bytes" where
  "field_line name val = ascii name @ 61 # val @ [10]"

definition field_ok :: "bytes \<Rightarrow> bool" where
  "field_ok val \<longleftrightarrow> text_ok val \<and> length val \<le> 980"

lemma any_field_line:
  assumes "name \<in> {''var'', ''desc'', ''style'', ''depends'', ''link'', ''flags'', ''overrides'', ''code''}" "field_ok val"
  shows "any_field (field_line name val @ rest) = Inr (Some (ascii name, val), rest)"
proof -
  have n: "61 \<notin> set (ascii name)" "text_ok (ascii name)" "length (ascii name) \<le> 9"
      "ascii name \<noteq> []" "hd (ascii name) \<notin> {32, 9, 35, 10}"
    using assms(1) by (auto simp: text_ok_def)
  let ?l = "ascii name @ 61 # val"
  have "text_ok ?l" "length ?l < 999" using n assms(2) by (auto simp: text_ok_def field_ok_def)
  then have f: "fgets 1000 (field_line name val @ rest) = Some (?l @ [10], rest)"
    using fgets_line [of ?l rest] by (simp add: field_line_def)
  obtain c cs where c: "ascii name = c # cs" "c \<noteq> 32" "c \<noteq> 9" "c \<noteq> 35" "c \<noteq> 10" using n(4,5) by (cases "ascii name") auto
  have "takeWhile (\<lambda>c. c \<noteq> 61) (?l @ [10]) = ascii name" "dropWhile (\<lambda>c. c \<noteq> 61) (?l @ [10]) = 61 # val @ [10]"
    using up_to_first [OF n(1)] by simp_all
  with c show ?thesis by (subst any_field.simps) (simp add: f Let_def)
qed

fun print_option :: "string \<Rightarrow> bytes option \<Rightarrow> bytes" where
  "print_option name None = []"
| "print_option name (Some val) = field_line name val"

text \<open>A test as a description, its program given as lines.\<close>

definition print_test :: "test \<times> bytes list \<Rightarrow> bytes" where
  "print_test = (\<lambda>(t, ls). field_line ''var'' (t_name t) @ field_line ''desc'' (t_desc t) @ field_line ''style'' (t_style t) @
     print_option ''depends'' (t_depends t) @ print_option ''link'' (t_link t) @ print_option ''flags'' (t_flags t) @
     print_option ''overrides'' (t_overrides t) @ field_line ''code'' [] @ concat (map (\<lambda>l. l @ [10]) ls) @ out_line ''/*END*/'')"

definition describes :: "test \<times> bytes list \<Rightarrow> bool" where
  "describes = (\<lambda>(t, ls). (\<forall>val \<in> {t_name t, t_desc t, t_style t}. field_ok val) \<and>
     (\<forall>val \<in> {t_depends t, t_link t, t_flags t, t_overrides t}. pred_option field_ok val) \<and>
     \<not> t_done t \<and> \<not> t_answer t \<and> t_fragment t = concat (map (\<lambda>l. l @ [10]) ls) \<and>
     (\<forall>l \<in> set ls. text_ok l \<and> length l < 999 \<and> \<not> prefix (ascii ''/*END*/'') l))"

lemma read_code_lines:
  assumes "\<forall>l \<in> set ls. text_ok l \<and> length l < 999 \<and> \<not> prefix (ascii ''/*END*/'') l"
  shows "read_code val (concat (map (\<lambda>l. l @ [10]) ls) @ out_line ''/*END*/'' @ rest) = (val @ concat (map (\<lambda>l. l @ [10]) ls), rest)"
  using assms
proof (induction ls arbitrary: val)
  case Nil
  have "fgets 1000 (ascii ''/*END*/'' @ 10 # rest) = Some (ascii ''/*END*/'' @ [10], rest)"
    by (rule fgets_line) (simp_all add: text_ok_def)
  then show ?case by (subst read_code.simps) (simp add: out_line_def)
next
  case (Cons l ls)
  have "fgets 1000 (l @ 10 # concat (map (\<lambda>l. l @ [10]) ls) @ out_line ''/*END*/'' @ rest) =
      Some (l @ [10], concat (map (\<lambda>l. l @ [10]) ls) @ out_line ''/*END*/'' @ rest)"
    using Cons.prems by (intro fgets_line) simp_all
  moreover have "take 7 (l @ [10]) \<noteq> ascii ''/*END*/''"
  proof
    assume eq: "take 7 (l @ [10]) = ascii ''/*END*/''"
    then have "7 \<le> length l" using arg_cong [OF eq, of last] arg_cong [OF eq, of length]
      by (cases "7 \<le> length l") (simp_all add: min_def)
    then have "take 7 l = ascii ''/*END*/''" using eq by simp
    then have "prefix (ascii ''/*END*/'') l" by (metis take_is_prefix)
    then show False using Cons.prems by simp
  qed
  ultimately show ?case using Cons.IH [of "val @ l @ [10]"] Cons.prems by (subst read_code.simps) simp
qed

lemma read_options_print:
  assumes "\<forall>val \<in> {d, l, f, v}. pred_option field_ok val"
    and "t_depends t = None" "t_link t = None" "t_flags t = None" "t_overrides t = None"
  shows "read_options t (print_option ''depends'' d @ print_option ''link'' l @ print_option ''flags'' f @
      print_option ''overrides'' v @ field_line ''code'' [] @ rest) =
    Inr ((t\<lparr>t_depends := d, t_link := l, t_flags := f, t_overrides := v\<rparr>, Some []), rest)"
proof -
  have ok: "field_ok []" by (simp add: field_ok_def text_ok_def)
  have step: "read_options u (print_option name val @ more) = (case val of None \<Rightarrow> read_options u more
      | Some x \<Rightarrow> read_options (if name = ''depends'' then u\<lparr>t_depends := val\<rparr> else if name = ''link'' then u\<lparr>t_link := val\<rparr>
          else if name = ''flags'' then u\<lparr>t_flags := val\<rparr> else u\<lparr>t_overrides := val\<rparr>) more)"
    if "name \<in> {''depends'', ''link'', ''flags'', ''overrides''}" "pred_option field_ok val" for u name val more
  proof (cases val)
    case (Some x)
    then have "any_field (field_line name x @ more) = Inr (Some (ascii name, x), more)"
      using that by (intro any_field_line) auto
    then have "read_options u (field_line name x @ more) =
       (if ascii name = ascii ''depends'' then read_options (u\<lparr>t_depends := Some x\<rparr>) more
        else if ascii name = ascii ''link'' then read_options (u\<lparr>t_link := Some x\<rparr>) more
        else if ascii name = ascii ''flags'' then read_options (u\<lparr>t_flags := Some x\<rparr>) more
        else if ascii name = ascii ''overrides'' then read_options (u\<lparr>t_overrides := Some x\<rparr>) more
        else if ascii name = ascii ''code'' then Inr ((u, Some x), more)
        else Inl EXIT_BAD_INPUT)"
      by (subst read_options.simps) (simp del: ascii_simps)
    then show ?thesis using that(1) by (elim insertE emptyE) (simp_all add: Some)
  qed simp
  have last: "read_options u (field_line ''code'' [] @ rest) = Inr ((u, Some []), rest)" for u
    using any_field_line [OF _ ok, of "''code''" rest] by (subst read_options.simps) simp
  have set: "t_depends u = None \<Longrightarrow> pred_option field_ok val \<Longrightarrow>
      read_options u (print_option ''depends'' val @ more) = read_options (u\<lparr>t_depends := val\<rparr>) more"
    "t_link u = None \<Longrightarrow> pred_option field_ok val \<Longrightarrow>
      read_options u (print_option ''link'' val @ more) = read_options (u\<lparr>t_link := val\<rparr>) more"
    "t_flags u = None \<Longrightarrow> pred_option field_ok val \<Longrightarrow>
      read_options u (print_option ''flags'' val @ more) = read_options (u\<lparr>t_flags := val\<rparr>) more"
    "t_overrides u = None \<Longrightarrow> pred_option field_ok val \<Longrightarrow>
      read_options u (print_option ''overrides'' val @ more) = read_options (u\<lparr>t_overrides := val\<rparr>) more"
    for u val more
    using step [of "''depends''" val u more] step [of "''link''" val u more] step [of "''flags''" val u more]
      step [of "''overrides''" val u more] by (cases u; cases val; simp)+
  show ?thesis using assms by (simp add: set last del: print_option.simps)
qed

lemma read_test_print:
  assumes "describes (t, ls)"
  shows "read_test (print_test (t, ls) @ rest) = Inr (Some t, rest)"
proof -
  have ok: "field_ok (t_name t)" "field_ok (t_desc t)" "field_ok (t_style t)"
      "\<forall>val \<in> {t_depends t, t_link t, t_flags t, t_overrides t}. pred_option field_ok val"
      "t_fragment t = concat (map (\<lambda>l. l @ [10]) ls)" "\<not> t_done t" "\<not> t_answer t"
      "\<forall>l \<in> set ls. text_ok l \<and> length l < 999 \<and> \<not> prefix (ascii ''/*END*/'') l"
    using assms by (simp_all add: describes_def)
  have field: "read_field (ascii name) b (field_line name val @ more) = Inr (Some val, more)"
    if "name \<in> {''var'', ''desc'', ''style''}" "field_ok val" for name val b more
    using that any_field_line [of name val more] by (auto simp: read_field_def)
  note options = read_options_print [OF ok(4), of "new_test (t_name t) (t_desc t) (t_style t) None []"]
  have "t = (new_test (t_name t) (t_desc t) (t_style t) None [])\<lparr>t_depends := t_depends t, t_link := t_link t,
      t_flags := t_flags t, t_overrides := t_overrides t, t_fragment := t_fragment t\<rparr>"
    using ok(6,7) by (cases t) (simp add: new_test_def)
  then show ?thesis
    using field [of "''var''" "t_name t"] field [of "''desc''" "t_desc t"] field [of "''style''" "t_style t"] ok(1-3,5)
      options read_code_lines [OF ok(8), of "[]"]
    by (simp add: read_test_def print_test_def new_test_def del: ascii_simps)
qed

section \<open>Running the tests in any order of dependencies\<close>

text \<open>A result that is there and, where it does not exit, has a property.\<close>

definition returns :: "('a \<Rightarrow> bool) \<Rightarrow> 'a result \<Rightarrow> bool" where
  "returns P r \<longleftrightarrow> (\<exists>x. r = Some x \<and> (\<forall>y. x = Inr y \<longrightarrow> P y))"

lemma returns_simps [simp]:
  "returns P (exits code st)" "returns P (Some (Inr y)) \<longleftrightarrow> P y" "\<not> returns P None"
  by (simp_all add: returns_def exits_def)

lemma returns_and_then: "returns Q r \<Longrightarrow> (\<And>y. Q y \<Longrightarrow> returns P (f y)) \<Longrightarrow> returns P (and_then r f)"
  by (auto simp: returns_def split: sum.splits) (metis and_then_simps(2,3) sum.exhaust sum.inject(1) sum.simps(4))

lemma returns_and_then_pair:
  "returns Q r \<Longrightarrow> (\<And>a b. Q (a, b) \<Longrightarrow> returns P (f a b)) \<Longrightarrow> returns P (and_then r (\<lambda>(a, b). f a b))"
  using returns_and_then [of Q r P "\<lambda>(a, b). f a b"] by auto

lemma returns_mono: "returns Q r \<Longrightarrow> (\<And>y. Q y \<Longrightarrow> P y) \<Longrightarrow> returns P r"
  by (auto simp: returns_def)

lemma run_returns: "returns (\<lambda>(output, status, st'). cf_tests st' = cf_tests st) (run S cmd source st)"
  by (auto simp: run_def split: prod.split option.split)

lemma put_simps [simp]: "cf_tests (put text st) = cf_tests st" "cf_world (put text st) = cf_world st"
    "cf_out (put text st) = cf_out st @ text"
  by (simp_all add: put_def)

lemma tests_kept [simp]:
  "cf_tests (start_test sw what why st) = cf_tests st" "cf_tests (end_test sw b st) = cf_tests st"
  "cf_tests (snd (extra_args sw w e c st)) = cf_tests st"
  by (simp_all add: start_test_def end_test_def extra_args_def Let_def split: option.split)

text \<open>What never changes of a test.\<close>

definition static :: "test \<Rightarrow> test" where
  "static t = t\<lparr>t_done := False, t_answer := False\<rparr>"

lemma static_eq:
  assumes "static t = static u"
  shows "t_name t = t_name u" "t_depends t = t_depends u" "t_overrides t = t_overrides u"
  using assms by (cases t; cases u; simp add: static_def)+

lemma find_test_static: "map static ts = map static us \<Longrightarrow> find_test ts name = find_test us name"
proof (induction ts arbitrary: us)
  case (Cons t ts)
  then obtain u vs where "us = u # vs" "static t = static u" "map static ts = map static vs" by (cases us) auto
  then show ?case using Cons.IH static_eq(1) [of t u] by simp
qed simp

lemma find_test_bound: "find_test ts name = Some j \<Longrightarrow> j < length ts \<and> t_name (ts ! j) = name"
  by (induction ts arbitrary: j) (auto split: if_splits)

definition deps_of :: "test \<Rightarrow> (bool \<times> bytes \<times> bool) list" where
  "deps_of t = (case t_depends t of None \<Rightarrow> [] | Some deps \<Rightarrow> split_deps deps)"

text \<open>A test that came out true has the dependencies it wants.\<close>

definition dependencies_hold :: "test list \<Rightarrow> bool" where
  "dependencies_hold ts \<longleftrightarrow> (\<forall>t \<in> set ts. t_done t \<and> t_answer t \<longrightarrow> (\<forall>(positive, name, _) \<in> set (deps_of t).
     \<forall>k. find_test ts name = Some k \<longrightarrow> t_done (ts ! k) \<and> t_answer (ts ! k) = positive))"

definition no_overrides :: "test list \<Rightarrow> bool" where
  "no_overrides ts \<longleftrightarrow> (\<forall>t \<in> set ts. t_overrides t = None)"

text \<open>How the tests may change while those of a rank below \<open>r\<close> are run.\<close>

definition evolves :: "(nat \<Rightarrow> nat) \<Rightarrow> nat \<Rightarrow> test list \<Rightarrow> test list \<Rightarrow> bool" where
  "evolves rank r ts ts' \<longleftrightarrow> map static ts' = map static ts \<and> (\<forall>j < length ts. t_done (ts ! j) \<longrightarrow> t_done (ts' ! j)) \<and>
     (no_overrides ts \<longrightarrow> (\<forall>j < length ts. t_done (ts ! j) \<or> r \<le> rank j \<longrightarrow> ts' ! j = ts ! j))"

lemma no_overrides_static: "map static ts = map static us \<Longrightarrow> no_overrides ts = no_overrides us"
proof -
  assume eq: "map static ts = map static us"
  have "no_overrides ts \<longleftrightarrow> (\<forall>t \<in> set (map static ts). t_overrides t = None)" for ts
    by (simp add: no_overrides_def static_def)
  then show ?thesis using eq by metis
qed

lemma evolves_refl: "evolves rank r ts ts"
  by (simp add: evolves_def)

lemma evolves_trans:
  assumes "evolves rank r ts us" "evolves rank r us vs"
  shows "evolves rank r ts vs"
proof -
  have "length us = length ts" using assms(1) by (metis evolves_def length_map)
  moreover have "no_overrides us = no_overrides ts" using assms(1) by (intro no_overrides_static) (simp add: evolves_def)
  ultimately show ?thesis using assms by (auto simp: evolves_def)
qed

lemma evolves_weaken: "evolves rank r ts us \<Longrightarrow> r \<le> r' \<Longrightarrow> evolves rank r' ts us"
  by (auto simp: evolves_def)

definition answered :: "test \<Rightarrow> bool \<Rightarrow> test" where
  "answered t b = t\<lparr>t_done := True, t_answer := b\<rparr>"

lemma answered_simps [simp]:
  "t_done (answered t b)" "t_answer (answered t b) = b" "static (answered t b) = static t" "deps_of (answered t b) = deps_of t"
  by (simp_all add: answered_def static_def deps_of_def)

lemma set_answer_tests: "cf_tests (set_answer i b st) = (cf_tests st)[i := answered (cf_tests st ! i) b]"
  by (simp add: set_answer_def answered_def)

lemma map_static_update [simp]: "static u = static (ts ! i) \<Longrightarrow> map static (ts[i := u]) = map static ts"
  by (cases "i < length ts") (simp_all add: map_update list_update_same_conv list_update_beyond)

lemma judge_returns: "returns (\<lambda>(b, st'). cf_tests st' = cf_tests st) (judge_test S sw wrapper source t output status st)"
proof -
  have "returns (\<lambda>(b, st'). cf_tests st' = cf_tests st)
      (and_then (run S c source st) (\<lambda>(output, status, st).
        if \<not> has_style ''EXECUTE'' t \<and> status \<noteq> 0 then exits EXIT_BAD_TEST st
        else let st = if sw_verbose sw \<noteq> 0 \<and> status \<noteq> 0 then put (line status) st else st in Some (Inr (status = 0, st))))" for c line
    by (rule returns_and_then [OF run_returns]) (auto simp: Let_def)
  then show ?thesis by (simp add: judge_test_def Let_def)
qed

definition settled :: "nat \<Rightarrow> test list \<Rightarrow> bool \<times> 'x conf \<Rightarrow> bool" where
  "settled i ts = (\<lambda>(b, st). map static (cf_tests st) = map static ts \<and>
     (\<forall>j < length ts. t_done (ts ! j) \<or> j = i \<longrightarrow> t_done (cf_tests st ! j)) \<and> b = t_answer (cf_tests st ! i) \<and>
     (t_overrides (ts ! i) = None \<longrightarrow> cf_tests st = ts[i := answered (ts ! i) b]))"

lemma settle_returns:
  assumes "i < length (cf_tests st)"
  shows "returns (settled i (cf_tests st)) (settle_test sw i (t_overrides (cf_tests st ! i)) answer st)"
proof (cases "if answer then t_overrides (cf_tests st ! i) else None")
  case None
  then show ?thesis using assms by (auto simp: settle_test_def settled_def Let_def set_answer_tests nth_list_update)
next
  case (Some name)
  let ?st2 = "end_test sw answer (set_answer i answer st)"
  show ?thesis
  proof (cases "find_test (cf_tests ?st2) name")
    case None
    then show ?thesis using \<open>(if answer then _ else _) = _\<close> by (simp add: settle_test_def Let_def)
  next
    case (Some j)
    then have "j < length (cf_tests st)" using find_test_bound [of "cf_tests ?st2" name j] by (simp add: set_answer_tests)
    then show ?thesis using Some \<open>(if answer then _ else _) = _\<close> assms
      by (auto simp: settle_test_def settled_def Let_def set_answer_tests nth_list_update split: if_splits)
  qed
qed

lemma perform_returns:
  assumes "i < length (cf_tests st)"
  shows "returns (settled i (cf_tests st)) (perform_test S sw cmd wrapper i st)"
proof -
  let ?t = "cf_tests st ! i"
  have "returns (settled i (cf_tests st)) (and_then (run S c source st1) (\<lambda>(output, status, st).
      and_then (judge_test S sw wrapper source ?t output status st) (\<lambda>(answer, st). settle_test sw i (t_overrides ?t) answer st)))"
    if "cf_tests st1 = cf_tests st" for c source st1
  proof (rule returns_and_then [OF run_returns], clarify)
    fix result status and st2 :: "'a conf"
    assume st2: "cf_tests st2 = cf_tests st1"
    show "returns (settled i (cf_tests st)) (and_then (judge_test S sw wrapper source ?t result status st2)
        (\<lambda>(answer, st). settle_test sw i (t_overrides ?t) answer st))"
    proof (rule returns_and_then [OF judge_returns], clarify)
      fix answer and st3 :: "'a conf"
      assume "cf_tests st3 = cf_tests st2"
      with st2 that have eq: "cf_tests st3 = cf_tests st" by simp
      show "returns (settled i (cf_tests st)) (settle_test sw i (t_overrides ?t) answer st3)"
        using settle_returns [of i st3 sw answer] assms unfolding eq .
    qed
  qed
  then show ?thesis by (auto simp: perform_test_def Let_def case_prod_beta split: option.split)
qed

text \<open>The order: dependencies have a lower rank. Only the last dependency may be negated.\<close>

definition ordered :: "(nat \<Rightarrow> nat) \<Rightarrow> test list \<Rightarrow> bool" where
  "ordered rank ts \<longleftrightarrow> (\<forall>i < length ts. \<forall>(positive, name, last_one) \<in> set (deps_of (ts ! i)).
     (positive \<or> last_one) \<and> (\<forall>j. find_test ts name = Some j \<longrightarrow> rank j < rank i))"

definition deps_met :: "test list \<Rightarrow> (bool \<times> bytes \<times> bool) list \<Rightarrow> bool" where
  "deps_met ts ds \<longleftrightarrow> (\<forall>(positive, name, _) \<in> set ds. \<forall>k. find_test ts name = Some k \<longrightarrow>
     t_done (ts ! k) \<and> t_answer (ts ! k) = positive)"

lemma dependencies_hold_alt:
  "dependencies_hold ts \<longleftrightarrow> (\<forall>j < length ts. t_done (ts ! j) \<and> t_answer (ts ! j) \<longrightarrow> deps_met ts (deps_of (ts ! j)))"
  by (auto simp: dependencies_hold_def deps_met_def all_set_conv_all_nth)

lemma deps_met_update:
  assumes "deps_met ts ds" "\<not> t_done (ts ! i)"
  shows "deps_met (ts[i := answered (ts ! i) b]) ds"
proof -
  have "find_test (ts[i := answered (ts ! i) b]) name = find_test ts name" for name by (rule find_test_static) simp
  moreover have "(ts[i := answered (ts ! i) b]) ! k = ts ! k" if "t_done (ts ! k)" for k using that assms(2) by (cases "k = i") auto
  ultimately show ?thesis using assms(1) by (fastforce simp: deps_met_def)
qed

lemma dependencies_hold_update:
  assumes "dependencies_hold ts" "\<not> t_done (ts ! i)" "b \<longrightarrow> deps_met ts (deps_of (ts ! i))"
  shows "dependencies_hold (ts[i := answered (ts ! i) b])"
  unfolding dependencies_hold_alt
proof (intro allI impI)
  let ?us = "ts[i := answered (ts ! i) b]"
  fix j assume "j < length ?us" "t_done (?us ! j) \<and> t_answer (?us ! j)"
  then have "deps_met ts (deps_of (?us ! j))" using assms by (cases "j = i") (auto simp: dependencies_hold_alt)
  then show "deps_met ?us (deps_of (?us ! j))" using assms(2) by (rule deps_met_update)
qed

text \<open>What running one test does to all.\<close>

definition tested :: "(nat \<Rightarrow> nat) \<Rightarrow> nat \<Rightarrow> test list \<Rightarrow> bool \<times> 'x conf \<Rightarrow> bool" where
  "tested rank i ts = (\<lambda>(b, st). evolves rank (Suc (rank i)) ts (cf_tests st) \<and> t_done (cf_tests st ! i) \<and>
     t_answer (cf_tests st ! i) = b \<and>
     (no_overrides ts \<and> dependencies_hold ts \<longrightarrow> dependencies_hold (cf_tests st)))"

definition deps_tested :: "(nat \<Rightarrow> nat) \<Rightarrow> nat \<Rightarrow> (bool \<times> bytes \<times> bool) list \<Rightarrow> test list \<Rightarrow> bool \<times> 'x conf \<Rightarrow> bool" where
  "deps_tested rank r ds ts = (\<lambda>(ok, st). evolves rank r ts (cf_tests st) \<and>
     (no_overrides ts \<and> dependencies_hold ts \<longrightarrow> dependencies_hold (cf_tests st)) \<and>
     (no_overrides ts \<and> ok \<longrightarrow> deps_met (cf_tests st) ds))"

lemma evolves_length: "evolves rank r ts us \<Longrightarrow> length us = length ts"
  by (metis evolves_def length_map)

lemma deps_met_evolves:
  assumes "deps_met ts ds" "evolves rank r ts us" "no_overrides ts"
  shows "deps_met us ds"
proof -
  have f: "find_test us name = find_test ts name" for name using assms(2) by (intro find_test_static) (simp add: evolves_def)
  have k: "us ! k = ts ! k" if "find_test ts name = Some k" "t_done (ts ! k)" for name k
    using that assms(2,3) find_test_bound [OF that(1)] by (simp add: evolves_def)
  show ?thesis unfolding deps_met_def f
  proof clarify
    fix positive name last_one k
    assume "(positive, name, last_one) \<in> set ds" "find_test ts name = Some k"
    moreover from this assms(1) have "t_done (ts ! k) \<and> t_answer (ts ! k) = positive" by (auto simp: deps_met_def)
    ultimately show "t_done (us ! k) \<and> t_answer (us ! k) = positive" using k by simp
  qed
qed

lemma check_deps_returns:
  assumes "\<And>j st. map static (cf_tests st) = map static ts \<Longrightarrow> j < length ts \<Longrightarrow> rank j < r \<Longrightarrow>
      returns (tested rank j (cf_tests st)) (rn j st)"
    and "\<forall>(positive, name, last_one) \<in> set ds. (positive \<or> last_one) \<and> (\<forall>j. find_test ts name = Some j \<longrightarrow> rank j < r)"
    and "map static (cf_tests st) = map static ts"
  shows "returns (deps_tested rank r ds (cf_tests st))
    (check_deps (\<lambda>name st. case find_test (cf_tests st) name of None \<Rightarrow> exits EXIT_BAD_TEST st | Some j \<Rightarrow> rn j st) ds st)"
  using assms(2,3)
proof (induction ds arbitrary: st)
  case Nil
  then show ?case by (simp add: deps_tested_def evolves_refl deps_met_def)
next
  case (Cons d ds)
  obtain pos name last1 where d: "d = (pos, name, last1)" by (rule prod_cases3)
  have f: "find_test us name = find_test ts name" if "map static us = map static ts" for us using that by (rule find_test_static)
  show ?case
  proof (cases "find_test ts name")
    case None
    then show ?thesis using f [OF Cons.prems(2)] by (simp add: d exits_def returns_def)
  next
    case (Some j)
    then have j: "j < length ts" "rank j < r" using Cons.prems(1) d find_test_bound by auto
    have "returns (deps_tested rank r (d # ds) (cf_tests st)) (and_then (rn j st) (\<lambda>(answer, st).
        if answer \<noteq> pos then Some (Inr (False, st)) else if \<not> pos \<and> \<not> last1 then None
        else check_deps (\<lambda>name st. case find_test (cf_tests st) name of None \<Rightarrow> exits EXIT_BAD_TEST st | Some j \<Rightarrow> rn j st) ds st))"
    proof (rule returns_and_then [OF assms(1) [OF Cons.prems(2) j]], clarify)
      fix answer and st1 :: "'a conf"
      assume t: "tested rank j (cf_tests st) (answer, st1)"
      then have e: "evolves rank r (cf_tests st) (cf_tests st1)" using j(2) by (auto simp: tested_def intro: evolves_weaken)
      then have s1: "map static (cf_tests st1) = map static ts" using Cons.prems(2) by (simp add: evolves_def)
      have nov: "no_overrides (cf_tests st1) = no_overrides (cf_tests st)"
        using s1 Cons.prems(2) by (intro no_overrides_static) simp
      let ?rest = "check_deps (\<lambda>name st. case find_test (cf_tests st) name of None \<Rightarrow> exits EXIT_BAD_TEST st | Some j \<Rightarrow> rn j st) ds st1"
      show "returns (deps_tested rank r (d # ds) (cf_tests st))
          (if answer \<noteq> pos then Some (Inr (False, st1)) else if \<not> pos \<and> \<not> last1 then None else ?rest)"
      proof (cases "answer = pos")
        case False
        then show ?thesis using e t by (simp add: deps_tested_def tested_def)
      next
        case True
        have "returns (deps_tested rank r (d # ds) (cf_tests st)) ?rest"
        proof (rule returns_mono [OF Cons.IH [OF _ s1]])
          fix y :: "bool \<times> 'a conf"
          assume y: "deps_tested rank r ds (cf_tests st1) y"
          obtain ok st2 where y2: "y = (ok, st2)" by force
          have e2: "evolves rank r (cf_tests st1) (cf_tests st2)" using y y2 by (simp add: deps_tested_def)
          have "deps_met (cf_tests st1) [d]" using t True Some f [OF s1] by (simp add: deps_met_def tested_def d)
          then have "deps_met (cf_tests st2) [d]" if "no_overrides (cf_tests st)" using deps_met_evolves e2 that nov by blast
          moreover have "deps_met us (d # ds) \<longleftrightarrow> deps_met us [d] \<and> deps_met us ds" for us by (auto simp: deps_met_def)
          ultimately show "deps_tested rank r (d # ds) (cf_tests st) y"
            using y t nov evolves_trans [OF e e2] by (auto simp: deps_tested_def tested_def y2)
        qed (use Cons.prems(1) in simp)
        then show ?thesis using True Cons.prems(1) d by auto
      qed
    qed
    then show ?thesis using Some f [OF Cons.prems(2)] by (simp add: d)
  qed
qed

lemma deps_of_static:
  assumes "map static us = map static ts" "i < length ts"
  shows "deps_of (us ! i) = deps_of (ts ! i)" "i < length us"
proof -
  have len: "length us = length ts" using arg_cong [OF assms(1), of length] by simp
  then show "i < length us" using assms(2) by simp
  have "static (us ! i) = static (ts ! i)"
    using arg_cong [OF assms(1), of "\<lambda>xs. xs ! i"] assms(2) len by simp
  from static_eq(2) [OF this] show "deps_of (us ! i) = deps_of (ts ! i)" by (simp add: deps_of_def)
qed

lemma settled_tested:
  assumes "settled i us (b, st)" "evolves rank (rank i) ts us" "\<not> t_done (ts ! i)" "i < length ts"
    and "no_overrides ts \<and> dependencies_hold ts \<longrightarrow> dependencies_hold us"
    and "no_overrides ts \<and> b \<longrightarrow> deps_met us (deps_of (us ! i))"
  shows "tested rank i ts (b, st)"
proof -
  have len: "length us = length ts" using assms(2) by (rule evolves_length)
  have s: "map static (cf_tests st) = map static us" "\<forall>j < length us. t_done (us ! j) \<or> j = i \<longrightarrow> t_done (cf_tests st ! j)"
      "b = t_answer (cf_tests st ! i)"
    using assms(1) by (simp_all add: settled_def)
  have upd: "cf_tests st = us[i := answered (us ! i) b] \<and> us ! i = ts ! i" if "no_overrides ts"
  proof -
    have "no_overrides us" using that no_overrides_static [of us ts] assms(2) by (simp add: evolves_def)
    then have "t_overrides (us ! i) = None" using len assms(4) by (simp add: no_overrides_def)
    moreover have "us ! i = ts ! i" using assms(2,4) that unfolding evolves_def by blast
    ultimately show ?thesis using assms(1) unfolding settled_def by blast
  qed
  have "evolves rank (Suc (rank i)) ts (cf_tests st)"
    using s(1,2) assms(2,3,4) upd len by (auto simp: evolves_def nth_list_update)
  moreover have "dependencies_hold (cf_tests st)" if "no_overrides ts \<and> dependencies_hold ts"
    using that assms(3,5,6) upd dependencies_hold_update [of us i b] by auto
  ultimately show ?thesis using s(2,3) assms(4) len by (simp add: tested_def)
qed

lemma run_test_returns:
  assumes "ordered rank ts"
  shows "map static (cf_tests st) = map static ts \<Longrightarrow> i < length ts \<Longrightarrow>
    returns (tested rank i (cf_tests st)) (run_test S sw cmd wrapper i st)"
proof (induction "rank i" arbitrary: i st rule: less_induct)
  case less
  let ?ts = "cf_tests st" and ?r = "run_test S sw cmd wrapper"
  note dep = deps_of_static [OF less.prems] and len = deps_of_static(2) [OF less.prems]
  show ?case
  proof (cases "t_done (?ts ! i)")
    case True
    then show ?thesis by (subst run_test.simps) (simp add: tested_def evolves_refl)
  next
    case False
    have "\<forall>(positive, name, last_one) \<in> set (deps_of (?ts ! i)).
        (positive \<or> last_one) \<and> (\<forall>j. find_test ts name = Some j \<longrightarrow> rank j < rank i)"
      using assms less.prems(2) unfolding ordered_def dep(1) by blast
    from check_deps_returns [OF less.hyps this less.prems(1)]
    have deps: "returns (deps_tested rank (rank i) (deps_of (?ts ! i)) ?ts) (check_deps (\<lambda>name st. case find_test (cf_tests st) name of
        None \<Rightarrow> exits EXIT_BAD_TEST st | Some j \<Rightarrow> ?r j st) (deps_of (?ts ! i)) st)" by blast
    have "returns (tested rank i ?ts) (if \<not> ok then Some (Inr (False, set_answer i False st1)) else perform_test S sw cmd wrapper i st1)"
      if "deps_tested rank (rank i) (deps_of (?ts ! i)) ?ts (ok, st1)" for ok st1
    proof -
      have e: "evolves rank (rank i) ?ts (cf_tests st1)" "no_overrides ?ts \<and> dependencies_hold ?ts \<longrightarrow> dependencies_hold (cf_tests st1)"
          "no_overrides ?ts \<and> ok \<longrightarrow> deps_met (cf_tests st1) (deps_of (?ts ! i))"
        using that by (simp_all add: deps_tested_def)
      have "map static (cf_tests st1) = map static ?ts" using e(1) by (simp add: evolves_def)
      note dep1 = deps_of_static(1) [OF this len] and len1 = deps_of_static(2) [OF this len]
      note to_tested = settled_tested [OF _ e(1) False len e(2), unfolded dep1]
      show ?thesis
      proof (cases ok)
        case True
        then have "returns (settled i (cf_tests st1)) (perform_test S sw cmd wrapper i st1)" using perform_returns [OF len1] by simp
        then have "returns (tested rank i ?ts) (perform_test S sw cmd wrapper i st1)"
          by (rule returns_mono) (use to_tested e(3) True in force)
        then show ?thesis using True by simp
      next
        case ok: False
        have "settled i (cf_tests st1) (False, set_answer i False st1)"
          using len1 by (auto simp: settled_def set_answer_tests nth_list_update)
        from to_tested [OF this] ok show ?thesis by simp
      qed
    qed
    note rest = this
    have "run_test S sw cmd wrapper i st = and_then (check_deps (\<lambda>name st. case find_test (cf_tests st) name of
          None \<Rightarrow> exits EXIT_BAD_TEST st | Some j \<Rightarrow> ?r j st) (deps_of (?ts ! i)) st)
        (\<lambda>(ok, st). if \<not> ok then Some (Inr (False, set_answer i False st)) else perform_test S sw cmd wrapper i st)"
      using False by (subst run_test.simps) (simp add: deps_of_def)
    then show ?thesis using returns_and_then_pair [OF deps rest] by simp
  qed
qed

lemma run_tests_return:
  assumes "ordered rank ts"
  shows "map static (cf_tests st) = map static ts \<Longrightarrow> set is \<subseteq> {..<length ts} \<Longrightarrow>
    returns (\<lambda>st'. map static (cf_tests st') = map static ts \<and>
      (\<forall>j < length ts. t_done (cf_tests st ! j) \<or> j \<in> set is \<longrightarrow> t_done (cf_tests st' ! j)) \<and>
      (no_overrides ts \<and> dependencies_hold (cf_tests st) \<longrightarrow> dependencies_hold (cf_tests st')))
    (run_tests S sw cmd wrapper is st)"
proof (induction "is" arbitrary: st)
  case (Cons i js)
  have nov: "no_overrides (cf_tests st) = no_overrides ts" using Cons.prems(1) by (rule no_overrides_static)
  have len: "length (cf_tests st) = length ts" using arg_cong [OF Cons.prems(1), of length] by simp
  have i: "i < length ts" using Cons.prems(2) by simp
  have "returns (\<lambda>st'. map static (cf_tests st') = map static ts \<and>
      (\<forall>j < length ts. t_done (cf_tests st ! j) \<or> j \<in> set (i # js) \<longrightarrow> t_done (cf_tests st' ! j)) \<and>
      (no_overrides ts \<and> dependencies_hold (cf_tests st) \<longrightarrow> dependencies_hold (cf_tests st')))
    (run_tests S sw cmd wrapper js st1)" if t: "tested rank i (cf_tests st) (b, st1)" for b st1
  proof -
    have s: "map static (cf_tests st1) = map static ts" "\<forall>j < length ts. t_done (cf_tests st ! j) \<or> j = i \<longrightarrow> t_done (cf_tests st1 ! j)"
        "no_overrides ts \<and> dependencies_hold (cf_tests st) \<longrightarrow> dependencies_hold (cf_tests st1)"
      using t Cons.prems(1) nov len by (auto simp: tested_def evolves_def)
    show ?thesis by (rule returns_mono [OF Cons.IH [OF s(1)]]) (use Cons.prems(2) s(2,3) in auto)
  qed
  from returns_and_then_pair [OF run_test_returns [OF assms Cons.prems(1) i] this] show ?case by simp
qed simp

section \<open>The answers to the tests of the repository\<close>

lemma grab_loop_eq:
  "length buffer < cap \<Longrightarrow> \<exists>cap'. grab_loop cap buffer src = (buffer @ src, cap') \<and> length (buffer @ src) < cap'"
proof (induction cap buffer src rule: grab_loop.induct)
  case (1 cap buffer src)
  let ?ret = "take (cap - length buffer) src"
  show ?case
  proof (cases "length ?ret = cap - length buffer")
    case True
    then have "?ret \<noteq> []" "length (buffer @ ?ret) = cap" using 1(2) by auto
    moreover have "grab_loop cap buffer src = grab_loop (cap * 2) (buffer @ ?ret) (drop (cap - length buffer) src)"
      using True \<open>?ret \<noteq> []\<close> by (subst grab_loop.simps) (simp add: Let_def)
    ultimately show ?thesis using 1(1) [of ?ret] True 1(2) by simp
  next
    case False
    then show ?thesis using 1(2) by (subst grab_loop.simps) (auto simp: Let_def min_def split: if_splits)
  qed
qed

text \<open>The buffer always has room for the terminator, and the string is what the command printed.\<close>

lemma grab_stream_eq: "grab_stream src = c_str src"
proof -
  have "c_str (src @ [0]) = c_str src" by (induction src) (simp_all add: c_str_def)
  then show ?thesis using grab_loop_eq [of "[]" BUFSIZ src] by (auto simp: grab_stream_def BUFSIZ_def)
qed

text \<open>
  A toolchain: what becomes of a program, which may be rejected (or compiled with a warning), or run
  with an exit code. What \<open>pclose\<close> gives is the wait status, whose encoding is the system's (256 times
  the code, on the usual ones); it is 0 exactly when the program exits with 0.
\<close>

definition toolchain :: "'x shell \<Rightarrow> bytes \<Rightarrow> (bytes \<Rightarrow> int option) \<Rightarrow> bool" where
  "toolchain S cmd prog \<longleftrightarrow> sh_fopen S INPUT_FILE \<and> (\<forall>source w. \<exists>output status w'.
     sh_popen S (cmd @ ascii '' 2>&1'') source w = (Some (output, status), w') \<and>
     (prog source \<noteq> None \<longleftrightarrow> status = 0 \<and> \<not> sublist (ascii ''warning'') (c_str output)) \<and>
     (\<forall>x. prog source = Some x \<longrightarrow> (\<exists>output' status' w''.
       sh_popen S (ascii '' ./configurator.out 2>&1'') source w' = (Some (output', status'), w'') \<and> (status' = 0 \<longleftrightarrow> x = 0))))"

definition quiet :: switches where
  "quiet = \<lparr>sw_verbose = 0, sw_like_a_libtool = False\<rparr>"

lemma perform_toolchain:
  assumes "toolchain S cmd prog" "test_program t = Some source" "cf_tests st ! i = t"
    and "t_flags t = None" "t_link t = None" "t_overrides t = None"
    and "has_style ''EXECUTE'' t \<longrightarrow> prog source \<noteq> None"
    and "has_style ''INSIDE_MAIN'' t \<and> \<not> has_style ''EXECUTE'' t \<longrightarrow> prog source \<in> {None, Some 0}"
  defines "b \<equiv> if has_style ''EXECUTE'' t then prog source = Some 0 else prog source \<noteq> None"
  shows "\<exists>w. perform_test S quiet cmd [] i st = Some (Inr (b, set_answer i b (st\<lparr>cf_world := w\<rparr>)))"
proof -
  obtain result status w1 where c: "sh_popen S (cmd @ ascii '' 2>&1'') source (cf_world st) = (Some (result, status), w1)"
      "prog source \<noteq> None \<longleftrightarrow> status = 0 \<and> \<not> sublist (ascii ''warning'') (c_str result)"
      "\<forall>x. prog source = Some x \<longrightarrow> (\<exists>output' status' w''.
        sh_popen S (ascii '' ./configurator.out 2>&1'') source w1 = (Some (output', status'), w'') \<and> (status' = 0 \<longleftrightarrow> x = 0))"
    using assms(1) unfolding toolchain_def by blast
  have start: "perform_test S quiet cmd [] i st =
      and_then (judge_test S quiet [] source t (c_str result) status (st\<lparr>cf_world := w1\<rparr>)) (\<lambda>(answer, st). settle_test quiet i None answer st)"
    using assms(1-6) c(1)
    by (simp add: perform_test_def quiet_def extra_args_def start_test_def run_def grab_stream_eq toolchain_def del: ascii_simps)
  have "\<exists>w. judge_test S quiet [] source t (c_str result) status (st\<lparr>cf_world := w1\<rparr>) = Some (Inr (b, st\<lparr>cf_world := w\<rparr>))"
  proof (cases "prog source")
    case None
    then show ?thesis using c(2) assms(7) by (auto simp: judge_test_def quiet_def b_def exI [of _ w1])
  next
    case (Some x)
    obtain output' x' w2 where r: "sh_popen S (ascii '' ./configurator.out 2>&1'') source w1 = (Some (output', x'), w2)" "x' = 0 \<longleftrightarrow> x = 0"
      using c(3) Some by blast
    have "([] @ ascii '' ./'' @ OUTPUT_FILE) @ ascii '' 2>&1'' = ascii '' ./configurator.out 2>&1''" by (simp add: OUTPUT_FILE_def)
    then have "run S ([] @ ascii '' ./'' @ OUTPUT_FILE) source (st\<lparr>cf_world := w1\<rparr>) = Some (Inr (grab_stream output', x', st\<lparr>cf_world := w2\<rparr>))"
      using r(1) by (simp only: run_def) simp
    then show ?thesis using c(2) Some assms(8) r(2)
      by (auto simp: judge_test_def quiet_def b_def Let_def exI [of _ w1] exI [of _ w2])
  qed
  then show ?thesis using start by (auto simp: settle_test_def quiet_def end_test_def Let_def)
qed

lemmas base_test_defs = unaligned_test_def typeof_test_def big_endian_test_def byteswap_test_def bswap_64_test_def
  little_endian_test_def new_test_def

lemma style_simps:
  "has_style ''EXECUTE'' unaligned_test" "\<not> has_style ''INSIDE_MAIN'' unaligned_test" "\<not> has_style ''OUTSIDE_MAIN'' unaligned_test"
  "\<not> has_style ''DEFINES_FUNC'' unaligned_test" "has_style ''DEFINES_EVERYTHING'' unaligned_test"
  "\<not> has_style ''EXECUTE'' typeof_test" "has_style ''INSIDE_MAIN'' typeof_test"
  "has_style ''EXECUTE'' big_endian_test" "has_style ''INSIDE_MAIN'' big_endian_test"
  "\<not> has_style ''EXECUTE'' byteswap_test" "\<not> has_style ''INSIDE_MAIN'' byteswap_test" "has_style ''OUTSIDE_MAIN'' byteswap_test"
  "\<not> has_style ''EXECUTE'' bswap_64_test" "\<not> has_style ''INSIDE_MAIN'' bswap_64_test" "\<not> has_style ''OUTSIDE_MAIN'' bswap_64_test"
  "has_style ''DEFINES_FUNC'' bswap_64_test"
  "has_style ''EXECUTE'' little_endian_test" "has_style ''INSIDE_MAIN'' little_endian_test"
  by (simp_all add: has_style_def base_test_defs sublist_Cons_right)

lemma base_test_fields:
  "t \<in> set base_tests \<Longrightarrow> t_flags t = None \<and> t_link t = None \<and> t_overrides t = None \<and> \<not> t_done t \<and> \<not> t_answer t"
  by (auto simp: base_tests_def base_test_defs)

lemma base_test_program: "t \<in> set base_tests \<Longrightarrow> test_program t \<noteq> None"
  by (auto simp: base_tests_def test_program_def style_simps)

lemma base_test_deps:
  "deps_of unaligned_test = []" "deps_of typeof_test = []" "deps_of big_endian_test = []" "deps_of byteswap_test = []"
  "deps_of bswap_64_test = [(True, ascii ''HAVE_BYTESWAP_H'', True)]" "deps_of little_endian_test = []"
  by (simp_all add: deps_of_def base_test_defs split_deps.simps)

lemma find_base_test: "map static ts = map static base_tests \<Longrightarrow> find_test ts (ascii ''HAVE_BYTESWAP_H'') = Some 3"
  using find_test_static [of ts base_tests "ascii ''HAVE_BYTESWAP_H''"] by (simp add: base_tests_def base_test_defs)

text \<open>One step of the program, for a test whose dependencies are met or not.\<close>

lemma run_test_unfold:
  "\<not> t_done (cf_tests st ! i) \<Longrightarrow> run_test S sw cmd wrapper i st = and_then
     (check_deps (\<lambda>name st. case find_test (cf_tests st) name of None \<Rightarrow> exits EXIT_BAD_TEST st | Some j \<Rightarrow> run_test S sw cmd wrapper j st)
       (deps_of (cf_tests st ! i)) st)
     (\<lambda>(ok, st). if \<not> ok then Some (Inr (False, set_answer i False st)) else perform_test S sw cmd wrapper i st)"
  by (subst run_test.simps) (simp add: deps_of_def)

definition base_answer :: "(bytes \<Rightarrow> int option) \<Rightarrow> test \<Rightarrow> bool" where
  "base_answer prog t = (if has_style ''EXECUTE'' t then prog (the (test_program t)) = Some 0 else prog (the (test_program t)) \<noteq> None)"

definition accepts :: "(bytes \<Rightarrow> int option) \<Rightarrow> test \<Rightarrow> bool" where
  "accepts prog t \<longleftrightarrow> (has_style ''EXECUTE'' t \<longrightarrow> prog (the (test_program t)) \<noteq> None) \<and>
     (has_style ''INSIDE_MAIN'' t \<and> \<not> has_style ''EXECUTE'' t \<longrightarrow> prog (the (test_program t)) \<in> {None, Some 0})"

lemma run_base_test:
  assumes "toolchain S cmd prog" "t \<in> set base_tests" "accepts prog t" "cf_tests st ! i = t" "deps_of t = []"
  shows "\<exists>w. run_test S quiet cmd [] i st = Some (Inr (base_answer prog t, set_answer i (base_answer prog t) (st\<lparr>cf_world := w\<rparr>)))"
proof -
  obtain source where s: "test_program t = Some source" using base_test_program [OF assms(2)] by blast
  have "\<not> t_done (cf_tests st ! i)" using base_test_fields [OF assms(2)] assms(4) by simp
  from run_test_unfold [OF this, of S quiet cmd "[]"]
  have r: "run_test S quiet cmd [] i st = perform_test S quiet cmd [] i st" using assms(4,5) by simp
  have "\<exists>w. perform_test S quiet cmd [] i st = Some (Inr (base_answer prog t, set_answer i (base_answer prog t) (st\<lparr>cf_world := w\<rparr>)))"
    unfolding base_answer_def s option.sel using base_test_fields [OF assms(2)] assms(3) s
    by (intro perform_toolchain [OF assms(1) s assms(4)]) (simp_all add: accepts_def)
  then show ?thesis unfolding r .
qed

lemma set_answer_eq: "set_answer i b st = st\<lparr>cf_tests := (cf_tests st)[i := answered (cf_tests st ! i) b]\<rparr>"
  by (simp add: set_answer_def answered_def)

lemma run_bswap_test:
  fixes w :: 'x
  assumes "toolchain S cmd prog" "accepts prog bswap_64_test" "map static ts = map static base_tests"
    and "ts ! 3 = answered byteswap_test b" "ts ! 4 = bswap_64_test"
  shows "\<exists>a w'. run_test S quiet cmd [] 4 \<lparr>cf_tests = ts, cf_out = [], cf_world = w\<rparr> =
    Some (Inr (a, \<lparr>cf_tests = ts[4 := answered bswap_64_test (b \<and> base_answer prog bswap_64_test)], cf_out = [], cf_world = w'\<rparr>))"
proof -
  let ?st = "\<lparr>cf_tests = ts, cf_out = [], cf_world = w\<rparr>" and ?a = "base_answer prog bswap_64_test"
  have t: "bswap_64_test \<in> set base_tests" by (simp add: base_tests_def)
  have "run_test S quiet cmd [] 3 ?st = Some (Inr (b, ?st))"
    using assms(4) by (subst run_test.simps) simp
  then have "check_deps (\<lambda>name st. case find_test (cf_tests st) name of None \<Rightarrow> exits EXIT_BAD_TEST st
      | Some j \<Rightarrow> run_test S quiet cmd [] j st) (deps_of (cf_tests ?st ! 4)) ?st = Some (Inr (b, ?st))"
    using find_base_test [OF assms(3)] assms(5) by (simp add: base_test_deps del: ascii_simps)
  moreover have "\<not> t_done (cf_tests ?st ! 4)" using assms(5) base_test_fields [OF t] by simp
  ultimately have r: "run_test S quiet cmd [] 4 ?st =
      (if \<not> b then Some (Inr (False, set_answer 4 False ?st)) else perform_test S quiet cmd [] 4 ?st)"
    by (subst run_test_unfold) simp_all
  obtain source where s: "test_program bswap_64_test = Some source" using base_test_program [OF t] by blast
  have "\<exists>w. perform_test S quiet cmd [] 4 ?st = Some (Inr (?a, set_answer 4 ?a (?st\<lparr>cf_world := w\<rparr>)))"
    unfolding base_answer_def s option.sel using base_test_fields [OF t] assms(2,5) s
    by (intro perform_toolchain [OF assms(1) s]) (simp_all add: accepts_def)
  then show ?thesis using r assms(5) by (cases b) (auto simp: set_answer_eq)
qed

lemma run_base_tests:
  fixes w :: 'x
  assumes "toolchain S cmd prog" "\<forall>t \<in> set base_tests. accepts prog t"
  defines "a \<equiv> base_answer prog"
  shows "\<exists>w'. run_tests S quiet cmd [] [0..<6] \<lparr>cf_tests = base_tests, cf_out = [], cf_world = w\<rparr> =
    Some (Inr \<lparr>cf_tests = [answered unaligned_test (a unaligned_test), answered typeof_test (a typeof_test),
        answered big_endian_test (a big_endian_test), answered byteswap_test (a byteswap_test),
        answered bswap_64_test (a byteswap_test \<and> a bswap_64_test), answered little_endian_test (a little_endian_test)],
      cf_out = [], cf_world = w'\<rparr>)"
proof -
  let ?run = "run_test S quiet cmd []"
  have step: "\<exists>x w'. ?run i \<lparr>cf_tests = ts, cf_out = [], cf_world = w\<rparr> = Some (Inr (x, \<lparr>cf_tests = ts[i := answered t (a t)], cf_out = [], cf_world = w'\<rparr>))"
    if "t \<in> set base_tests" "ts ! i = t" "deps_of t = []" for i ts t and w :: 'x
    using run_base_test [OF assms(1) that(1), of "\<lparr>cf_tests = ts, cf_out = [], cf_world = w\<rparr>" i] assms(2) that
    by (auto simp: set_answer_eq a_def)
  have base: "unaligned_test \<in> set base_tests" "typeof_test \<in> set base_tests" "big_endian_test \<in> set base_tests"
      "byteswap_test \<in> set base_tests" "bswap_64_test \<in> set base_tests" "little_endian_test \<in> set base_tests"
    by (simp_all add: base_tests_def)
  let ?t = "[unaligned_test, typeof_test, big_endian_test, byteswap_test, bswap_64_test, little_endian_test]"
  let ?tu = "?t[0 := answered unaligned_test (a unaligned_test)]" let ?tv = "?tu[1 := answered typeof_test (a typeof_test)]"
  let ?tw = "?tv[2 := answered big_endian_test (a big_endian_test)]"
  let ?tx = "?tw[3 := answered byteswap_test (a byteswap_test)]"
  let ?ty = "?tx[4 := answered bswap_64_test (a byteswap_test \<and> a bswap_64_test)]"
  let ?tz = "?ty[5 := answered little_endian_test (a little_endian_test)]"
  obtain x0 w0 where 0: "?run 0 \<lparr>cf_tests = ?t, cf_out = [], cf_world = w\<rparr> = Some (Inr (x0, \<lparr>cf_tests = ?tu, cf_out = [], cf_world = w0\<rparr>))"
    using step [OF base(1), of ?t 0 w] by (auto simp: base_test_deps)
  obtain x1 w1 where 1: "?run 1 \<lparr>cf_tests = ?tu, cf_out = [], cf_world = w0\<rparr> = Some (Inr (x1, \<lparr>cf_tests = ?tv, cf_out = [], cf_world = w1\<rparr>))"
    using step [OF base(2), of ?tu 1 w0] by (auto simp: base_test_deps)
  obtain x2 w2 where 2: "?run 2 \<lparr>cf_tests = ?tv, cf_out = [], cf_world = w1\<rparr> = Some (Inr (x2, \<lparr>cf_tests = ?tw, cf_out = [], cf_world = w2\<rparr>))"
    using step [OF base(3), of ?tv 2 w1] by (auto simp: base_test_deps)
  obtain x3 w3 where 3: "?run 3 \<lparr>cf_tests = ?tw, cf_out = [], cf_world = w2\<rparr> = Some (Inr (x3, \<lparr>cf_tests = ?tx, cf_out = [], cf_world = w3\<rparr>))"
    using step [OF base(4), of ?tw 3 w2] by (auto simp: base_test_deps)
  obtain x4 w4 where 4: "?run 4 \<lparr>cf_tests = ?tx, cf_out = [], cf_world = w3\<rparr> = Some (Inr (x4, \<lparr>cf_tests = ?ty, cf_out = [], cf_world = w4\<rparr>))"
    using run_bswap_test [OF assms(1) _ _, of ?tx "a byteswap_test" w3] assms(2) base(5) by (auto simp: base_tests_def a_def)
  obtain x5 w5 where 5: "?run 5 \<lparr>cf_tests = ?ty, cf_out = [], cf_world = w4\<rparr> = Some (Inr (x5, \<lparr>cf_tests = ?tz, cf_out = [], cf_world = w5\<rparr>))"
    using step [OF base(6), of ?ty 5 w4] by (auto simp: base_test_deps)
  have "[0..<6] = [0, 1, 2, 3, 4, 5 :: nat]" by (simp add: upt_rec numeral_eq_Suc)
  then show ?thesis using 0 1 2 3 4 5 by (simp add: base_tests_def)
qed

section \<open>Properties\<close>

definition default_cmd :: bytes where
  "default_cmd = connect_args [DEFAULT_COMPILER, DEFAULT_FLAGS] DEFAULT_OUTPUT_EXE_FLAG (OUTPUT_FILE @ 32 # INPUT_FILE)"

definition macro :: "string \<Rightarrow> bool \<Rightarrow> bytes" where
  "macro name b = ascii ''#define '' @ ascii name @ ascii (if b then '' 1'' else '' 0'') @ [10]"

lemma test_macro_eq: "t_name t = ascii name \<Longrightarrow> test_macro (answered t b) = macro name b"
  by (simp add: test_macro_def macro_def answered_def dec_nat.simps)

text \<open>C36: The header the build makes, with the program called without arguments: when the toolchain compiles the
  test programs that have to run, and the two programs that ask for the byte order exit as the
  language prescribes on a host of byte order \<open>bo\<close>, then \<open>config.h\<close> has exactly one of
  \<open>HAVE_BIG_ENDIAN\<close> and \<open>HAVE_LITTLE_ENDIAN\<close> set, the one of the host; the other macros say what
  compiled, and \<open>HAVE_BSWAP_64\<close> is only set with \<open>HAVE_BYTESWAP_H\<close>.\<close>

theorem config_h_generated:
  assumes "toolchain S default_cmd prog" "\<forall>t \<in> set base_tests. accepts prog t"
    and "prog (the (test_program big_endian_test)) = Some (if bo = Big_Endian then 0 else 1)"
    and "prog (the (test_program little_endian_test)) = Some (if bo = Little_Endian then 0 else 1)"
  shows "configurator_main S [] stdin w = Some (0,
      out_line ''/* Generated by CCAN configurator */'' @
      out_line ''#ifndef CCAN_CONFIG_H'' @ out_line ''#define CCAN_CONFIG_H'' @
      out_line ''#ifndef _GNU_SOURCE'' @ out_line ''#define _GNU_SOURCE /* Always use GNU extensions. */'' @ out_line ''#endif'' @
      out_line ''#define CCAN_COMPILER \"cc\"'' @
      ascii ''#define CCAN_CFLAGS \"'' @ DEFAULT_FLAGS @ ascii ''\"'' @ [10] @
      out_line ''#define CCAN_OUTPUT_EXE_CFLAG \"-o\"'' @ [10] @
      out_line ''#define HAVE_CCAN 1'' @
      macro ''HAVE_UNALIGNED_ACCESS'' (prog (the (test_program unaligned_test)) = Some 0) @
      macro ''HAVE_TYPEOF'' (prog (the (test_program typeof_test)) \<noteq> None) @
      macro ''HAVE_BIG_ENDIAN'' (bo = Big_Endian) @
      macro ''HAVE_BYTESWAP_H'' (prog (the (test_program byteswap_test)) \<noteq> None) @
      macro ''HAVE_BSWAP_64'' (prog (the (test_program byteswap_test)) \<noteq> None \<and> prog (the (test_program bswap_64_test)) \<noteq> None) @
      macro ''HAVE_LITTLE_ENDIAN'' (bo = Little_Endian) @
      out_line ''#endif /* CCAN_CONFIG_H */'', [])"
proof -
  let ?a = "base_answer prog"
  have answers: "?a unaligned_test = (prog (the (test_program unaligned_test)) = Some 0)"
      "?a typeof_test = (prog (the (test_program typeof_test)) \<noteq> None)" "?a big_endian_test = (bo = Big_Endian)"
      "?a byteswap_test = (prog (the (test_program byteswap_test)) \<noteq> None)"
      "?a bswap_64_test = (prog (the (test_program bswap_64_test)) \<noteq> None)" "?a little_endian_test = (bo = Little_Endian)"
    using assms(3,4) by (simp_all add: base_answer_def style_simps)
  have names: "t_name unaligned_test = ascii ''HAVE_UNALIGNED_ACCESS''" "t_name typeof_test = ascii ''HAVE_TYPEOF''"
      "t_name big_endian_test = ascii ''HAVE_BIG_ENDIAN''" "t_name byteswap_test = ascii ''HAVE_BYTESWAP_H''"
      "t_name bswap_64_test = ascii ''HAVE_BSWAP_64''" "t_name little_endian_test = ascii ''HAVE_LITTLE_ENDIAN''"
    by (simp_all add: base_test_defs)
  have six: "length base_tests = 6" by (simp add: base_tests_def)
  obtain w' where run: "run_tests S quiet default_cmd [] [0..<length base_tests] \<lparr>cf_tests = base_tests, cf_out = [], cf_world = w\<rparr> =
    Some (Inr \<lparr>cf_tests = [answered unaligned_test (?a unaligned_test), answered typeof_test (?a typeof_test),
        answered big_endian_test (?a big_endian_test), answered byteswap_test (?a byteswap_test),
        answered bswap_64_test (?a byteswap_test \<and> ?a bswap_64_test), answered little_endian_test (?a little_endian_test)],
      cf_out = [], cf_world = w'\<rparr>)"
    using run_base_tests [OF assms(1,2), of w] unfolding six by blast
  have "configurator_main S [] stdin w = Some (0, config_header DEFAULT_COMPILER DEFAULT_FLAGS DEFAULT_OUTPUT_EXE_FLAG
      [answered unaligned_test (?a unaligned_test), answered typeof_test (?a typeof_test),
        answered big_endian_test (?a big_endian_test), answered byteswap_test (?a byteswap_test),
        answered bswap_64_test (?a byteswap_test \<and> ?a bswap_64_test), answered little_endian_test (?a little_endian_test)], [])"
    using run by (simp add: configurator_main_def default_options_def quiet_def default_cmd_def print_file_def
      start_test_def end_test_def put_def del: ascii_simps)
  then show ?thesis
    by (simp add: config_header_def names [THEN test_macro_eq] answers out_line_def DEFAULT_COMPILER_def DEFAULT_OUTPUT_EXE_FLAG_def)
qed

definition example_prog :: "bytes \<Rightarrow> int option" where
  "example_prog source = Some (if source = the (test_program big_endian_test) then 1 else 0)"

definition example_shell :: "unit shell" where
  "example_shell = \<lparr>sh_fopen = (\<lambda>_. True), sh_fclose = (\<lambda>_. True),
     sh_popen = (\<lambda>cmd source w. (Some ([], if hd cmd = 32 then 256 * the (example_prog source) else 0), w))\<rparr>"

theorem config_h_generated_witness:
  "configurator_main example_shell [] [] () = Some (0,
      out_line ''/* Generated by CCAN configurator */'' @
      out_line ''#ifndef CCAN_CONFIG_H'' @ out_line ''#define CCAN_CONFIG_H'' @
      out_line ''#ifndef _GNU_SOURCE'' @ out_line ''#define _GNU_SOURCE /* Always use GNU extensions. */'' @ out_line ''#endif'' @
      out_line ''#define CCAN_COMPILER \"cc\"'' @
      ascii ''#define CCAN_CFLAGS \"'' @ DEFAULT_FLAGS @ ascii ''\"'' @ [10] @
      out_line ''#define CCAN_OUTPUT_EXE_CFLAG \"-o\"'' @ [10] @
      out_line ''#define HAVE_CCAN 1'' @
      macro ''HAVE_UNALIGNED_ACCESS'' (example_prog (the (test_program unaligned_test)) = Some 0) @
      macro ''HAVE_TYPEOF'' (example_prog (the (test_program typeof_test)) \<noteq> None) @
      macro ''HAVE_BIG_ENDIAN'' (Little_Endian = Big_Endian) @
      macro ''HAVE_BYTESWAP_H'' (example_prog (the (test_program byteswap_test)) \<noteq> None) @
      macro ''HAVE_BSWAP_64'' (example_prog (the (test_program byteswap_test)) \<noteq> None \<and>
        example_prog (the (test_program bswap_64_test)) \<noteq> None) @
      macro ''HAVE_LITTLE_ENDIAN'' (Little_Endian = Little_Endian) @
      out_line ''#endif /* CCAN_CONFIG_H */'', [])"
proof (rule config_h_generated)
  have differ: "the (test_program typeof_test) \<noteq> the (test_program big_endian_test)"
      "the (test_program little_endian_test) \<noteq> the (test_program big_endian_test)"
    by (simp_all add: test_program_def style_simps) (simp_all add: base_test_defs out_line_def)
  show "toolchain example_shell default_cmd example_prog"
    by (simp add: toolchain_def example_shell_def example_prog_def default_cmd_def DEFAULT_COMPILER_def c_str_def)
  show "\<forall>t \<in> set base_tests. accepts example_prog t"
    by (simp add: base_tests_def accepts_def style_simps) (simp add: example_prog_def differ)
  show "example_prog (the (test_program big_endian_test)) = Some (if Little_Endian = Big_Endian then 0 else 1)"
    "example_prog (the (test_program little_endian_test)) = Some (if Little_Endian = Little_Endian then 0 else 1)"
    by (simp_all add: example_prog_def differ)
qed

text \<open>C37: The tests are run in any order of their dependencies, and this ends: when the dependencies have
  no cycle, and only the last of a test is negated, running all tests returns for every shell,
  unless it exits with an error; then every test has been done, nothing but the answers has
  changed, and without overrides a test is only true when its dependencies are as it wants them.\<close>

theorem run_tests_settle:
  assumes "ordered rank tests"
  shows "\<exists>r. run_tests S sw cmd wrapper [0..<length tests] \<lparr>cf_tests = tests, cf_out = out, cf_world = w\<rparr> = Some r \<and>
    (\<forall>st. r = Inr st \<longrightarrow> map static (cf_tests st) = map static tests \<and> (\<forall>t \<in> set (cf_tests st). t_done t) \<and>
      (no_overrides tests \<and> (\<forall>t \<in> set tests. \<not> t_done t) \<longrightarrow> dependencies_hold (cf_tests st)))"
proof -
  let ?st = "\<lparr>cf_tests = tests, cf_out = out, cf_world = w\<rparr>"
  have "map static (cf_tests ?st) = map static tests" "set [0..<length tests] \<subseteq> {..<length tests}" by auto
  from run_tests_return [OF assms this, of S sw cmd wrapper] obtain r where
    r: "run_tests S sw cmd wrapper [0..<length tests] ?st = Some r"
      "\<And>st. r = Inr st \<Longrightarrow> map static (cf_tests st) = map static tests \<and> (\<forall>j < length tests. t_done (cf_tests st ! j)) \<and>
        (no_overrides tests \<and> dependencies_hold tests \<longrightarrow> dependencies_hold (cf_tests st))"
    by (auto simp: returns_def)
  have "length (cf_tests st) = length tests" if "map static (cf_tests st) = map static tests" for st :: "'a conf"
    using arg_cong [OF that, of length] by simp
  then have "\<forall>t \<in> set (cf_tests st). t_done t" if "r = Inr st" for st using r(2) [OF that] by (auto simp: in_set_conv_nth)
  moreover have "dependencies_hold tests" if "\<forall>t \<in> set tests. \<not> t_done t" using that by (auto simp: dependencies_hold_def)
  ultimately show ?thesis using r by blast
qed

theorem run_tests_settle_witness:
  "\<exists>r. run_tests example_shell quiet [99] [] [0..<length base_tests] \<lparr>cf_tests = base_tests, cf_out = [], cf_world = ()\<rparr> = Some r \<and>
    (\<forall>st. r = Inr st \<longrightarrow> map static (cf_tests st) = map static base_tests \<and> (\<forall>t \<in> set (cf_tests st). t_done t) \<and>
      (no_overrides base_tests \<and> (\<forall>t \<in> set base_tests. \<not> t_done t) \<longrightarrow> dependencies_hold (cf_tests st)))"
proof (rule run_tests_settle [where rank = "\<lambda>i. i"])
  have "find_test base_tests (ascii ''HAVE_BYTESWAP_H'') = Some 3" by (rule find_base_test) simp
  then show "ordered (\<lambda>i. i) base_tests"
    by (auto simp: ordered_def base_tests_def base_test_deps less_Suc_eq numeral_eq_Suc simp del: ascii_simps)
qed

text \<open>C38: Descriptions of tests are read as written: any sequence of tests whose fields are single lines of at
  most 980 bytes, and whose programs are lines below 999 bytes, none of them beginning with the end
  mark, is read back from the standard input, after the tests that were there.\<close>

theorem read_tests_round_trip:
  assumes "\<forall>d \<in> set ds. describes d"
  shows "read_tests tests (concat (map print_test ds)) = Inr (tests @ map fst ds, [])"
  using assms
proof (induction ds arbitrary: tests)
  case Nil
  have "any_field [] = Inr (None, [])" by (subst any_field.simps) (simp add: fgets_def)
  then show ?case by (subst read_tests.simps) (simp add: read_test_def read_field_def)
next
  case (Cons d ds)
  obtain t ls where d: "d = (t, ls)" by force
  then show ?case using Cons read_test_print [of t ls "concat (map print_test ds)"]
    by (subst read_tests.simps) simp
qed

theorem read_tests_round_trip_witness:
  "read_tests base_tests (concat (map print_test [((new_test (ascii ''HAVE_X'') (ascii ''x=1'') (ascii ''INSIDE_MAIN'')
      (Some (ascii ''HAVE_TYPEOF !HAVE_BIG_ENDIAN'')) (ascii ''return 0;'' @ [10]))\<lparr>t_overrides := Some (ascii ''HAVE_TYPEOF'')\<rparr>,
      [ascii ''return 0;''])])) =
    Inr (base_tests @ map fst [((new_test (ascii ''HAVE_X'') (ascii ''x=1'') (ascii ''INSIDE_MAIN'')
      (Some (ascii ''HAVE_TYPEOF !HAVE_BIG_ENDIAN'')) (ascii ''return 0;'' @ [10]))\<lparr>t_overrides := Some (ascii ''HAVE_TYPEOF'')\<rparr>,
      [ascii ''return 0;''])], [])"
  by (rule read_tests_round_trip) (simp add: describes_def new_test_def field_ok_def text_ok_def)

end
