(* ===== verification/Checksum.thy ===== *)
theory Checksum
  imports Prelude
begin

text \<open>
  The algebra behind the checksum of \<open>bech32.c\<close>: a register of 30 bits that is shifted by five bits
  and fed back for every value of five bits. The locale \<open>feedback_register\<close> states what the step
  has to satisfy; from it follow the checksum of six values and the detection of errors within
  six values in a row. It is interpreted in \<open>Bech32\<close>.
\<close>

section \<open>Values of five bits in a word\<close>

lemma xor_eq_0 [simp]: "(x :: u32) XOR y = 0 \<longleftrightarrow> x = y"
proof
  assume "x XOR y = 0"
  then have "bit x n = bit y n" for n by (metis bit_0_eq bit_xor_iff bot_apply bot_bool_def)
  then show "x = y" by (simp add: bit_eq_iff)
qed simp

lemma take_bit_self_unat: "take_bit n (v :: 'a :: len word) = v \<longleftrightarrow> unat v < 2 ^ n"
  by (simp add: word_unat_eq_iff unsigned_take_bit_eq take_bit_nat_eq_self_iff)

lemma map2_xor_0: "map2 (XOR) (replicate (length xs) 0) (xs :: u32 list) = xs"
  by (induction xs) simp_all

definition pack :: "u32 list \<Rightarrow> u32" where
  "pack = foldl (\<lambda>chk v. push_bit 5 chk XOR v) 0"

lemma pack_snoc [simp]: "pack [] = 0" "pack (vs @ [v]) = push_bit 5 (pack vs) XOR v"
  by (simp_all add: pack_def)

lemma pack_bound:
  "\<forall>v \<in> set vs. take_bit 5 v = v \<Longrightarrow> take_bit (5 * length vs) (pack vs) = pack vs"
proof (induction vs rule: rev_induct)
  case (snoc v vs)
  have "take_bit (5 + 5 * length vs) (push_bit 5 (pack vs)) = push_bit 5 (take_bit (5 * length vs) (pack vs))"
    by (simp only: push_bit_take_bit)
  also have "\<dots> = push_bit 5 (pack vs)" using snoc by simp
  finally have p: "take_bit (5 + 5 * length vs) (push_bit 5 (pack vs)) = push_bit 5 (pack vs)" .
  have v: "take_bit 5 v = v" using snoc.prems by simp
  have "take_bit (5 + 5 * length vs) (take_bit 5 v) = take_bit 5 v" by simp
  then have "take_bit (5 + 5 * length vs) v = v" unfolding v .
  moreover have "5 * length (vs @ [v]) = 5 + 5 * length vs" by simp
  ultimately show ?case using p by (simp only: pack_snoc take_bit_xor)
qed simp

lemma pack_eq_0:
  assumes "pack vs = 0" "\<forall>v \<in> set vs. take_bit 5 v = v" "length vs \<le> 6"
  shows "\<forall>v \<in> set vs. v = 0"
  using assms
proof (induction vs rule: rev_induct)
  case (snoc v vs)
  have eq: "push_bit 5 (pack vs) = v" using snoc.prems(1) by simp
  have "take_bit 5 (push_bit 5 (pack vs)) = 0" by (simp add: take_bit_push_bit)
  then have v: "v = 0" using snoc.prems(2) eq by simp
  have b: "take_bit (5 * length vs) (pack vs) = pack vs" using snoc.prems by (intro pack_bound) simp
  have "pack vs = 0"
  proof (rule bit_word_eqI)
    fix n assume "n < LENGTH(32)"
    show "bit (pack vs) n = bit 0 n"
    proof (cases "n < 5 * length vs")
      case True
      then have "bit (push_bit 5 (pack vs)) (n + 5) = bit (pack vs) n" using snoc.prems(3) by (simp add: bit_simps)
      then show ?thesis using eq v by simp
    next
      case False
      then show ?thesis by (subst b [symmetric]) (simp add: bit_take_bit_iff)
    qed
  qed
  then show ?case using snoc v by simp
qed simp

text \<open>Six values read off a word, most significant first.\<close>

definition digits :: "u32 \<Rightarrow> u32 list" where
  "digits chk = map (\<lambda>i. drop_bit ((5 - i) * 5) chk AND 0x1f) [0..<6]"

lemma low_five: "(x :: u32) AND 0x1f = take_bit 5 x"
  by (simp add: take_bit_eq_mask mask_eq_exp_minus_1)

lemma pack_digit:
  "i = j + 5 \<Longrightarrow> push_bit 5 (take_bit k (drop_bit i w)) XOR take_bit 5 (drop_bit j w) = take_bit (5 + k) (drop_bit j (w :: u32))"
  by (rule bit_word_eqI) (auto simp: bit_simps)

lemma pack_digits: "pack (digits w) = take_bit 30 w"
proof -
  have "pack (digits w) = push_bit 5 (push_bit 5 (push_bit 5 (push_bit 5 (push_bit 5 (take_bit 5 (drop_bit 25 w)) XOR
      take_bit 5 (drop_bit 20 w)) XOR take_bit 5 (drop_bit 15 w)) XOR take_bit 5 (drop_bit 10 w)) XOR
      take_bit 5 (drop_bit 5 w)) XOR take_bit 5 (drop_bit 0 w)"
    by (simp add: pack_def digits_def low_five upt_rec)
  also have "\<dots> = take_bit (5 + (5 + (5 + (5 + (5 + 5))))) (drop_bit 0 w)"
    using pack_digit [of 25 20] pack_digit [of 20 15] pack_digit [of 15 10] pack_digit [of 10 5] pack_digit [of 5 0]
    by (simp only: numeral_plus_numeral add_num_simps simp_thms add_0)
  finally show ?thesis by simp
qed

lemma digits_props: "length (digits w) = 6" "\<forall>v \<in> set (digits w). take_bit 5 v = v"
  by (simp_all add: digits_def low_five)

section \<open>The register\<close>

definition residue :: "(u32 \<Rightarrow> u32) \<Rightarrow> u32 \<Rightarrow> u32 list \<Rightarrow> u32" where
  "residue step = foldl (\<lambda>chk v. step chk XOR v)"

lemma residue_simps [simp]:
  "residue step c [] = c" "residue step c (v # vs) = residue step (step c XOR v) vs"
  "residue step c (xs @ ys) = residue step (residue step c xs) ys" "residue step c (replicate n 0) = (step ^^ n) c"
  by (simp_all add: residue_def) (induction n arbitrary: c; simp add: funpow_swap1)

lemma foldl_residue: "foldl (\<lambda>chk c. step chk XOR f c) chk cs = residue step chk (map f cs)"
  by (induction cs arbitrary: chk) simp_all

locale feedback_register =
  fixes step :: "u32 \<Rightarrow> u32"
  assumes step_xor: "step (x XOR y) = step x XOR step y"
    and step_bound: "take_bit 30 (step x) = step x"
    and step_small: "take_bit 25 x = x \<Longrightarrow> step x = push_bit 5 x"
    and step_eq_0: "step x = 0 \<Longrightarrow> take_bit 30 x = x \<Longrightarrow> x = 0"
begin

lemma steps_eq_0: "(step ^^ n) x = 0 \<Longrightarrow> take_bit 30 x = x \<Longrightarrow> x = 0"
proof (induction n arbitrary: x)
  case (Suc n)
  then have "step x = 0" by (metis comp_apply funpow_Suc_right step_bound)
  then show ?case using Suc.prems(2) by (rule step_eq_0)
qed simp

lemma steps_bound: "0 < n \<Longrightarrow> take_bit 30 ((step ^^ n) c) = (step ^^ n) c"
  by (cases n) (simp_all add: step_bound)

lemma residue_xor:
  "length xs = length ys \<Longrightarrow> residue step (a XOR b) (map2 (XOR) xs ys) = residue step a xs XOR residue step b ys"
proof (induction xs ys arbitrary: a b rule: list_induct2)
  case (Cons x xs y ys)
  have "step (a XOR b) XOR (x XOR y) = (step a XOR x) XOR (step b XOR y)"
    by (simp add: step_xor ac_simps)
  then show ?case using Cons by simp
qed simp

text \<open>Up to six values do not reach the feedback.\<close>

lemma residue_0_pack:
  assumes "\<forall>v \<in> set vs. take_bit 5 v = v" "length vs \<le> 6"
  shows "residue step 0 vs = pack vs"
  using assms
proof (induction vs rule: rev_induct)
  case (snoc v vs)
  have "take_bit (5 * length vs) (pack vs) = pack vs" using snoc.prems by (intro pack_bound) simp
  moreover have "5 * length vs \<le> 25" using snoc.prems by simp
  ultimately have "take_bit 25 (pack vs) = pack vs" by (metis min.absorb2 take_bit_take_bit)
  then show ?case using snoc by (simp add: step_small)
qed simp

lemma residue_short:
  assumes "\<forall>v \<in> set vs. take_bit 5 v = v" "length vs \<le> 6"
  shows "residue step c vs = (step ^^ length vs) c XOR pack vs"
  using residue_xor [of "replicate (length vs) 0" vs c 0] residue_0_pack [OF assms] by (simp add: map2_xor_0)

text \<open>The six values that bring the register to \<open>k\<close>.\<close>

lemma residue_digits:
  assumes "take_bit 30 k = k"
  shows "residue step c (digits ((step ^^ 6) c XOR k)) = k"
  using assms digits_props [of "(step ^^ 6) c XOR k"]
  by (simp add: residue_short pack_digits take_bit_xor steps_bound flip: xor.assoc)

text \<open>Two lists of values that agree outside six places in a row leave different registers, or are the same.\<close>

lemma residue_burst:
  assumes "residue step c (us @ xs @ ws) = residue step c (us @ ys @ ws)" "length xs = length ys" "length xs \<le> 6"
    and "\<forall>v \<in> set xs \<union> set ys. unat v < 32"
  shows "xs = ys"
proof -
  let ?es = "map2 (XOR) xs ys" and ?p = "residue step c us"
  have zero: "map2 (XOR) ws ws = replicate (length ws) (0 :: u32)" by (induction ws) simp_all
  have es: "\<forall>v \<in> set ?es. take_bit 5 v = v"
    using assms(4) by (auto simp: set_zip take_bit_xor simp flip: take_bit_self_unat [where n = 5, simplified])
  have "residue step (?p XOR ?p) (map2 (XOR) (xs @ ws) (ys @ ws)) = 0"
    using assms(1,2) by (subst residue_xor) simp_all
  then have "(step ^^ length ws) (residue step 0 ?es) = 0" using assms(2) zero by simp
  moreover have "residue step 0 ?es = pack ?es" using residue_0_pack [OF es] assms(2,3) by simp
  moreover have "take_bit 30 (pack ?es) = pack ?es"
  proof -
    have "unat (pack ?es) < 2 ^ (5 * length ?es)" using pack_bound [OF es] by (simp only: take_bit_self_unat)
    also have "\<dots> \<le> 2 ^ 30" using assms(2,3) by (intro power_increasing) simp_all
    finally show ?thesis by (simp only: take_bit_self_unat)
  qed
  ultimately have "pack ?es = 0" by (metis steps_eq_0)
  then have z: "\<forall>e \<in> set ?es. e = 0" using pack_eq_0 [OF _ es] assms(2,3) by simp
  from assms(2) z show ?thesis by (induction xs ys rule: list_induct2) auto
qed

end

end
