(* ===== verification/Bech32.thy ===== *)
theory Bech32
  imports Checksum
begin

text \<open>
  \<open>bech32.c\<close>: the Bech32 and Bech32m strings of BIP 173 and BIP 350. C strings are the bytes before
  their NUL; a buffer is the list of the bytes written to it. The checksum is shown to be linear
  over bits and its step injective, which is what \<open>Checksum\<close> asks of it.
\<close>

section \<open>The checksum\<close>

text \<open>\<open>- ((b >> i) & 1)\<close> is all ones or zero, here at the width of the result.\<close>

definition bech32_polymod_step :: "u32 \<Rightarrow> u32" where
  "bech32_polymod_step pre =
     (let b = ucast (drop_bit 25 pre) :: u8;
          mask = (\<lambda>i. - (ucast (drop_bit i b AND 1) :: u32))
      in push_bit 5 (pre AND 0x1FFFFFF) XOR
         (mask 0 AND 0x3b6a57b2) XOR
         (mask 1 AND 0x26508e6d) XOR
         (mask 2 AND 0x1ea119fa) XOR
         (mask 3 AND 0x3d4233dd) XOR
         (mask 4 AND 0x2a1462b3))"

datatype bech32_encoding = BECH32_ENCODING_NONE | BECH32_ENCODING_BECH32 | BECH32_ENCODING_BECH32M

definition bech32_final_constant :: "bech32_encoding \<Rightarrow> u32 option" where
  "bech32_final_constant enc =
     (if enc = BECH32_ENCODING_BECH32 then Some 1
      else if enc = BECH32_ENCODING_BECH32M then Some 0x2bc830a3
      else None)"

definition bech32_charset :: bytes where
  "bech32_charset = ascii ''qpzry9x8gf2tvdw0s3jn54khce6mua7l''"

definition bech32_charset_rev :: "int list" where
  "bech32_charset_rev = replicate 48 (- 1) @
    [15, -1, 10, 17, 21, 20, 26, 30,  7,  5, -1, -1, -1, -1, -1, -1,
     -1, 29, -1, 24, 13, 25,  9,  8, 23, -1, 18, 22, 31, 27, 19, -1,
      1,  0,  3, 16, 11, 28, 12, 14,  6,  4,  2, -1, -1, -1, -1, -1,
     -1, 29, -1, 24, 13, 25,  9,  8, 23, -1, 18, 22, 31, 27, 19, -1,
      1,  0,  3, 16, 11, 28, 12, 14,  6,  4,  2, -1, -1, -1, -1, -1]"

section \<open>Encoding\<close>

text \<open>The first loop: \<open>None\<close> is its \<open>return 0\<close>.\<close>

fun encode_check_hrp :: "u32 \<Rightarrow> bytes \<Rightarrow> u32 option" where
  "encode_check_hrp chk [] = Some chk"
| "encode_check_hrp chk (ch # hrp) =
     (if ch < 33 \<or> ch > 126 then None
      else if ch \<ge> 65 \<and> ch \<le> 90 then None
      else encode_check_hrp (bech32_polymod_step chk XOR ucast (drop_bit 5 ch)) hrp)"

text \<open>The loop over the data: whether it ended, the checksum, the characters written.\<close>

fun encode_data :: "u32 \<Rightarrow> bytes \<Rightarrow> bool \<times> u32 \<times> bytes" where
  "encode_data chk [] = (True, chk, [])"
| "encode_data chk (v # data) =
     (if drop_bit 5 v \<noteq> 0 then (False, chk, [])
      else (case encode_data (bech32_polymod_step chk XOR ucast v) data of
              (ok, chk, out) \<Rightarrow> (ok, chk, bech32_charset ! unat v # out)))"

text \<open>
  The result is the returned value and the bytes written to \<open>output\<close>; the failing assertion of
  \<open>bech32_final_constant\<close> is a crash. Sums of sizes do not wrap around.
\<close>

definition bech32_encode :: "bytes \<Rightarrow> bytes \<Rightarrow> nat \<Rightarrow> bech32_encoding \<Rightarrow> (bool \<times> bytes) option" where
  "bech32_encode hrp data max_input_len enc =
     (case encode_check_hrp 1 hrp of
        None \<Rightarrow> Some (False, [])
      | Some chk \<Rightarrow>
          (if length hrp + 7 + length data > max_input_len then Some (False, [])
           else
             let chk = bech32_polymod_step chk;
                 chk = foldl (\<lambda>chk c. bech32_polymod_step chk XOR (ucast c AND 0x1f)) chk hrp;
                 out = hrp @ [49]
             in (case encode_data chk data of
                   (False, _, cs) \<Rightarrow> Some (False, out @ cs)
                 | (True, chk, cs) \<Rightarrow> do {
                     let out = out @ cs;
                     let chk = (bech32_polymod_step ^^ 6) chk;
                     const \<leftarrow> bech32_final_constant enc;
                     let chk = chk XOR const;
                     let out = out @ map (\<lambda>i. bech32_charset ! unat (drop_bit ((5 - i) * 5) chk AND 0x1f)) [0..<6];
                     Some (True, out @ [0]) })))"

section \<open>Decoding\<close>

text \<open>
  The loop over the human readable part: whether it ended, what it wrote, the cases seen, and the
  checksum.
\<close>

fun decode_hrp :: "u32 \<Rightarrow> bool \<Rightarrow> bool \<Rightarrow> bytes \<Rightarrow> bool \<times> bytes \<times> bool \<times> bool \<times> u32" where
  "decode_hrp chk have_lower have_upper [] = (True, [], have_lower, have_upper, chk)"
| "decode_hrp chk have_lower have_upper (ch # cs) =
     (if ch < 33 \<or> ch > 126 then (False, [], have_lower, have_upper, chk)
      else
        let (have_lower, have_upper, ch) =
              (if ch \<ge> 97 \<and> ch \<le> 122 then (True, have_upper, ch)
               else if ch \<ge> 65 \<and> ch \<le> 90 then (have_lower, True, (ch - 65) + 97)
               else (have_lower, have_upper, ch));
            (ok, hrp, have_lower, have_upper, chk) =
              decode_hrp (bech32_polymod_step chk XOR ucast (drop_bit 5 ch)) have_lower have_upper cs
        in (ok, ch # hrp, have_lower, have_upper, chk))"

text \<open>The loop over the data part; the last six characters are the checksum.\<close>

fun decode_data :: "u32 \<Rightarrow> bool \<Rightarrow> bool \<Rightarrow> bytes \<Rightarrow> bool \<times> bytes \<times> bool \<times> bool \<times> u32" where
  "decode_data chk have_lower have_upper [] = (True, [], have_lower, have_upper, chk)"
| "decode_data chk have_lower have_upper (c # cs) =
     (let v = (if c AND 0x80 \<noteq> 0 then - 1 else bech32_charset_rev ! unat c);
          have_lower = (have_lower \<or> c \<ge> 97 \<and> c \<le> 122);
          have_upper = (have_upper \<or> c \<ge> 65 \<and> c \<le> 90)
      in if v = - 1 then (False, [], have_lower, have_upper, chk)
         else (case decode_data (bech32_polymod_step chk XOR of_int v) have_lower have_upper cs of
                 (ok, data, have_lower, have_upper, chk) \<Rightarrow>
                   (ok, (if length (c # cs) > 6 then of_int v # data else data), have_lower, have_upper, chk)))"

text \<open>
  The encoding, the bytes written to \<open>hrp\<close> and \<open>data\<close>, and \<open>*data_len\<close>, \<open>None\<close> while it is not
  set. The length of the data part is counted from the end up to a \<open>1\<close>.
\<close>

definition bech32_decode :: "bytes \<Rightarrow> nat \<Rightarrow> bech32_encoding \<times> bytes \<times> bytes \<times> nat option" where
  "bech32_decode input max_input_len =
     (let input_len = length input in
      if input_len < 8 \<or> input_len > max_input_len then (BECH32_ENCODING_NONE, [], [], None)
      else
        let data_len = length (takeWhile (\<lambda>c. c \<noteq> 49) (rev input));
            hrp_len = input_len - (1 + data_len)
        in if 1 + data_len \<ge> input_len \<or> data_len < 6 then (BECH32_ENCODING_NONE, [], [], Some data_len)
        else
          let data_len = data_len - 6 in
          case decode_hrp 1 False False (take hrp_len input) of
            (False, hrp, _) \<Rightarrow> (BECH32_ENCODING_NONE, hrp, [], Some data_len)
          | (True, hrp, have_lower, have_upper, chk) \<Rightarrow>
              let hrp = hrp @ [0];
                  chk = bech32_polymod_step chk;
                  chk = foldl (\<lambda>chk c. bech32_polymod_step chk XOR (ucast c AND 0x1f)) chk (take hrp_len input)
              in case decode_data chk have_lower have_upper (drop (hrp_len + 1) input) of
                   (False, data, _) \<Rightarrow> (BECH32_ENCODING_NONE, hrp, data, Some data_len)
                 | (True, data, have_lower, have_upper, chk) \<Rightarrow>
                     ((if have_lower \<and> have_upper then BECH32_ENCODING_NONE
                       else if Some chk = bech32_final_constant BECH32_ENCODING_BECH32 then BECH32_ENCODING_BECH32
                       else if Some chk = bech32_final_constant BECH32_ENCODING_BECH32M then BECH32_ENCODING_BECH32M
                       else BECH32_ENCODING_NONE), hrp, data, Some data_len))"

section \<open>The checksum is linear\<close>

text \<open>The contribution of one bit of the state.\<close>

definition tap :: "nat \<Rightarrow> u32 \<Rightarrow> u32 \<Rightarrow> u32" where
  "tap i C x = (if bit x i then C else 0)"

lemma tap_xor: "tap i C (x XOR y) = tap i C x XOR tap i C y"
  by (simp add: tap_def bit_xor_iff)

lemma tap_0 [simp]: "tap i C 0 = 0"
  by (simp add: tap_def)

lemma mask_tap:
  assumes "i < 7"
  shows "- (ucast (drop_bit i (ucast (drop_bit 25 (pre :: u32)) :: u8) AND 1) :: u32) AND C = tap (25 + i) C pre"
proof -
  have "drop_bit i (ucast (drop_bit 25 pre) :: u8) AND 1 = of_bool (bit pre (25 + i))"
    using assms by (simp add: and_one_eq mod_2_eq_odd bit_simps flip: bit_iff_odd_drop_bit)
  then show ?thesis by (simp add: tap_def)
qed

lemma polymod_step_taps:
  "bech32_polymod_step x = push_bit 5 (take_bit 25 x) XOR tap 25 0x3b6a57b2 x XOR tap 26 0x26508e6d x XOR
     tap 27 0x1ea119fa x XOR tap 28 0x3d4233dd x XOR tap 29 0x2a1462b3 x"
proof -
  have "x AND 0x1FFFFFF = take_bit 25 x" by (simp add: take_bit_eq_mask mask_eq_exp_minus_1)
  then show ?thesis
    using mask_tap [of 0 x] mask_tap [of 1 x] mask_tap [of 2 x] mask_tap [of 3 x] mask_tap [of 4 x]
    by (simp add: bech32_polymod_step_def Let_def)
qed

lemma polymod_step_xor: "bech32_polymod_step (x XOR y) = bech32_polymod_step x XOR bech32_polymod_step y"
  by (simp add: polymod_step_taps tap_xor take_bit_xor push_bit_xor ac_simps)

lemma polymod_step_0 [simp]: "bech32_polymod_step 0 = 0"
  by (simp add: polymod_step_taps)

lemma polymod_step_bound: "take_bit 30 (bech32_polymod_step x) = bech32_polymod_step x"
proof -
  have "push_bit 5 (take_bit 25 x) = take_bit 30 (push_bit 5 x)" by (simp add: push_bit_take_bit)
  moreover have "take_bit 30 (tap i C x) = tap i C x" if "take_bit 30 C = C" for i C using that by (simp add: tap_def)
  ultimately show ?thesis by (simp add: polymod_step_taps take_bit_xor)
qed

lemma polymod_step_small: "take_bit 25 x = x \<Longrightarrow> bech32_polymod_step x = push_bit 5 x"
proof -
  assume x: "take_bit 25 x = x"
  have "\<not> bit x i" if "25 \<le> i" for i using that by (subst x [symmetric]) (simp add: bit_take_bit_iff)
  then show ?thesis using x by (simp add: polymod_step_taps tap_def)
qed

text \<open>The generator's low digits are independent, so the step loses nothing.\<close>

lemma polymod_step_eq_0:
  assumes "bech32_polymod_step x = 0" "take_bit 30 x = x"
  shows "x = 0"
proof -
  have "take_bit 5 (tap 25 0x3b6a57b2 x) XOR take_bit 5 (tap 26 0x26508e6d x) XOR take_bit 5 (tap 27 0x1ea119fa x) XOR
      take_bit 5 (tap 28 0x3d4233dd x) XOR take_bit 5 (tap 29 0x2a1462b3 x) = 0"
    using arg_cong [OF assms(1), of "take_bit 5"] by (simp add: polymod_step_taps take_bit_xor take_bit_push_bit)
  then have top: "\<not> bit x 25 \<and> \<not> bit x 26 \<and> \<not> bit x 27 \<and> \<not> bit x 28 \<and> \<not> bit x 29"
    by (cases "bit x 25"; cases "bit x 26"; cases "bit x 27"; cases "bit x 28"; cases "bit x 29"; simp add: tap_def)
  then have "push_bit 5 (take_bit 25 x) = 0" using assms(1) by (simp add: polymod_step_taps tap_def)
  have low: "\<not> bit x i" if "i < 25" for i
  proof -
    have "bit (push_bit 5 (take_bit 25 x)) (i + 5) = bit x i" using that by (simp add: bit_simps)
    with \<open>push_bit 5 (take_bit 25 x) = 0\<close> show ?thesis by simp
  qed
  show ?thesis
  proof (rule bit_word_eqI)
    fix n assume "n < LENGTH(32)"
    have "\<not> bit x n" if "30 \<le> n" using that by (subst assms(2) [symmetric]) (simp add: bit_take_bit_iff)
    moreover have "n < 25 \<or> n = 25 \<or> n = 26 \<or> n = 27 \<or> n = 28 \<or> n = 29 \<or> 30 \<le> n" by linarith
    ultimately show "bit x n = bit 0 n" using low top by auto
  qed
qed

interpretation bech32: feedback_register bech32_polymod_step
  by unfold_locales (fact polymod_step_xor polymod_step_bound polymod_step_small polymod_step_eq_0)+

abbreviation polymod :: "u32 \<Rightarrow> u32 list \<Rightarrow> u32" where
  "polymod \<equiv> residue bech32_polymod_step"

section \<open>The character set\<close>

definition chr :: "u32 \<Rightarrow> u8" where
  "chr v = bech32_charset ! unat v"

definition chr_value :: "u8 \<Rightarrow> u32" where
  "chr_value c = of_int (bech32_charset_rev ! unat c)"

lemma charset_table:
  "list_all (\<lambda>v. bech32_charset_rev ! unat (bech32_charset ! v) = int v \<and> bech32_charset ! v AND 0x80 = 0 \<and>
     bech32_charset ! v \<noteq> 49 \<and> \<not> (65 \<le> bech32_charset ! v \<and> bech32_charset ! v \<le> 90)) [0..<32]"
  by (simp add: upt_rec bech32_charset_def bech32_charset_rev_def nth_append)

lemma charset_rev_table: "list_all (\<lambda>v. v = - 1 \<or> 0 \<le> v \<and> v < 32) bech32_charset_rev" "length bech32_charset_rev = 128"
  by (simp_all add: bech32_charset_rev_def list_all_iff)

lemma chr_props:
  assumes "unat v < 32"
  shows "chr_value (chr v) = v" "bech32_charset_rev ! unat (chr v) \<noteq> - 1" "chr v AND 0x80 = 0" "chr v \<noteq> 49"
    "\<not> (65 \<le> chr v \<and> chr v \<le> 90)"
proof -
  have "\<forall>i < 32. bech32_charset_rev ! unat (bech32_charset ! i) = int i \<and> bech32_charset ! i AND 0x80 = 0 \<and>
     bech32_charset ! i \<noteq> 49 \<and> \<not> (65 \<le> bech32_charset ! i \<and> bech32_charset ! i \<le> 90)"
    using charset_table by (simp add: list_all_iff)
  then have c: "bech32_charset_rev ! unat (chr v) = int (unat v)" "chr v AND 0x80 = 0" "chr v \<noteq> 49"
      "\<not> (65 \<le> chr v \<and> chr v \<le> 90)"
    using assms by (auto simp: chr_def)
  then show "chr v AND 0x80 = 0" "chr v \<noteq> 49" "\<not> (65 \<le> chr v \<and> chr v \<le> 90)" by blast+
  show "chr_value (chr v) = v" using c(1) by (simp add: chr_value_def)
  show "bech32_charset_rev ! unat (chr v) \<noteq> - 1" unfolding c(1) by linarith
qed

lemma small_u8: "c AND 0x80 = 0 \<Longrightarrow> unat (c :: u8) < 128"
proof -
  assume c: "c AND 0x80 = 0"
  have "take_bit 7 c = c"
  proof (rule bit_word_eqI)
    fix n assume "n < LENGTH(8)"
    moreover have "bit (c AND 0x80) 7 = bit c 7" by (simp add: bit_and_iff)
    then have "\<not> bit c 7" using c by simp
    ultimately show "bit (take_bit 7 c) n = bit c n" by (auto simp: bit_take_bit_iff less_Suc_eq numeral_eq_Suc)
  qed
  then show ?thesis by (simp add: take_bit_self_unat)
qed

lemma chr_value_bound:
  assumes "c AND 0x80 = 0" "bech32_charset_rev ! unat c \<noteq> - 1"
  shows "unat (chr_value c) < 32"
proof -
  have "unat c < length bech32_charset_rev" using small_u8 [OF assms(1)] by (simp add: charset_rev_table(2))
  then have "0 \<le> bech32_charset_rev ! unat c" "bech32_charset_rev ! unat c < 32"
    using charset_rev_table(1) assms(2) by (auto simp: list_all_length)
  moreover from this obtain j where "bech32_charset_rev ! unat c = int j" by (metis nonneg_int_cases)
  ultimately show ?thesis by (simp add: chr_value_def unsigned_of_nat take_bit_nat_eq_self)
qed

text \<open>A character is determined by its value, up to the case of letters.\<close>

definition to_lower :: "u8 \<Rightarrow> u8" where
  "to_lower c = (if 65 \<le> c \<and> c \<le> 90 then c + 32 else c)"

lemma charset_case_table:
  "list_all (\<lambda>i. bech32_charset_rev ! i = - 1 \<or> bech32_charset ! nat (bech32_charset_rev ! i) = to_lower (of_nat i)) [0..<128]"
  by (simp add: upt_rec bech32_charset_def bech32_charset_rev_def nth_append to_lower_def)

lemma chr_chr_value:
  assumes "c AND 0x80 = 0" "bech32_charset_rev ! unat c \<noteq> - 1"
  shows "chr (chr_value c) = to_lower c"
proof -
  let ?v = "bech32_charset_rev ! unat c"
  have i: "unat c < 128" by (rule small_u8 [OF assms(1)])
  then have "0 \<le> ?v" "?v < 32" using charset_rev_table assms(2) by (auto simp: list_all_length)
  then have "unat (chr_value c) = nat ?v" by (auto simp: chr_value_def nonneg_int_cases unsigned_of_nat take_bit_nat_eq_self elim!: nonneg_int_cases)
  then show ?thesis using charset_case_table i assms(2) by (auto simp: list_all_iff chr_def)
qed

section \<open>What is encoded, and what decoding reads\<close>

definition hrp_ok :: "bytes \<Rightarrow> bool" where
  "hrp_ok hrp \<longleftrightarrow> (\<forall>c \<in> set hrp. 33 \<le> c \<and> c \<le> 126 \<and> \<not> (65 \<le> c \<and> c \<le> 90))"

definition data_ok :: "bytes \<Rightarrow> bool" where
  "data_ok data \<longleftrightarrow> (\<forall>v \<in> set data. unat v < 32)"

text \<open>The values of the human readable part in the checksum: high bits, a zero, low bits.\<close>

definition hrp_values :: "bytes \<Rightarrow> u32 list" where
  "hrp_values hrp = map (\<lambda>c. ucast (drop_bit 5 c)) hrp @ [0] @ map (\<lambda>c. ucast c AND 0x1f) hrp"

lemma encode_check_hrp_eq:
  "hrp_ok hrp \<Longrightarrow> encode_check_hrp chk hrp = Some (polymod chk (map (\<lambda>c. ucast (drop_bit 5 c)) hrp))"
  by (induction hrp arbitrary: chk) (auto simp: hrp_ok_def not_less)

lemma drop_five_eq_0: "drop_bit 5 (v :: u8) = 0 \<longleftrightarrow> unat v < 32"
  by (simp add: drop_bit_eq_div word_unat_eq_iff unat_div_distrib div_eq_0_iff)

lemma encode_data_eq:
  "data_ok data \<Longrightarrow> encode_data chk data = (True, polymod chk (map ucast data), map (\<lambda>v. chr (ucast v)) data)"
  by (induction data arbitrary: chk) (auto simp: data_ok_def drop_five_eq_0 chr_def unsigned_ucast_eq take_bit_nat_eq_self)

text \<open>The whole string, from its values and the final constant.\<close>

definition bech32_values :: "bytes \<Rightarrow> bytes \<Rightarrow> u32 \<Rightarrow> u32 list" where
  "bech32_values hrp data k = map ucast data @
     digits ((bech32_polymod_step ^^ 6) (polymod 1 (hrp_values hrp @ map ucast data)) XOR k)"

lemma encode_eq:
  assumes "hrp_ok hrp" "data_ok data" "length hrp + 7 + length data \<le> n" "bech32_final_constant enc = Some k"
  shows "bech32_encode hrp data n enc = Some (True, hrp @ [49] @ map chr (bech32_values hrp data k) @ [0])"
  using assms
  by (simp add: bech32_encode_def encode_check_hrp_eq foldl_residue encode_data_eq bech32_values_def hrp_values_def
      digits_def chr_def Let_def o_def)

lemma decode_hrp_eq:
  "hrp_ok hrp \<Longrightarrow> \<exists>l'. decode_hrp chk l u hrp = (True, hrp, l', u, polymod chk (map (\<lambda>c. ucast (drop_bit 5 c)) hrp))"
proof (induction hrp arbitrary: chk l)
  case (Cons c hrp)
  have "hrp_ok hrp" using Cons.prems by (simp add: hrp_ok_def)
  from Cons.IH [OF this, of "bech32_polymod_step chk XOR ucast (drop_bit 5 c)" "l \<or> (97 \<le> c \<and> c \<le> 122)"]
  show ?case using Cons.prems by (auto simp: hrp_ok_def Let_def split: if_splits)
qed simp

lemma chr_rev: "unat v < 32 \<Longrightarrow> bech32_charset_rev ! unat (chr v) = int (unat v)"
  using charset_table by (simp add: list_all_iff chr_def)

lemma take_but_six:
  "take (length xs - 5) (x # xs) = (if length xs > 5 then x # take (length xs - 6) xs else [])"
proof -
  have "n > 5 \<Longrightarrow> n - 5 = Suc (n - 6)" for n :: nat by arith
  then show ?thesis by simp
qed

lemma decode_data_chr:
  "\<forall>v \<in> set vs. unat v < 32 \<Longrightarrow> \<exists>l'. decode_data chk l u (map chr vs) =
    (True, map ucast (take (length vs - 6) vs), l', u, polymod chk vs)"
proof (induction vs arbitrary: chk l)
  case (Cons v vs)
  from Cons.IH [of "bech32_polymod_step chk XOR v" "l \<or> (97 \<le> chr v \<and> chr v \<le> 122)"] Cons.prems
  obtain l' where "decode_data (bech32_polymod_step chk XOR v) (l \<or> (97 \<le> chr v \<and> chr v \<le> 122)) u (map chr vs) =
      (True, map ucast (take (length vs - 6) vs), l', u, polymod (bech32_polymod_step chk XOR v) vs)" by auto
  moreover have "bech32_charset_rev ! unat (chr v) = int (unat v)" "chr v AND 0x80 = 0" "\<not> (65 \<le> chr v \<and> chr v \<le> 90)"
    using Cons.prems chr_props [of v] by (simp_all add: chr_rev)
  moreover have "int (unat v) \<noteq> - 1" by linarith
  moreover have "(of_int (int (unat v)) :: u32) = v" "(of_int (int (unat v)) :: u8) = ucast v"
    by (simp_all add: word_unat_eq_iff unsigned_ucast_eq unsigned_of_nat take_bit_nat_eq_self)
  ultimately show ?case by (auto simp: Let_def take_but_six simp del: of_int_of_nat_eq)
qed simp

lemma decode_data_values:
  assumes "decode_data chk l u cs = (True, d, l', u', chk')"
  shows "chk' = polymod chk (map chr_value cs)"
    "d = map (\<lambda>c. of_int (bech32_charset_rev ! unat c)) (take (length cs - 6) cs)"
    "\<forall>c \<in> set cs. c AND 0x80 = 0 \<and> bech32_charset_rev ! unat c \<noteq> - 1"
proof -
  have "chk' = polymod chk (map chr_value cs) \<and>
      d = map (\<lambda>c. of_int (bech32_charset_rev ! unat c)) (take (length cs - 6) cs) \<and>
      (\<forall>c \<in> set cs. c AND 0x80 = 0 \<and> bech32_charset_rev ! unat c \<noteq> - 1)"
    using assms
  proof (induction cs arbitrary: chk l u d)
    case (Cons c cs)
    have c: "c AND 0x80 = 0" "bech32_charset_rev ! unat c \<noteq> - 1"
      using Cons.prems by (auto simp: Let_def split: if_splits)
    obtain ok d1 l1 u1 chk1 where r: "decode_data (bech32_polymod_step chk XOR chr_value c)
        (l \<or> 97 \<le> c \<and> c \<le> 122) (u \<or> 65 \<le> c \<and> c \<le> 90) cs = (ok, d1, l1, u1, chk1)" by (rule prod_cases5)
    have eq: "ok" "l1 = l'" "u1 = u'" "chk1 = chk'" "d = (if length cs > 5 then of_int (bech32_charset_rev ! unat c) # d1 else d1)"
      using Cons.prems c r by (auto simp: Let_def chr_value_def split: if_splits)
    show ?case using Cons.IH [of "bech32_polymod_step chk XOR chr_value c" _ _ d1] r eq c
      by (auto simp: take_but_six)
  qed simp
  then show "chk' = polymod chk (map chr_value cs)"
    "d = map (\<lambda>c. of_int (bech32_charset_rev ! unat c)) (take (length cs - 6) cs)"
    "\<forall>c \<in> set cs. c AND 0x80 = 0 \<and> bech32_charset_rev ! unat c \<noteq> - 1"
    by blast+
qed

lemma decode_split:
  assumes "49 \<notin> set a" "8 \<le> length (h @ 49 # a)" "length (h @ 49 # a) \<le> n" "h \<noteq> []" "6 \<le> length a"
  shows "bech32_decode (h @ 49 # a) n =
    (case decode_hrp 1 False False h of
       (False, hrp, _) \<Rightarrow> (BECH32_ENCODING_NONE, hrp, [], Some (length a - 6))
     | (True, hrp, l, u, chk) \<Rightarrow>
         (case decode_data (polymod chk (0 # map (\<lambda>c. ucast c AND 0x1f) h)) l u a of
            (False, data, _) \<Rightarrow> (BECH32_ENCODING_NONE, hrp @ [0], data, Some (length a - 6))
          | (True, data, l, u, chk) \<Rightarrow>
              ((if l \<and> u then BECH32_ENCODING_NONE
                else if Some chk = bech32_final_constant BECH32_ENCODING_BECH32 then BECH32_ENCODING_BECH32
                else if Some chk = bech32_final_constant BECH32_ENCODING_BECH32M then BECH32_ENCODING_BECH32M
                else BECH32_ENCODING_NONE), hrp @ [0], data, Some (length a - 6))))"
proof -
  have t: "takeWhile (\<lambda>c. c \<noteq> 49) (rev (h @ 49 # a)) = rev a"
    using assms(1) by (simp add: takeWhile_append)
  obtain ok hrp l u chk where d: "decode_hrp 1 False False h = (ok, hrp, l, u, chk)" by (rule prod_cases5)
  obtain ok2 data l2 u2 chk2 where
    d2: "decode_data (polymod chk (0 # map (\<lambda>c. ucast c AND 0x1f) h)) l u a = (ok2, data, l2, u2, chk2)" by (rule prod_cases5)
  show ?thesis using assms(2-5) d d2
    by (cases ok; cases ok2) (simp_all add: bech32_decode_def t Let_def foldl_residue not_less del: rev_append)
qed

lemma ucast_u32_u8 [simp]: "(ucast (ucast (v :: u8) :: u32) :: u8) = v"
  by (simp add: word_unat_eq_iff unsigned_ucast_eq take_bit_nat_eq_self take_bit_word_eq_self)

lemma bech32_values_props:
  assumes "data_ok data" "take_bit 30 k = k"
  shows "\<forall>v \<in> set (bech32_values hrp data k). unat v < 32" "length (bech32_values hrp data k) = length data + 6"
    "polymod 1 (hrp_values hrp @ bech32_values hrp data k) = k"
proof -
  show "\<forall>v \<in> set (bech32_values hrp data k). unat v < 32"
    using assms(1) digits_props(2) [unfolded take_bit_self_unat]
    by (auto simp: bech32_values_def data_ok_def unsigned_ucast_eq take_bit_nat_eq_self)
  show "length (bech32_values hrp data k) = length data + 6" by (simp add: bech32_values_def digits_props)
  show "polymod 1 (hrp_values hrp @ bech32_values hrp data k) = k"
    using bech32.residue_digits [OF assms(2), of "polymod 1 (hrp_values hrp @ map ucast data)"] by (simp add: bech32_values_def)
qed

lemma decode_encoded:
  assumes "hrp_ok hrp" "hrp \<noteq> []" "data_ok data" "length hrp + 7 + length data \<le> n" "bech32_final_constant enc = Some k"
  shows "bech32_decode (hrp @ 49 # map chr (bech32_values hrp data k)) n = (enc, hrp @ [0], data, Some (length data))"
proof -
  let ?vs = "bech32_values hrp data k"
  have k: "take_bit 30 k = k" using assms(5) by (auto simp: bech32_final_constant_def split: if_splits)
  note vs = bech32_values_props [OF assms(3) k, of hrp]
  obtain l where h: "decode_hrp 1 False False hrp = (True, hrp, l, False, polymod 1 (map (\<lambda>c. ucast (drop_bit 5 c)) hrp))"
    using decode_hrp_eq [OF assms(1)] by blast
  have data: "map ucast (take (length ?vs - 6) ?vs) = data"
    using vs(2) by (simp add: bech32_values_def map_idI)
  obtain l' where d: "decode_data (polymod (polymod 1 (map (\<lambda>c. ucast (drop_bit 5 c)) hrp)) (0 # map (\<lambda>c. ucast c AND 0x1f) hrp))
      l False (map chr ?vs) = (True, data, l', False, k)"
    using decode_data_chr [OF vs(1), of "polymod (polymod 1 (map (\<lambda>c. ucast (drop_bit 5 c)) hrp)) (0 # map (\<lambda>c. ucast c AND 0x1f) hrp)" l False]
      data vs(3) by (auto simp: hrp_values_def)
  have no_one: "49 \<notin> set (map chr ?vs)" using vs(1) chr_props(4) by fastforce
  have "length (hrp @ 49 # map chr ?vs) = length hrp + 7 + length data" "1 \<le> length hrp"
    using vs(2) assms(2) by (simp_all add: Suc_le_eq)
  then have "bech32_decode (hrp @ 49 # map chr ?vs) n = ((if Some k = bech32_final_constant BECH32_ENCODING_BECH32 then BECH32_ENCODING_BECH32
      else if Some k = bech32_final_constant BECH32_ENCODING_BECH32M then BECH32_ENCODING_BECH32M
      else BECH32_ENCODING_NONE), hrp @ [0], data, Some (length data))"
    using assms(2,4) vs(2) by (subst decode_split [OF no_one]) (simp_all only: h d split length_map, simp_all)
  then show ?thesis using assms(5) by (auto simp: bech32_final_constant_def split: if_splits)
qed

text \<open>Without a human readable part there is nothing to read.\<close>

lemma decode_no_prefix: "49 \<notin> set a \<Longrightarrow> fst (bech32_decode (49 # a) n) = BECH32_ENCODING_NONE"
  by (simp add: bech32_decode_def Let_def takeWhile_append)

section \<open>Errors\<close>

lemma of_int_u8_u32: "(of_int i :: u8) = ucast (of_int i :: u32)"
  by (rule bit_word_eqI) (simp add: bit_simps)

text \<open>What an accepted string says: its values and its checksum.\<close>

lemma decode_accepted:
  assumes "bech32_decode (h @ 49 # a) n = (enc, hrp, data, len)" "enc \<noteq> BECH32_ENCODING_NONE" "49 \<notin> set a"
  shows "\<exists>l u chk k. decode_hrp 1 False False h = (True, take (length hrp - 1) hrp, l, u, chk) \<and>
    bech32_final_constant enc = Some k \<and>
    polymod (polymod chk (0 # map (\<lambda>c. ucast c AND 0x1f) h)) (map chr_value a) = k \<and>
    hrp = take (length hrp - 1) hrp @ [0] \<and> data = map ucast (take (length a - 6) (map chr_value a)) \<and>
    (\<forall>c \<in> set a. c AND 0x80 = 0 \<and> bech32_charset_rev ! unat c \<noteq> - 1) \<and> len = Some (length a - 6)"
proof -
  have t: "takeWhile (\<lambda>c. c \<noteq> 49) (rev (h @ 49 # a)) = rev a"
    using assms(3) by (simp add: takeWhile_append)
  have size: "8 \<le> length (h @ 49 # a)" "length (h @ 49 # a) \<le> n" "h \<noteq> []" "6 \<le> length a"
    using assms(1,2) by (auto simp: bech32_decode_def t Let_def simp del: rev_append split: if_splits)
  obtain ok hrp' l u chk where d: "decode_hrp 1 False False h = (ok, hrp', l, u, chk)" by (rule prod_cases5)
  obtain ok2 data' l2 u2 chk2 where
    d2: "decode_data (polymod chk (0 # map (\<lambda>c. ucast c AND 0x1f) h)) l u a = (ok2, data', l2, u2, chk2)" by (rule prod_cases5)
  have "ok \<and> ok2 \<and> hrp = hrp' @ [0] \<and> data = data' \<and> len = Some (length a - 6) \<and> bech32_final_constant enc = Some chk2"
    using assms(1,2) decode_split [OF assms(3) size] d d2 by (cases ok; cases ok2) (auto split: if_splits)
  then show ?thesis using decode_data_values [of _ l u a data' l2 u2 chk2] d d2
    by (auto simp: chr_value_def of_int_u8_u32 o_def take_map)
qed

lemma chr_not_0: "unat v < 32 \<Longrightarrow> chr v \<noteq> 0"
  using chr_props(2) [of v] by (auto simp: bech32_charset_rev_def nth_append)

lemma encode_bad_hrp: "\<not> hrp_ok hrp \<Longrightarrow> encode_check_hrp chk hrp = None"
  by (induction hrp arbitrary: chk) (auto simp: hrp_ok_def not_less not_le)

lemma encode_bad_data: "\<not> data_ok data \<Longrightarrow> \<exists>chk' out. encode_data chk data = (False, chk', out)"
proof (induction data arbitrary: chk)
  case (Cons v data)
  show ?case
  proof (cases "unat v < 32")
    case True
    then have "\<not> data_ok data" using Cons.prems by (auto simp: data_ok_def)
    from Cons.IH [OF this, of "bech32_polymod_step chk XOR ucast v"] show ?thesis by (auto simp: drop_five_eq_0)
  qed (simp add: drop_five_eq_0)
qed (simp add: data_ok_def)

section \<open>The buffers of the decoder\<close>

lemma length_decode_hrp: "decode_hrp chk l u cs = (ok, out, r) \<Longrightarrow> length out \<le> length cs"
  by (induction cs arbitrary: chk l u ok out r) (fastforce simp: Let_def split: if_splits prod.splits)+

lemma length_decode_data: "decode_data chk l u cs = (ok, out, r) \<Longrightarrow> length out \<le> length cs - 6"
proof (induction cs arbitrary: chk l u ok out r)
  case (Cons c cs)
  then show ?case by (fastforce simp: Let_def split: if_splits prod.splits)
qed simp

lemma decode_bounds:
  assumes "bech32_decode input n = (enc, hrp, data, len)"
  shows "length hrp \<le> length input - 6 \<and> length data \<le> length input - 8 \<and>
    (enc \<noteq> BECH32_ENCODING_NONE \<longrightarrow> len = Some (length data) \<and> data_ok data \<and> length input \<le> n)"
proof (cases "49 \<in> set input")
  case False
  then have t: "takeWhile (\<lambda>c. c \<noteq> 49) (rev input) = rev input" by (simp add: takeWhile_eq_all_conv) metis
  show ?thesis using assms by (auto simp: bech32_decode_def Let_def t split: if_splits)
next
  case True
  then obtain h a where i: "input = h @ 49 # a" "49 \<notin> set a" by (metis split_list_last)
  have t: "takeWhile (\<lambda>c. c \<noteq> 49) (rev (h @ 49 # a)) = rev a" using i(2) by (simp add: takeWhile_append)
  show ?thesis
  proof (cases "8 \<le> length input \<and> length input \<le> n \<and> h \<noteq> [] \<and> 6 \<le> length a")
    case False
    then show ?thesis using assms by (auto simp: i(1) bech32_decode_def t Let_def simp del: rev_append split: if_splits)
  next
    case True
    obtain ok hrp' l u chk where d: "decode_hrp 1 False False h = (ok, hrp', l, u, chk)" by (rule prod_cases5)
    obtain ok2 data' l2 u2 chk2 where
      d2: "decode_data (polymod chk (0 # map (\<lambda>c. ucast c AND 0x1f) h)) l u a = (ok2, data', l2, u2, chk2)" by (rule prod_cases5)
    have "length hrp \<le> length h + 1" "length data \<le> length a - 6"
      using assms True d d2 length_decode_hrp [OF d] length_decode_data [OF d2] unfolding i(1)
      by (cases ok; cases ok2; simp add: decode_split [OF i(2)]; auto)+
    moreover have "length h \<ge> 1" using True by (simp add: Suc_le_eq)
    moreover have "enc \<noteq> BECH32_ENCODING_NONE \<longrightarrow> len = Some (length data) \<and> data_ok data"
      using decode_accepted [OF assms [unfolded i(1)] _ i(2)] chr_value_bound
      by (fastforce simp: data_ok_def unsigned_ucast_eq intro!: le_less_trans [OF take_bit_nat_less_eq_self] dest!: in_set_takeD)
    ultimately show ?thesis using True by (auto simp: i(1))
  qed
qed


section \<open>Properties\<close>

text \<open>C14: Encoding and decoding, for every input: for a human readable part of printable characters without
  capitals and 5-bit values, \<open>bech32_encode\<close> writes a string of the expected length exactly when it
  does not exceed the limit, in both variants, and for a part that is not empty \<open>bech32_decode\<close> reads
  the same part, values and variant back. The empty part is encoded all the same, and the string is
  refused by \<open>bech32_decode\<close>. A capital or unprintable character and a value above 31 are refused.
  Without a variant the assertion of \<open>bech32_final_constant\<close> fails once the rest is valid.\<close>

theorem bech32_round_trip:
  "if hrp_ok hrp \<and> data_ok data \<and> length hrp + 7 + length data \<le> n
    then (if enc = BECH32_ENCODING_NONE then bech32_encode hrp data n enc = None
      else \<exists>str. bech32_encode hrp data n enc = Some (True, str @ [0]) \<and> length str = length hrp + 7 + length data \<and>
        0 \<notin> set str \<and>
        (if hrp = [] then fst (bech32_decode str n) = BECH32_ENCODING_NONE
         else bech32_decode str n = (enc, hrp @ [0], data, Some (length data))))
    else \<exists>out. bech32_encode hrp data n enc = Some (False, out)"
proof (cases "hrp_ok hrp \<and> data_ok data \<and> length hrp + 7 + length data \<le> n")
  case True
  show ?thesis
  proof (cases "enc = BECH32_ENCODING_NONE")
    case none: True
    then show ?thesis using True
      by (simp add: bech32_encode_def encode_check_hrp_eq foldl_residue encode_data_eq Let_def bech32_final_constant_def)
  next
    case False
    then obtain k where k: "bech32_final_constant enc = Some k" "take_bit 30 k = k"
      by (cases enc) (auto simp: bech32_final_constant_def)
    let ?str = "hrp @ 49 # map chr (bech32_values hrp data k)"
    note vs = bech32_values_props [OF _ k(2), of data hrp]
    have "bech32_encode hrp data n enc = Some (True, ?str @ [0])" using encode_eq True k(1) by simp
    moreover have "bech32_decode ?str n = (enc, hrp @ [0], data, Some (length data))" if "hrp \<noteq> []"
      using decode_encoded [OF _ that _ _ k(1)] True by blast
    moreover have "fst (bech32_decode ?str n) = BECH32_ENCODING_NONE" if "hrp = []"
      using decode_no_prefix [of "map chr (bech32_values hrp data k)" n] vs(1) True that chr_props(4) by fastforce
    moreover have "length ?str = length hrp + 7 + length data" "0 \<notin> set ?str"
      using True vs by (auto simp: hrp_ok_def chr_not_0 dest!: chr_not_0)
    ultimately show ?thesis using True False by auto
  qed
next
  case False
  then consider "\<not> hrp_ok hrp" | "hrp_ok hrp" "length hrp + 7 + length data > n"
    | "hrp_ok hrp" "\<not> data_ok data" "length hrp + 7 + length data \<le> n" by linarith
  then have "\<exists>out. bech32_encode hrp data n enc = Some (False, out)"
  proof cases
    case 3
    from encode_bad_data [OF 3(2)] obtain chk' out where
      "encode_data (polymod 1 (hrp_values hrp)) data = (False, chk', out)" by blast
    then show ?thesis using 3 by (simp add: bech32_encode_def encode_check_hrp_eq foldl_residue hrp_values_def)
  qed (simp_all add: bech32_encode_def encode_bad_hrp encode_check_hrp_eq)
  then show ?thesis by (subst if_not_P [OF False])
qed

theorem bech32_round_trip_witness:
  "if hrp_ok (ascii ''a'') \<and> data_ok [0, 31] \<and> length (ascii ''a'') + 7 + length [0, 31 :: u8] \<le> 90
    then (if BECH32_ENCODING_BECH32M = BECH32_ENCODING_NONE then bech32_encode (ascii ''a'') [0, 31] 90 BECH32_ENCODING_BECH32M = None
      else \<exists>str. bech32_encode (ascii ''a'') [0, 31] 90 BECH32_ENCODING_BECH32M = Some (True, str @ [0]) \<and>
        length str = length (ascii ''a'') + 7 + length [0, 31 :: u8] \<and> 0 \<notin> set str \<and>
        (if ascii ''a'' = [] then fst (bech32_decode str 90) = BECH32_ENCODING_NONE
         else bech32_decode str 90 = (BECH32_ENCODING_BECH32M, ascii ''a'' @ [0], [0, 31], Some (length [0, 31 :: u8]))))
    else \<exists>out. bech32_encode (ascii ''a'') [0, 31] 90 BECH32_ENCODING_BECH32M = Some (False, out)"
  by (rule bech32_round_trip)

text \<open>C13: Errors are detected: when the data part of an accepted string, its checksum included, is changed
  in any way within six characters in a row, other than by making a new separator (the character
  \<open>1\<close>), then the result is refused, accepted as the other variant, or differs from the original in
  the case of letters only, and is read as the same part, values and length.\<close>

theorem bech32_detects_bursts:
  assumes "bech32_decode (h @ 49 # us @ xs @ ws) n = (enc, r)" "bech32_decode (h @ 49 # us @ ys @ ws) n = (enc, r')"
    and "enc \<noteq> BECH32_ENCODING_NONE" "length xs = length ys" "length xs \<le> 6"
    and "49 \<notin> set us \<union> set xs \<union> set ys \<union> set ws"
  shows "map to_lower ys = map to_lower xs \<and> r = r'"
proof -
  obtain hrp data len where r: "r = (hrp, data, len)" by (rule prod_cases3)
  obtain hrp' data' len' where r': "r' = (hrp', data', len')" by (rule prod_cases3)
  have no: "49 \<notin> set (us @ xs @ ws)" "49 \<notin> set (us @ ys @ ws)" using assms(6) by auto
  from decode_accepted [OF assms(1) [unfolded r] assms(3) no(1)] obtain l u chk k where
    1: "decode_hrp 1 False False h = (True, take (length hrp - 1) hrp, l, u, chk)" "bech32_final_constant enc = Some k"
      "polymod (polymod chk (0 # map (\<lambda>c. ucast c AND 0x1f) h)) (map chr_value (us @ xs @ ws)) = k"
      "hrp = take (length hrp - 1) hrp @ [0]" "data = map ucast (take (length (us @ xs @ ws) - 6) (map chr_value (us @ xs @ ws)))"
      "\<forall>c \<in> set (us @ xs @ ws). c AND 0x80 = 0 \<and> bech32_charset_rev ! unat c \<noteq> - 1" "len = Some (length (us @ xs @ ws) - 6)"
    by blast
  from decode_accepted [OF assms(2) [unfolded r'] assms(3) no(2)] obtain l' u' chk' k' where
    2: "decode_hrp 1 False False h = (True, take (length hrp' - 1) hrp', l', u', chk')" "bech32_final_constant enc = Some k'"
      "polymod (polymod chk' (0 # map (\<lambda>c. ucast c AND 0x1f) h)) (map chr_value (us @ ys @ ws)) = k'"
      "hrp' = take (length hrp' - 1) hrp' @ [0]" "data' = map ucast (take (length (us @ ys @ ws) - 6) (map chr_value (us @ ys @ ws)))"
      "\<forall>c \<in> set (us @ ys @ ws). c AND 0x80 = 0 \<and> bech32_charset_rev ! unat c \<noteq> - 1" "len' = Some (length (us @ ys @ ws) - 6)"
    by blast
  have "chk = chk'" "k = k'" "hrp = hrp'" using 1(1,2,4) 2(1,2,4) by auto
  moreover have v: "map chr_value xs = map chr_value ys"
    by (rule bech32.residue_burst [of "polymod chk (0 # map (\<lambda>c. ucast c AND 0x1f) h)" "map chr_value us" _ "map chr_value ws"])
      (use 1(3,6) 2(3,6) \<open>chk = chk'\<close> \<open>k = k'\<close> assms(4,5) chr_value_bound in auto)
  have l: "map to_lower zs = map chr (map chr_value zs)"
    if "\<forall>c \<in> set zs. c AND 0x80 = 0 \<and> bech32_charset_rev ! unat c \<noteq> - 1" for zs
    using that by (simp add: chr_chr_value)
  have "map to_lower ys = map to_lower xs"
    using l [of xs] l [of ys] 1(6) 2(6) v by simp
  ultimately show ?thesis using 1(5,7) 2(5,7) v assms(4) by (simp add: r r')
qed

text \<open>The empty string of BIP 350, in both cases.\<close>

lemma example_bech32m:
  "bech32_decode (ascii ''?'' @ 49 # ascii ''v759aa'') 90 = (BECH32_ENCODING_BECH32M, ascii ''?'' @ [0], [], Some 0)"
  "bech32_decode (ascii ''?'' @ 49 # ascii ''V759AA'') 90 = (BECH32_ENCODING_BECH32M, ascii ''?'' @ [0], [], Some 0)"
proof -
  have h: "decode_hrp 1 False False (ascii ''?'') = (True, ascii ''?'', False, False, 33)"
    and p: "polymod 33 (0 # map (\<lambda>c. ucast c AND 0x1f) (ascii ''?'')) = 33823"
    by (simp_all add: polymod_step_taps tap_def)
  have d: "decode_data 33823 False False (ascii ''v759aa'') = (True, [], True, False, 0x2bc830a3)"
    "decode_data 33823 False False (ascii ''V759AA'') = (True, [], False, True, 0x2bc830a3)"
    by (simp_all add: polymod_step_taps tap_def bech32_charset_rev_def nth_append)
  have "49 \<notin> set (ascii ''v759aa'')" "49 \<notin> set (ascii ''V759AA'')" by simp_all
  note split = this [THEN decode_split, of "ascii ''?''" 90, unfolded h p d prod.case bool.case]
  show "bech32_decode (ascii ''?'' @ 49 # ascii ''v759aa'') 90 = (BECH32_ENCODING_BECH32M, ascii ''?'' @ [0], [], Some 0)"
    "bech32_decode (ascii ''?'' @ 49 # ascii ''V759AA'') 90 = (BECH32_ENCODING_BECH32M, ascii ''?'' @ [0], [], Some 0)"
    by (subst split(1), simp, simp, simp, simp, simp, simp add: bech32_final_constant_def)
       (subst split(2), simp, simp, simp, simp, simp, simp add: bech32_final_constant_def)
qed

theorem bech32_detects_bursts_witness:
  "map to_lower (ascii ''V759AA'') = map to_lower (ascii ''v759aa'') \<and> (ascii ''?'' @ [0], [], Some 0) = (ascii ''?'' @ [0], [] :: bytes, Some (0 :: nat))"
  by (rule bech32_detects_bursts [where h = "ascii ''?''" and us = "[]" and ws = "[]" and xs = "ascii ''v759aa''"
        and ys = "ascii ''V759AA''" and n = 90 and enc = BECH32_ENCODING_BECH32M])
    (simp_all add: example_bech32m del: ascii_simps, simp)

end
