(* ===== verification/Segwit.thy ===== *)
theory Segwit
  imports Bech32
begin

text \<open>
  The rest of \<open>bech32.c\<close>: the conversion between groups of bits, and the segwit addresses on top of
  Bech32 strings. A list of groups is a number in the base of their width, and the conversion is
  shown to give the digits of that number in the other base.
\<close>

section \<open>Groups of bits\<close>

text \<open>
  The inner loop: the bits left, and the groups written. \<open>val\<close> only ever grows at its low end, so
  old bits fall off the top.
\<close>

function convert_emit :: "u32 \<Rightarrow> nat \<Rightarrow> nat \<Rightarrow> u32 \<Rightarrow> nat \<times> bytes" where
  "convert_emit val bits outbits maxv =
     (if bits \<ge> outbits \<and> 0 < outbits then
        (let bits = bits - outbits in
         case convert_emit val bits outbits maxv of
           (left, out) \<Rightarrow> (left, ucast (drop_bit bits val AND maxv) # out))
      else (bits, []))"
  by pat_completeness auto
termination by (relation "measure (\<lambda>(val, bits, outbits, maxv). bits)") auto

declare convert_emit.simps [simp del]

fun convert_loop :: "u32 \<Rightarrow> nat \<Rightarrow> nat \<Rightarrow> nat \<Rightarrow> u32 \<Rightarrow> bytes \<Rightarrow> u32 \<times> nat \<times> bytes" where
  "convert_loop val bits outbits inbits maxv [] = (val, bits, [])"
| "convert_loop val bits outbits inbits maxv (x # xs) =
     (let val = push_bit inbits val OR ucast x;
          bits = bits + inbits
      in case convert_emit val bits outbits maxv of
           (bits, out) \<Rightarrow>
             (case convert_loop val bits outbits inbits maxv xs of
                (val, bits, out2) \<Rightarrow> (val, bits, out @ out2)))"

text \<open>
  The returned value and the bytes written from \<open>out[*outlen]\<close> on, whose number \<open>*outlen\<close> grows by.
  With \<open>outbits\<close> 0 the inner loop does not end, and from 32 on the shifts are undefined: crashes.
\<close>

definition bech32_convert_bits :: "nat \<Rightarrow> bytes \<Rightarrow> nat \<Rightarrow> bool \<Rightarrow> (bool \<times> bytes) option" where
  "bech32_convert_bits outbits input inbits pad = do {
     c_assert (0 < outbits \<and> outbits < 32 \<and> inbits < 32);
     let maxv = push_bit outbits (1 :: u32) - 1;
     let (val, bits, out) = convert_loop 0 0 outbits inbits maxv input;
     if pad then
       Some (True, if bits \<noteq> 0 then out @ [ucast (push_bit (outbits - bits) val AND maxv)] else out)
     else if push_bit (outbits - bits) val AND maxv \<noteq> 0 \<or> bits \<ge> inbits then Some (False, out)
     else Some (True, out) }"

section \<open>Segwit addresses\<close>

text \<open>The assertions are the sizes of the buffers on the stack.\<close>

definition segwit_addr_encode :: "bytes \<Rightarrow> int \<Rightarrow> bytes \<Rightarrow> (bool \<times> bytes) option" where
  "segwit_addr_encode hrp witver witprog =
     (if witver > 16 then Some (False, [])
      else if witver = 0 \<and> length witprog \<noteq> 20 \<and> length witprog \<noteq> 32 then Some (False, [])
      else if length witprog < 2 \<or> length witprog > 40 then Some (False, [])
      else do {
        let enc = (if witver > 0 then BECH32_ENCODING_BECH32M else BECH32_ENCODING_BECH32);
        (_, out) \<leftarrow> bech32_convert_bits 5 witprog 8 True;
        let data = of_int witver # out;
        c_assert (length data \<le> 65);
        bech32_encode hrp data 90 enc })"

text \<open>\<open>strncmp(a, b, n) == 0\<close>.\<close>

definition strncmp_eq :: "bytes \<Rightarrow> bytes \<Rightarrow> nat \<Rightarrow> bool" where
  "strncmp_eq a b n \<longleftrightarrow> take n (a @ [0]) = take n (b @ [0])"

text \<open>
  The returned value with the version, and the bytes written to \<open>witdata\<close>. \<open>hrp_actual\<close> is a
  string: its bytes up to the first NUL.
\<close>

definition segwit_addr_decode :: "bytes \<Rightarrow> bytes \<Rightarrow> (u8 option \<times> bytes) option" where
  "segwit_addr_decode hrp addr = do {
     let (enc, hrp_actual, data, data_len) = bech32_decode addr 90;
     c_assert (length hrp_actual \<le> 84 \<and> length data \<le> 84);
     case data_len of
       None \<Rightarrow> Some (None, [])
     | Some data_len \<Rightarrow>
         if enc = BECH32_ENCODING_NONE then Some (None, [])
         else if data_len = 0 \<or> data_len > 65 then Some (None, [])
         else if \<not> strncmp_eq hrp (takeWhile (\<lambda>c. c \<noteq> 0) hrp_actual) 84 then Some (None, [])
         else if data ! 0 > 16 then Some (None, [])
         else if data ! 0 = 0 \<and> enc \<noteq> BECH32_ENCODING_BECH32 then Some (None, [])
         else if data ! 0 > 0 \<and> enc \<noteq> BECH32_ENCODING_BECH32M then Some (None, [])
         else do {
           (ok, witdata) \<leftarrow> bech32_convert_bits 8 (take (data_len - 1) (drop 1 data)) 5 False;
           if \<not> ok then Some (None, witdata)
           else if length witdata < 2 \<or> length witdata > 40 then Some (None, witdata)
           else if data ! 0 = 0 \<and> length witdata \<noteq> 20 \<and> length witdata \<noteq> 32 then Some (None, witdata)
           else Some (Some (data ! 0), witdata) } }"

section \<open>Groups of bits as digits of a number\<close>

text \<open>The number a list of groups of \<open>b\<close> bits stands for, and its last \<open>n\<close> digits.\<close>

definition bits_value :: "nat \<Rightarrow> bytes \<Rightarrow> nat" where
  "bits_value b = foldl (\<lambda>n x. n * 2 ^ b + unat x) 0"

fun digits :: "nat \<Rightarrow> nat \<Rightarrow> nat \<Rightarrow> bytes" where
  "digits b 0 n = []"
| "digits b (Suc k) n = digits b k (n div 2 ^ b) @ [of_nat (n mod 2 ^ b)]"

lemma length_digits [simp]: "length (digits b k n) = k"
  by (induction k arbitrary: n) simp_all

lemma digits_add: "digits b (j + k) n = digits b j (n div 2 ^ (b * k)) @ digits b k n"
proof (induction k arbitrary: n)
  case (Suc k)
  have "n div 2 ^ b div 2 ^ (b * k) = n div 2 ^ (b * Suc k)" by (simp add: div_mult2_eq [symmetric] power_add)
  then show ?case using Suc [of "n div 2 ^ b"] by simp
qed simp

lemma bits_value_foldl: "foldl (\<lambda>n x. n * 2 ^ b + unat x) n xs = n * 2 ^ (b * length xs) + bits_value b (xs :: bytes)"
proof (induction xs arbitrary: n)
  case (Cons x xs)
  show ?case using Cons [of "n * 2 ^ b + unat x"] Cons [of "unat x"] by (simp add: bits_value_def power_add algebra_simps)
qed (simp add: bits_value_def)

lemma bits_value_simps [simp]:
  "bits_value b [] = 0" "bits_value b (x # xs) = unat x * 2 ^ (b * length xs) + bits_value b xs"
  "bits_value b (xs @ ys) = bits_value b xs * 2 ^ (b * length ys) + bits_value b ys"
proof -
  show "bits_value b (x # xs) = unat x * 2 ^ (b * length xs) + bits_value b xs"
    using bits_value_foldl [of b "unat x" xs] by (simp add: bits_value_def)
  show "bits_value b (xs @ ys) = bits_value b xs * 2 ^ (b * length ys) + bits_value b ys"
    using bits_value_foldl [of b "bits_value b xs" ys] by (simp add: bits_value_def)
qed (simp add: bits_value_def)

lemma bits_value_less: "\<forall>x \<in> set xs. unat x < 2 ^ b \<Longrightarrow> bits_value b xs < 2 ^ (b * length xs)"
proof (induction xs)
  case (Cons x xs)
  have "bits_value b (x # xs) < unat x * 2 ^ (b * length xs) + 2 ^ (b * length xs)" using Cons by simp
  also have "\<dots> = Suc (unat x) * 2 ^ (b * length xs)" by simp
  also have "\<dots> \<le> 2 ^ b * 2 ^ (b * length xs)" using Cons.prems by (intro mult_right_mono) simp_all
  finally show ?case by (simp add: power_add)
qed simp

lemma digits_bits_value: "\<forall>x \<in> set xs. unat x < 2 ^ b \<Longrightarrow> digits b (length xs) (bits_value b xs) = xs"
proof (induction xs rule: rev_induct)
  case (snoc x xs)
  then show ?case by (simp add: div_add1_eq word_unat_eq_iff)
qed simp

lemma bits_value_digits: "b \<le> 8 \<Longrightarrow> bits_value b (digits b k n) = n mod 2 ^ (b * k)"
proof (induction k arbitrary: n)
  case (Suc k)
  have "n mod 2 ^ b < 2 ^ b" by simp
  also have "\<dots> \<le> 2 ^ 8" using Suc.prems by (intro power_increasing) simp_all
  finally have "n mod 2 ^ b < 2 ^ 8" .
  then have "unat (of_nat (n mod 2 ^ b) :: u8) = n mod 2 ^ b" by (simp add: unsigned_of_nat take_bit_nat_eq_self)
  moreover have "n mod (2 ^ b * 2 ^ (b * k)) = 2 ^ b * (n div 2 ^ b mod 2 ^ (b * k)) + n mod 2 ^ b" by (rule mod_mult2_eq)
  ultimately show ?case using Suc by (simp add: power_add mult.commute)
qed simp

section \<open>The conversion\<close>

lemma emit_value:
  assumes "b + o' \<le> 32"
  shows "(ucast (drop_bit b (of_nat n :: u32) AND (push_bit o' 1 - 1)) :: u8) = of_nat (n div 2 ^ b mod 2 ^ o')"
proof -
  have "n div 2 ^ b mod 2 ^ o' = take_bit o' (drop_bit b n)" by (simp add: take_bit_eq_mod drop_bit_eq_div)
  moreover have "push_bit o' 1 - 1 = (mask o' :: u32)" by (simp add: mask_eq_exp_minus_1)
  ultimately show ?thesis
    by (intro bit_word_eqI) (use assms in \<open>auto simp: bit_simps\<close>)
qed

lemma convert_emit_eq:
  assumes "0 < o'" "bits \<le> 32"
  shows "convert_emit (of_nat n) bits o' (push_bit o' 1 - 1) = (bits mod o', digits o' (bits div o') (n div 2 ^ (bits mod o')))"
  using assms(2)
proof (induction bits rule: less_induct)
  case (less bits)
  show ?case
  proof (cases "o' \<le> bits")
    case True
    define r k where "r = bits mod o'" and "k = (bits - o') div o'"
    have b: "bits - o' = r + o' * k" "(bits - o') mod o' = r" "bits div o' = 1 + k"
      using True assms(1) by (simp_all add: r_def k_def le_mod_geq le_div_geq)
    have "(ucast (drop_bit (bits - o') (of_nat n :: u32) AND (push_bit o' 1 - 1)) :: u8) = of_nat (n div 2 ^ (bits - o') mod 2 ^ o')"
      using True less.prems by (intro emit_value) simp
    moreover have "n div 2 ^ r div 2 ^ (o' * k) = n div 2 ^ (bits - o')" by (simp add: b(1) power_add div_mult2_eq)
    moreover have "convert_emit (of_nat n) (bits - o') o' (push_bit o' 1 - 1) = (r, digits o' k (n div 2 ^ r))"
      using less.IH [of "bits - o'"] True assms(1) less.prems b(2) by (simp add: k_def)
    ultimately have "convert_emit (of_nat n) bits o' (push_bit o' 1 - 1) = (r, digits o' 1 (n div 2 ^ r div 2 ^ (o' * k)) @ digits o' k (n div 2 ^ r))"
      using True assms(1) by (subst convert_emit.simps) simp
    then show ?thesis unfolding b(3) digits_add by (simp add: r_def)
  next
    case False
    then show ?thesis by (subst convert_emit.simps) simp
  qed
qed

lemma value_shift:
  assumes "unat (x :: u8) < 2 ^ i"
  shows "push_bit i (of_nat n :: u32) OR ucast x = of_nat (n * 2 ^ i + unat x)"
proof -
  have "take_bit i x = x" using assms by (simp only: take_bit_self_unat)
  then have "\<not> bit x j" if "i \<le> j" for j using that by (metis bit_take_bit_iff not_le)
  then have "push_bit i (of_nat n :: u32) AND ucast x = 0"
    by (intro bit_word_eqI) (auto simp: bit_simps not_le)
  then have "push_bit i (of_nat n :: u32) OR ucast x = push_bit i (of_nat n) + ucast x" by (simp add: disjunctive_add_eq_or)
  then show ?thesis by (simp add: push_bit_eq_mult)
qed

text \<open>The loop, from \<open>r\<close> pending bits at the end of a number.\<close>

lemma convert_loop_eq:
  assumes "0 < o'" "o' + i \<le> 33" "r < o'" "\<forall>x \<in> set xs. unat x < 2 ^ i"
    and "m = n * 2 ^ (i * length xs) + bits_value i xs"
  shows "convert_loop (of_nat n) r o' i (push_bit o' 1 - 1) xs =
    (of_nat m, (r + i * length xs) mod o', digits o' ((r + i * length xs) div o') (m div 2 ^ ((r + i * length xs) mod o')))"
  using assms(3-5)
proof (induction xs arbitrary: n r)
  case (Cons x xs)
  define n1 r1 k1 where "n1 = n * 2 ^ i + unat x" and "r1 = (r + i) mod o'" and "k1 = (r + i) div o'"
  define r2 k2 where "r2 = (r1 + i * length xs) mod o'" and "k2 = (r1 + i * length xs) div o'"
  have v: "push_bit i (of_nat n :: u32) OR ucast x = of_nat n1" using Cons.prems(2) by (simp add: n1_def value_shift)
  have e: "convert_emit (of_nat n1) (r + i) o' (push_bit o' 1 - 1) = (r1, digits o' k1 (n1 div 2 ^ r1))"
    using convert_emit_eq [of o' "r + i" n1] assms(1,2) Cons.prems(1) by (simp add: r1_def k1_def)
  have m: "m = n1 * 2 ^ (i * length xs) + bits_value i xs" using Cons.prems(3) by (simp add: n1_def power_add algebra_simps)
  have l: "convert_loop (of_nat n1) r1 o' i (push_bit o' 1 - 1) xs = (of_nat m, r2, digits o' k2 (m div 2 ^ r2))"
    using Cons.IH [OF _ _ m, of r1] assms(1) Cons.prems(2) by (simp add: r1_def r2_def k2_def)
  have sum: "r + i * length (x # xs) = o' * k1 + (r1 + i * length xs)" by (simp add: r1_def k1_def)
  have r: "(r + i * length (x # xs)) mod o' = r2" "(r + i * length (x # xs)) div o' = k1 + k2"
    unfolding sum r2_def k2_def using assms(1) by simp_all
  have "r1 + i * length xs = o' * k2 + r2" by (simp add: r2_def k2_def)
  then have "m div 2 ^ r2 div 2 ^ (o' * k2) = m div 2 ^ (i * length xs) div 2 ^ r1"
    by (metis add.commute div_mult2_eq power_add)
  also have "\<dots> = n1 div 2 ^ r1" using bits_value_less [of xs i] Cons.prems(2) by (simp add: m)
  finally have "digits o' k1 (n1 div 2 ^ r1) @ digits o' k2 (m div 2 ^ r2) = digits o' (k1 + k2) (m div 2 ^ r2)"
    by (simp add: digits_add)
  then show ?case using v e l unfolding r by (simp add: Let_def)
qed simp

lemma push_bit_of_nat_u32: "push_bit k (of_nat n :: u32) = of_nat (n * 2 ^ k)"
  by (simp add: push_bit_eq_mult)

lemma low_mask: "o' < 32 \<Longrightarrow> (of_nat n :: u32) AND (push_bit o' 1 - 1) = of_nat (n mod 2 ^ o')"
  by (simp add: mask_eq_exp_minus_1 [symmetric] take_bit_eq_mask [symmetric] take_bit_of_nat [symmetric] flip: take_bit_eq_mod)

lemma of_nat_eq_0:
  assumes "n < 2 ^ o'" "o' < 32"
  shows "(of_nat n :: u32) = 0 \<longleftrightarrow> n = 0"
proof -
  have "n < 2 ^ 32" using assms by (meson less_imp_le less_le_trans one_le_numeral power_increasing)
  then show ?thesis by (simp add: word_unat_eq_iff unsigned_of_nat take_bit_nat_eq_self)
qed

lemma convert_bits_eq:
  assumes "0 < o'" "o' + i \<le> 33" "o' < 32" "i < 32" "\<forall>x \<in> set xs. unat x < 2 ^ i"
  defines "n \<equiv> bits_value i xs" and "r \<equiv> i * length xs mod o'" and "k \<equiv> i * length xs div o'"
  shows "bech32_convert_bits o' xs i True =
      Some (True, if r = 0 then digits o' k n else digits o' (Suc k) (n * 2 ^ (o' - r)))"
    "bech32_convert_bits o' xs i False = Some (n mod 2 ^ r = 0 \<and> r < i, digits o' k (n div 2 ^ r))"
proof -
  have l: "convert_loop 0 0 o' i (push_bit o' 1 - 1) xs = (of_nat n, r, digits o' k (n div 2 ^ r))"
    using convert_loop_eq [OF assms(1,2,1,5), of n 0] by (simp add: n_def r_def k_def)
  have r: "r < o'" using assms(1) by (simp add: r_def)
  have shift: "push_bit (o' - r) (of_nat n :: u32) AND (push_bit o' 1 - 1) = of_nat (n * 2 ^ (o' - r) mod 2 ^ o')"
    unfolding push_bit_of_nat_u32 by (rule low_mask [OF assms(3)])
  have split: "(2 :: nat) ^ o' = 2 ^ r * 2 ^ (o' - r)" using r by (simp flip: power_add)
  have "n * 2 ^ (o' - r) mod 2 ^ o' = (n mod 2 ^ r) * 2 ^ (o' - r)" unfolding split by (simp add: mult_mod_left)
  then have "n * 2 ^ (o' - r) mod 2 ^ o' = 0 \<longleftrightarrow> n mod 2 ^ r = 0" by simp
  then have zero: "(of_nat (n * 2 ^ (o' - r) mod 2 ^ o') :: u32) = 0 \<longleftrightarrow> n mod 2 ^ r = 0"
    by (subst of_nat_eq_0 [OF _ assms(3)]) simp_all
  have "n * 2 ^ (o' - r) div 2 ^ o' = n div 2 ^ r" unfolding split by simp
  moreover have "(ucast (of_nat (n * 2 ^ (o' - r) mod 2 ^ o') :: u32) :: u8) = of_nat (n * 2 ^ (o' - r) mod 2 ^ o')"
    by (rule bit_word_eqI) (simp add: bit_simps)
  ultimately have last: "digits o' k (n div 2 ^ r) @ [ucast (of_nat (n * 2 ^ (o' - r) mod 2 ^ o') :: u32)] = digits o' (Suc k) (n * 2 ^ (o' - r))"
    by simp
  show "bech32_convert_bits o' xs i True =
      Some (True, if r = 0 then digits o' k n else digits o' (Suc k) (n * 2 ^ (o' - r)))"
    using assms(1,3,4) last by (simp add: bech32_convert_bits_def l shift Let_def del: push_bit_of_1)
  show "bech32_convert_bits o' xs i False = Some (n mod 2 ^ r = 0 \<and> r < i, digits o' k (n div 2 ^ r))"
    using assms(1,3,4) zero by (auto simp: bech32_convert_bits_def l shift Let_def simp del: push_bit_of_1)
qed

lemma digits_less: "b \<le> 8 \<Longrightarrow> x \<in> set (digits b k n) \<Longrightarrow> unat x < 2 ^ b"
proof (induction k arbitrary: n)
  case (Suc k)
  have "(2 :: nat) ^ b \<le> 2 ^ 8" using Suc.prems(1) by (intro power_increasing) simp_all
  then have "n mod 2 ^ b < 2 ^ 8" by (meson mod_less_divisor less_le_trans zero_less_numeral zero_less_power)
  then have "unat (of_nat (n mod 2 ^ b) :: u8) = n mod 2 ^ b" by (simp add: unsigned_of_nat take_bit_nat_eq_self)
  then show ?case using Suc by auto
qed simp

lemma unat_u8: "unat (x :: u8) < 2 ^ 8"
proof -
  have "unat x < 2 ^ LENGTH(8)" by (rule unsigned_less)
  then show ?thesis by simp
qed

lemma div_up_five:
  fixes n :: nat
  shows "5 * ((n + 4) div 5) = n + (if n mod 5 = 0 then 0 else 5 - n mod 5)"
    "(n + 4) div 5 = (if n mod 5 = 0 then n div 5 else Suc (n div 5))"
proof -
  define q r where "q = n div 5" and "r = n mod 5"
  have n: "n = 5 * q + r" "r < 5" by (simp_all add: q_def r_def)
  have "n + 4 = (r + 4) + q * 5" using n(1) by simp
  then have "(n + 4) div 5 = ((r + 4) + q * 5) div 5" by (rule arg_cong)
  also have "\<dots> = q + (r + 4) div 5" by (rule div_mult_self1) simp
  also have "(r + 4) div 5 = (if r = 0 then 0 else 1)" using n(2) by (auto simp: le_div_geq)
  finally have d: "(n + 4) div 5 = (if r = 0 then q else Suc q)" by simp
  then show "(n + 4) div 5 = (if n mod 5 = 0 then n div 5 else Suc (n div 5))" by (simp add: q_def r_def)
  show "5 * ((n + 4) div 5) = n + (if n mod 5 = 0 then 0 else 5 - n mod 5)"
    unfolding d r_def [symmetric] using n by (cases "r = 0") simp_all
qed

text \<open>To groups of five bits and back.\<close>

lemma convert_there_and_back:
  "\<exists>five. bech32_convert_bits 5 xs 8 True = Some (True, five) \<and> length five = (8 * length xs + 4) div 5 \<and>
    data_ok five \<and> bech32_convert_bits 8 five 5 False = Some (True, xs)"
proof -
  define n r p k where "n = bits_value 8 xs" and "r = 8 * length xs mod 5"
    and "p = (if 8 * length xs mod 5 = 0 then 0 else 5 - 8 * length xs mod 5)" and "k = (8 * length xs + 4) div 5"
  define five where "five = digits 5 k (n * 2 ^ p)"
  have xs: "\<forall>x \<in> set xs. unat x < 2 ^ 8" by (simp add: unat_u8 [simplified])
  have k: "5 * k = 8 * length xs + p" "p < 5" unfolding k_def p_def by (rule div_up_five) simp
  have "k = (if r = 0 then 8 * length xs div 5 else Suc (8 * length xs div 5))" unfolding k_def r_def by (rule div_up_five)
  then have five: "bech32_convert_bits 5 xs 8 True = Some (True, five)"
    using convert_bits_eq(1) [of 5 8 xs] xs by (auto simp: five_def n_def r_def p_def)
  have ok: "\<forall>x \<in> set five. unat x < 2 ^ 5" using digits_less [of 5 _ k] by (auto simp: five_def)
  have "n < 2 ^ (8 * length xs)" unfolding n_def using xs by (rule bits_value_less)
  then have "n * 2 ^ p < 2 ^ (5 * k)" unfolding k(1) by (simp add: power_add)
  then have v: "bits_value 5 five = n * 2 ^ p" by (simp add: five_def bits_value_digits)
  have "5 * length five mod 8 = p" "5 * length five div 8 = length xs" using k by (simp_all add: five_def)
  then have "bech32_convert_bits 8 five 5 False = Some (True, digits 8 (length xs) n)"
    using convert_bits_eq(2) [of 8 5 five] ok k(2) by (simp add: v)
  also have "digits 8 (length xs) n = xs" unfolding n_def using xs by (rule digits_bits_value)
  finally show ?thesis using five ok by (auto simp: data_ok_def five_def k_def)
qed

lemma takeWhile_hrp: "hrp_ok hrp \<Longrightarrow> takeWhile (\<lambda>c. c \<noteq> 0) (hrp @ [0]) = hrp"
  by (subst takeWhile_append2) (auto simp: hrp_ok_def)

text \<open>What is encoded, for every version: its lowest byte is a 5-bit value.\<close>

lemma segwit_encoded:
  assumes "hrp_ok hrp" "ver \<le> 16" "ver mod 256 < 32" "ver = 0 \<longrightarrow> length prog = 20 \<or> length prog = 32"
    and "2 \<le> length prog" "length prog \<le> 40" "length hrp + 8 + (8 * length prog + 4) div 5 \<le> 90"
  shows "\<exists>five addr. bech32_convert_bits 8 five 5 False = Some (True, prog) \<and> length five \<le> 64 \<and>
    segwit_addr_encode hrp ver prog = Some (True, addr @ [0]) \<and> length addr = length hrp + 8 + (8 * length prog + 4) div 5 \<and>
    (hrp = [] \<longrightarrow> fst (bech32_decode addr 90) = BECH32_ENCODING_NONE) \<and>
    (hrp \<noteq> [] \<longrightarrow> bech32_decode addr 90 = (if ver > 0 then BECH32_ENCODING_BECH32M else BECH32_ENCODING_BECH32,
      hrp @ [0], of_int ver # five, Some (1 + length five)))"
proof -
  obtain five where five: "bech32_convert_bits 5 prog 8 True = Some (True, five)" "length five = (8 * length prog + 4) div 5"
      "data_ok five" "bech32_convert_bits 8 five 5 False = Some (True, prog)"
    using convert_there_and_back by blast
  define enc where "enc = (if ver > 0 then BECH32_ENCODING_BECH32M else BECH32_ENCODING_BECH32)"
  obtain c where c: "bech32_final_constant enc = Some c" by (cases "ver > 0") (auto simp: enc_def bech32_final_constant_def)
  have c30: "take_bit 30 c = c" using c by (auto simp: bech32_final_constant_def split: if_splits)
  let ?data = "of_int ver # five"
  have "uint (of_int ver :: u8) = ver mod 256" by (simp add: uint_word_of_int)
  then have "unat (of_int ver :: u8) < 32" using assms(3) by (simp add: nat_less_iff flip: nat_uint_eq)
  then have data: "data_ok ?data" using five(3) by (simp add: data_ok_def)
  have len: "length hrp + 7 + length ?data \<le> 90" "length five \<le> 64" using assms(6,7) five(2) by simp_all
  let ?cs = "map chr (bech32_values hrp ?data c)"
  let ?addr = "hrp @ 49 # ?cs"
  have cs: "49 \<notin> set ?cs" "length ?cs = length ?data + 6"
    using bech32_values_props(1,2) [OF data c30, of hrp] chr_props(4) by fastforce+
  have "segwit_addr_encode hrp ver prog = Some (True, ?addr @ [0])"
    using assms(2,4-6) five(1) len(2) encode_eq [OF assms(1) data len(1) c] by (auto simp: segwit_addr_encode_def enc_def)
  moreover have "length ?addr = length hrp + 8 + (8 * length prog + 4) div 5" using cs(2) five(2) by simp
  moreover have "hrp = [] \<longrightarrow> fst (bech32_decode ?addr 90) = BECH32_ENCODING_NONE" using decode_no_prefix [OF cs(1), of 90] by auto
  moreover have "hrp \<noteq> [] \<longrightarrow> bech32_decode ?addr 90 = (if ver > 0 then BECH32_ENCODING_BECH32M else BECH32_ENCODING_BECH32,
      hrp @ [0], of_int ver # five, Some (1 + length five))"
    using decode_encoded [OF assms(1) _ data len(1) c] by (simp add: enc_def)
  ultimately show ?thesis using five(4) len(2) by (intro exI conjI)
qed

lemma segwit_decode_refused:
  assumes "fst (bech32_decode addr 90) = BECH32_ENCODING_NONE" "length addr \<le> 90"
  shows "segwit_addr_decode hrp addr = Some (None, [])"
proof -
  obtain h d n where d: "bech32_decode addr 90 = (BECH32_ENCODING_NONE, h, d, n)"
    using assms(1) by (metis prod.collapse)
  then have "length h \<le> 84 \<and> length d \<le> 84" using decode_bounds [OF d] assms(2) by auto
  then show ?thesis using d by (cases n) (simp_all add: segwit_addr_decode_def)
qed

text \<open>The checks of the decoder on what it has read.\<close>

lemma segwit_decode_checks:
  assumes "bech32_decode addr 90 = (enc, hrp @ [0], w # five, Some (1 + length five))" "enc \<noteq> BECH32_ENCODING_NONE"
    and "hrp_ok hrp" "length hrp \<le> 83" "length five \<le> 64"
    and "bech32_convert_bits 8 five 5 False = Some (True, prog)" "2 \<le> length prog" "length prog \<le> 40"
  shows "segwit_addr_decode hrp addr =
    (if 16 < w \<or> w = 0 \<and> enc \<noteq> BECH32_ENCODING_BECH32 \<or> 0 < w \<and> enc \<noteq> BECH32_ENCODING_BECH32M then Some (None, [])
     else Some (if w = 0 \<and> length prog \<noteq> 20 \<and> length prog \<noteq> 32 then None else Some w, prog))"
proof -
  have "length (hrp @ [0]) \<le> 84 \<and> length (w # five) \<le> 84" using assms(4,5) by simp
  moreover have "strncmp_eq hrp (takeWhile (\<lambda>c. c \<noteq> 0) (hrp @ [0])) 84" using takeWhile_hrp [OF assms(3)] by (simp add: strncmp_eq_def)
  ultimately show ?thesis using assms(1,2,5-8) by (simp add: segwit_addr_decode_def)
qed

text \<open>A version as its lowest byte: what the decoder looks at.\<close>

lemma version_byte:
  assumes "ver \<le> 16" "ver mod 256 < 32"
  shows "(of_int ver :: u8) = 0 \<longleftrightarrow> ver mod 256 = 0" "0 \<le> ver \<Longrightarrow> (of_int ver :: u8) \<le> 16"
    "0 \<le> ver \<Longrightarrow> ver mod 256 = ver"
proof -
  have u: "uint (of_int ver :: u8) = ver mod 256" by (simp add: uint_word_of_int)
  then show "(of_int ver :: u8) = 0 \<longleftrightarrow> ver mod 256 = 0" by (simp flip: uint_0_iff)
  show m: "0 \<le> ver \<Longrightarrow> ver mod 256 = ver" using assms(1) by simp
  then show "0 \<le> ver \<Longrightarrow> (of_int ver :: u8) \<le> 16" using u assms(1) by (simp add: word_le_def)
qed

section \<open>Properties\<close>

text \<open>C15: Segwit addresses, for every version, program and prefix: \<open>segwit_addr_encode\<close> writes an address
  exactly when the version is at most 16 with a lowest byte below 32, the program has 2 to 40 bytes
  (20 or 32 for version 0), the prefix is printable without capitals and the whole fits in 90
  characters; the address has the expected length, so that with its NUL it fits the documented
  buffer of 73 bytes more than the prefix. For a version of 0 to 16 and a prefix that is not empty,
  \<open>segwit_addr_decode\<close> reads the same version and program back. With an empty prefix it refuses the
  address. Negative versions are not refused: a multiple of 256 is encoded as version 0 and read
  back as that, if the program has 20 or 32 bytes; the others that are encoded are refused when
  they are decoded. No buffer on the stack overflows.\<close>

theorem segwit_round_trip:
  "if hrp_ok hrp \<and> ver \<le> 16 \<and> ver mod 256 < 32 \<and> (ver = 0 \<longrightarrow> length prog = 20 \<or> length prog = 32) \<and> 2 \<le> length prog \<and>
      length prog \<le> 40 \<and> length hrp + 8 + (8 * length prog + 4) div 5 \<le> 90
    then \<exists>addr. segwit_addr_encode hrp ver prog = Some (True, addr @ [0]) \<and>
      length addr = length hrp + 8 + (8 * length prog + 4) div 5 \<and> length (addr @ [0]) \<le> 73 + length hrp \<and>
      (if hrp = [] then segwit_addr_decode hrp addr = Some (None, [])
       else if 0 \<le> ver then segwit_addr_decode hrp addr = Some (Some (of_int ver), prog)
       else if ver mod 256 \<noteq> 0 then segwit_addr_decode hrp addr = Some (None, [])
       else segwit_addr_decode hrp addr = Some (if length prog = 20 \<or> length prog = 32 then Some 0 else None, prog))
    else \<exists>out. segwit_addr_encode hrp ver prog = Some (False, out)"
  (is "if ?good then ?then else ?else")
proof (cases ?good)
  case True
  then have g: "hrp_ok hrp" "ver \<le> 16" "ver mod 256 < 32" "ver = 0 \<longrightarrow> length prog = 20 \<or> length prog = 32"
      "2 \<le> length prog" "length prog \<le> 40" "length hrp + 8 + (8 * length prog + 4) div 5 \<le> 90" by simp_all
  obtain five addr where
    five: "bech32_convert_bits 8 five 5 False = Some (True, prog)" "length five \<le> 64"
    and addr: "segwit_addr_encode hrp ver prog = Some (True, addr @ [0])" "length addr = length hrp + 8 + (8 * length prog + 4) div 5"
      "hrp = [] \<longrightarrow> fst (bech32_decode addr 90) = BECH32_ENCODING_NONE"
    and dec: "hrp \<noteq> [] \<longrightarrow> bech32_decode addr 90 = (if ver > 0 then BECH32_ENCODING_BECH32M else BECH32_ENCODING_BECH32,
        hrp @ [0], of_int ver # five, Some (1 + length five))"
    using segwit_encoded [OF g] by (elim exE conjE) (rule that)
  have v: "(of_int ver :: u8) = 0 \<longleftrightarrow> ver mod 256 = 0" "0 \<le> ver \<Longrightarrow> (of_int ver :: u8) \<le> 16" "0 \<le> ver \<Longrightarrow> ver mod 256 = ver"
    by (fact version_byte [OF g(2,3)])+
  define w :: u8 where "w = of_int ver"
  have "(8 * length prog + 4) div 5 \<le> 64" using True by auto
  moreover have "segwit_addr_decode hrp addr = Some (None, [])" if "hrp = []"
    using segwit_decode_refused addr(2) addr(3) [rule_format, OF that] True by simp
  moreover have "segwit_addr_decode hrp addr = (if 0 \<le> ver then Some (Some (of_int ver), prog)
      else if ver mod 256 \<noteq> 0 then Some (None, []) else Some (if length prog = 20 \<or> length prog = 32 then Some 0 else None, prog))"
    if "hrp \<noteq> []"
  proof -
    have "hrp_ok hrp" "length hrp \<le> 83" "2 \<le> length prog" "length prog \<le> 40" using True by auto
    note c = segwit_decode_checks [OF dec [rule_format, OF that, folded w_def] _ this(1,2) five(2,1) this(3,4)]
    have checks: "segwit_addr_decode hrp addr =
      (if 16 < w \<or> w = 0 \<and> 0 < ver \<or> 0 < w \<and> \<not> 0 < ver then Some (None, [])
       else Some (if w = 0 \<and> length prog \<noteq> 20 \<and> length prog \<noteq> 32 then None else Some w, prog))"
      by (cases "0 < ver") (subst c, simp, simp)+
    show ?thesis
    proof (cases "0 \<le> ver")
      case nonneg: True
      have "w = 0 \<longleftrightarrow> ver = 0" "\<not> 16 < w" using v(1,2) v(3) [OF nonneg] nonneg by (simp_all add: w_def not_less)
      moreover have "ver = 0 \<Longrightarrow> length prog = 20 \<or> length prog = 32" using True by blast
      ultimately show ?thesis unfolding checks w_def [symmetric] using nonneg by (cases "ver = 0") (simp_all add: word_gt_0)
    next
      case False
      then have "\<not> 0 < ver" "w = 0 \<longleftrightarrow> ver mod 256 = 0" using v(1) by (simp_all add: w_def)
      then show ?thesis unfolding checks using False by (cases "ver mod 256 = 0") (simp_all add: word_gt_0)
    qed
  qed
  ultimately have ?then using addr(1,2) by (cases "hrp = []") auto
  then show ?thesis by (subst if_P [OF True])
next
  case False
  obtain five where five: "bech32_convert_bits 5 prog 8 True = Some (True, five)" "length five = (8 * length prog + 4) div 5"
    using convert_there_and_back by blast
  have "length five \<le> 64" if "length prog \<le> 40" using that five(2) by auto
  moreover have "drop_bit 5 (of_int ver :: u8) \<noteq> 0" if "\<not> ver mod 256 < 32"
  proof -
    have "uint (of_int ver :: u8) = ver mod 256" by (simp add: uint_word_of_int)
    then have "\<not> unat (of_int ver :: u8) < 32" using that by (simp add: nat_less_iff flip: nat_uint_eq)
    then show ?thesis by (simp add: drop_five_eq_0)
  qed
  ultimately have "\<exists>out. segwit_addr_encode hrp ver prog = Some (False, out)"
    using False five
    by (cases "hrp_ok hrp") (auto simp: segwit_addr_encode_def bech32_encode_def encode_bad_hrp encode_check_hrp_eq not_less)
  then show ?thesis by (subst if_not_P [OF False])
qed

theorem segwit_round_trip_witness:
  "if hrp_ok (ascii ''bc'') \<and> - 256 \<le> (16 :: int) \<and> - 256 mod 256 < (32 :: int) \<and>
      ((- 256 :: int) = 0 \<longrightarrow> length (replicate 20 7 :: bytes) = 20 \<or> length (replicate 20 7 :: bytes) = 32) \<and>
      2 \<le> length (replicate 20 7 :: bytes) \<and> length (replicate 20 7 :: bytes) \<le> 40 \<and>
      length (ascii ''bc'') + 8 + (8 * length (replicate 20 7 :: bytes) + 4) div 5 \<le> 90
    then \<exists>addr. segwit_addr_encode (ascii ''bc'') (- 256) (replicate 20 7) = Some (True, addr @ [0]) \<and>
      length addr = length (ascii ''bc'') + 8 + (8 * length (replicate 20 7 :: bytes) + 4) div 5 \<and>
      length (addr @ [0]) \<le> 73 + length (ascii ''bc'') \<and>
      (if ascii ''bc'' = [] then segwit_addr_decode (ascii ''bc'') addr = Some (None, [])
       else if 0 \<le> (- 256 :: int) then segwit_addr_decode (ascii ''bc'') addr = Some (Some (of_int (- 256)), replicate 20 7)
       else if - 256 mod 256 \<noteq> (0 :: int) then segwit_addr_decode (ascii ''bc'') addr = Some (None, [])
       else segwit_addr_decode (ascii ''bc'') addr = Some (if length (replicate 20 7 :: bytes) = 20 \<or> length (replicate 20 7 :: bytes) = 32
         then Some 0 else None, replicate 20 7))
    else \<exists>out. segwit_addr_encode (ascii ''bc'') (- 256) (replicate 20 7) = Some (False, out)"
  by (rule segwit_round_trip)

text \<open>C16: Any string is safe to decode: \<open>segwit_addr_decode\<close> always returns, keeps to its buffers of 84 bytes
  on the stack and writes at most the 40 bytes of the documented buffer of the program; what it
  accepts has at most 90 characters, a version up to 16 and a program of 2 to 40 bytes, 20 or 32 for
  version 0.\<close>

theorem segwit_decode_safe:
  "\<exists>r out. segwit_addr_decode hrp addr = Some (r, out) \<and> length out \<le> 40 \<and>
    (\<forall>v. r = Some v \<longrightarrow> v \<le> 16 \<and> 2 \<le> length out \<and> (v = 0 \<longrightarrow> length out = 20 \<or> length out = 32) \<and> length addr \<le> 90)"
proof -
  obtain enc h data len where d: "bech32_decode addr 90 = (enc, h, data, len)" by (rule prod_cases4)
  note b = decode_bounds [OF d]
  have size: "length h \<le> 84 \<and> length data \<le> 84"
  proof (cases "length addr \<le> 90")
    case False
    then show ?thesis using d by (simp add: bech32_decode_def)
  qed (use b in auto)
  have conv: "\<exists>ok out. bech32_convert_bits 8 (take (n - 1) (drop 1 data)) 5 False = Some (ok, out) \<and> length out \<le> 40"
    if "enc \<noteq> BECH32_ENCODING_NONE" "n \<le> 65" for n
  proof -
    have "\<forall>x \<in> set (take (n - 1) (drop 1 data)). unat x < 2 ^ 5"
      using b that(1) by (auto simp: data_ok_def dest!: in_set_takeD in_set_dropD)
    moreover have "5 * min (length data - 1) (n - 1) div 8 \<le> 40" using that(2) by auto
    ultimately show ?thesis using convert_bits_eq(2) [of 8 5 "take (n - 1) (drop 1 data)"] by (simp add: min.commute)
  qed
  show ?thesis
  proof (cases "enc = BECH32_ENCODING_NONE \<or> len = None")
    case True
    then show ?thesis using size by (auto simp: segwit_addr_decode_def d split: option.split)
  next
    case False
    then have len: "len = Some (length data)" "length addr \<le> 90" using b by auto
    show ?thesis
    proof (cases "length data \<le> 65")
      case True
      from conv [OF _ True] False obtain ok out where
        "bech32_convert_bits 8 (take (length data - 1) (drop 1 data)) 5 False = Some (ok, out)" "length out \<le> 40" by blast
      then show ?thesis using size False len by (auto simp: segwit_addr_decode_def d not_less not_le)
    next
      case False
      then show ?thesis using size len by (auto simp: segwit_addr_decode_def d)
    qed
  qed
qed

theorem segwit_decode_safe_witness:
  "\<exists>r out. segwit_addr_decode (ascii ''bc'') (replicate 80 49) = Some (r, out) \<and> length out \<le> 40 \<and>
    (\<forall>v. r = Some v \<longrightarrow> v \<le> 16 \<and> 2 \<le> length out \<and> (v = 0 \<longrightarrow> length out = 20 \<or> length out = 32) \<and>
      length (replicate 80 49 :: bytes) \<le> 90)"
  by (rule segwit_decode_safe)

end
