(* ===== verification/Varint.thy ===== *)
theory Varint
  imports Codes
begin

text \<open>
  \<open>varint.c\<close>: the little-endian variable-length integer of the Bitcoin protocol. Unlike
  \<open>bigsize.c\<close>, the reader accepts every encoding of a value, not only the shortest. The
  \<open>int64_t\<close> out-parameter is modelled by its 64 bits.
\<close>

definition VARINT_MAX_LEN :: nat where
  "VARINT_MAX_LEN = 9"

definition varint_size :: "u64 \<Rightarrow> nat" where
  "varint_size v =
     (if v < 0xfd then 1
      else if v \<le> 0xffff then 3
      else if v \<le> 0xffffffff then 5
      else 9)"

definition varint_put :: "u64 \<Rightarrow> bytes" where
  "varint_put v =
     (if v < 0xfd then [ucast v]
      else if v \<le> 0xffff then [0xfd, ucast v, ucast (drop_bit 8 v)]
      else if v \<le> 0xffffffff then
        [0xfe, ucast v, ucast (drop_bit 8 v), ucast (drop_bit 16 v), ucast (drop_bit 24 v)]
      else
        [0xff, ucast v, ucast (drop_bit 8 v), ucast (drop_bit 16 v), ucast (drop_bit 24 v),
         ucast (drop_bit 32 v), ucast (drop_bit 40 v), ucast (drop_bit 48 v),
         ucast (drop_bit 56 v)])"

definition varint_get :: "bytes \<Rightarrow> nat \<Rightarrow> nat \<times> u64 option" where
  "varint_get p maxlen =
     (if maxlen < 1 then (0, None)
      else if p ! 0 = 0xfd then
        (if maxlen < 3 then (0, None)
         else (3, Some (push_bit 8 (ucast (p ! 2)) + ucast (p ! 1))))
      else if p ! 0 = 0xfe then
        (if maxlen < 5 then (0, None)
         else (5, Some (push_bit 24 (ucast (p ! 4)) + push_bit 16 (ucast (p ! 3))
                 + push_bit 8 (ucast (p ! 2)) + ucast (p ! 1))))
      else if p ! 0 = 0xff then
        (if maxlen < 9 then (0, None)
         else (9, Some (push_bit 56 (ucast (p ! 8)) + push_bit 48 (ucast (p ! 7))
                 + push_bit 40 (ucast (p ! 6)) + push_bit 32 (ucast (p ! 5))
                 + push_bit 24 (ucast (p ! 4)) + push_bit 16 (ucast (p ! 3))
                 + push_bit 8 (ucast (p ! 2)) + ucast (p ! 1))))
      else (1, Some (ucast (p ! 0))))"

section \<open>The contract\<close>

lemma varint_put_length: "length (varint_put v) = varint_size v"
  by (simp add: varint_put_def varint_size_def)

lemma varint_small:
  fixes v :: u64
  assumes "v < 0xfd"
  shows "ucast (ucast v :: u8) = v" "(ucast v :: u8) \<noteq> 0xfd \<and> (ucast v :: u8) \<noteq> 0xfe \<and> (ucast v :: u8) \<noteq> 0xff"
proof -
  have v: "v < 2 ^ 8" using assms by (simp add: word_less_nat_alt)
  have "le_word (le_bytes 1 v) = v"
    using take_bit_word_self_iff [of 8 v] v by (simp add: le_word_le_bytes_take)
  then show "ucast (ucast v :: u8) = v" by (simp add: le_bytes_def)
  have "unat (ucast v :: u8) = unat v"
    using v by (simp add: unsigned_ucast_eq take_bit_nat_eq_self_iff word_less_nat_alt)
  then show "(ucast v :: u8) \<noteq> 0xfd \<and> (ucast v :: u8) \<noteq> 0xfe \<and> (ucast v :: u8) \<noteq> 0xff"
    using assms by (auto simp: word_less_nat_alt)
qed

lemma varint_get_of_put:
  assumes "varint_size v \<le> n"
  shows "varint_get (varint_put v @ r) n = (varint_size v, Some v)"
proof -
  have le: "le_bytes 2 v = [ucast v, ucast (drop_bit 8 v)]"
    "le_bytes 4 v = [ucast v, ucast (drop_bit 8 v), ucast (drop_bit 16 v), ucast (drop_bit 24 v)]"
    "le_bytes 8 v = [ucast v, ucast (drop_bit 8 v), ucast (drop_bit 16 v), ucast (drop_bit 24 v),
       ucast (drop_bit 32 v), ucast (drop_bit 40 v), ucast (drop_bit 48 v), ucast (drop_bit 56 v)]"
    by (simp_all add: le_bytes_def upt_rec)
  have take: "v \<le> 0xffff \<Longrightarrow> take_bit 16 v = v" "v \<le> 0xffffffff \<Longrightarrow> take_bit 32 v = v"
    using take_bit_word_self_iff [of 16 v] take_bit_word_self_iff [of 32 v]
    by (simp_all add: word_less_nat_alt word_le_nat_alt)
  have b2: "push_bit 8 (ucast (ucast (drop_bit 8 v) :: u8)) + ucast (ucast v :: u8) = v" if "v \<le> 0xffff"
    using take(1) [OF that] le_word_le_bytes_take [of 2 v, where 'a = 64]
    by (simp add: le le_word_Cons_plus push_bit_add ac_simps del: le_word.simps(2))
  have b4: "push_bit 24 (ucast (ucast (drop_bit 24 v) :: u8)) + push_bit 16 (ucast (ucast (drop_bit 16 v) :: u8))
      + push_bit 8 (ucast (ucast (drop_bit 8 v) :: u8)) + ucast (ucast v :: u8) = v" if "v \<le> 0xffffffff"
    using take(2) [OF that] le_word_le_bytes_take [of 4 v, where 'a = 64]
    by (simp add: le le_word_Cons_plus push_bit_add ac_simps del: le_word.simps(2))
  have b8: "push_bit 56 (ucast (ucast (drop_bit 56 v) :: u8)) + push_bit 48 (ucast (ucast (drop_bit 48 v) :: u8))
      + push_bit 40 (ucast (ucast (drop_bit 40 v) :: u8)) + push_bit 32 (ucast (ucast (drop_bit 32 v) :: u8))
      + push_bit 24 (ucast (ucast (drop_bit 24 v) :: u8)) + push_bit 16 (ucast (ucast (drop_bit 16 v) :: u8))
      + push_bit 8 (ucast (ucast (drop_bit 8 v) :: u8)) + ucast (ucast v :: u8) = v"
    using le_word_le_bytes [of 8 v]
    by (simp add: le le_word_Cons_plus push_bit_add ac_simps del: le_word.simps(2))
  show ?thesis
    using assms varint_small b2 b4 b8
    by (auto simp: varint_get_def varint_put_def varint_size_def split: if_splits)
qed

interpretation varint: prefix_code varint_put varint_size varint_get
  by unfold_locales (auto simp: varint_put_length varint_get_of_put varint_size_def)

lemma varint_get_consumes: "varint_get p n = (k, v) \<Longrightarrow> k \<le> n \<and> (v = None \<longleftrightarrow> k = 0)"
  by (auto simp: varint_get_def split: if_splits)

section \<open>Properties\<close>

text \<open>\<open>varint_get\<close> reads back what \<open>varint_put\<close> wrote, whatever follows, consuming exactly
  \<open>varint_size\<close> bytes; and, unlike the reader of \<open>bigsize.c\<close>, it also accepts encodings that are
  not the shortest.\<close>

theorem varint_round_trip:
  "varint_get (varint_put v @ r) (varint_size v + n) = (length (varint_put v), Some v) \<and>
   varint_get [0xfe, 5, 0, 0, 0] 5 = (5, Some 5) \<and> varint_put 5 = [5]"
  using varint_get_of_put [of v "varint_size v + n" r] varint_put_length [of v]
  by (simp add: varint_get_def varint_put_def)

end
