(* ===== verification/Cursor_Varint.thy ===== *)
theory Cursor_Varint
  imports Cursor
begin

text \<open>
  The 7-bit variable-length integers of \<open>cursor.h\<close> (\<open>push_varint\<close>, \<open>pull_varint\<close>) and the
  length-prefixed strings built on them. The C type is \<open>int\<close>: 32 bits, shifted right with its
  sign. \<open>leb128\<close> is the encoding these functions implement for the non-negative values.
\<close>

lemma pull_byte_decreases:
  "pull_byte c m = (Some b, c') \<Longrightarrow> c_end c' - c_p c' < c_end c - c_p c"
  by (auto simp: pull_byte_def split: if_splits)

lemma cursor_push_byte_decreases:
  "cursor_push_byte c b m = (True, c', m') \<Longrightarrow> c_end c' - c_p c' < c_end c - c_p c"
  by (auto simp: cursor_push_byte_def split: if_splits)

text \<open>The loop of \<open>push_varint\<close>, \<open>len\<close> bytes in: each round pushes a byte or returns.\<close>

function push_varint_loop :: "nat \<Rightarrow> u32 \<Rightarrow> cursor \<Rightarrow> mem \<Rightarrow> nat \<times> cursor \<times> mem" where
  "push_varint_loop len n c m =
     (let b = ucast ((n AND 0xFF) OR 0x80);
          n = signed_drop_bit 7 n
      in if n = 0 then
           (case cursor_push_byte c (b AND 0x7F) m of
              (ok, c, m) \<Rightarrow> if ok then (len + 1, c, m) else (0, c, m))
         else
           (case cursor_push_byte c b m of
              (ok, c, m) \<Rightarrow> if ok then push_varint_loop (len + 1) n c m else (0, c, m)))"
  by pat_completeness auto
termination
  by (relation "measure (\<lambda>(len, n, c, m). c_end c - c_p c)")
     (auto simp: cursor_push_byte_def split: if_splits)

declare push_varint_loop.simps [simp del]

definition push_varint :: "cursor \<Rightarrow> u32 \<Rightarrow> mem \<Rightarrow> nat \<times> cursor \<times> mem" where
  "push_varint c n m = push_varint_loop 0 n c m"

text \<open>
  The loop of \<open>pull_varint\<close>: the result is the returned value, what the out-parameter holds
  and the cursor.
\<close>

function pull_varint_loop :: "mem \<Rightarrow> nat \<Rightarrow> u32 \<Rightarrow> cursor \<Rightarrow> nat \<times> u32 \<times> cursor" where
  "pull_varint_loop m i n c =
     (case pull_byte c m of
        (None, c) \<Rightarrow> (0, n, c)
      | (Some b, c) \<Rightarrow>
          (let n = n OR push_bit (i * 7) (ucast b AND 0x7F)
           in if b AND 0x80 = 0 then (i + 1, n, c)
              else if i = 4 then (0, n, c)
              else pull_varint_loop m (i + 1) n c))"
  by pat_completeness auto
termination
  by (relation "measure (\<lambda>(m, i, n, c). c_end c - c_p c)") (auto dest!: pull_byte_decreases [OF sym])

declare pull_varint_loop.simps [simp del]

definition pull_varint :: "cursor \<Rightarrow> mem \<Rightarrow> nat \<times> u32 \<times> cursor" where
  "pull_varint c m = pull_varint_loop m 0 0 c"

definition push_prefixed_str :: "cursor \<Rightarrow> bytes \<Rightarrow> mem \<Rightarrow> (bool \<times> cursor \<times> mem) option" where
  "push_prefixed_str c str m =
     (let len = of_nat (length str) :: u32
      in case push_varint c len m of
           (ok, c, m) \<Rightarrow>
             if ok = 0 then Some (False, c, m) else push_sized_str c str (sint len) m)"

text \<open>
  The result of the last \<open>cursor_push_byte\<close> is dropped, so a full destination loses the
  terminator. The string is the address in the destination where it was copied.
\<close>

definition pull_prefixed_str ::
  "cursor \<Rightarrow> cursor \<Rightarrow> mem \<Rightarrow> (addr option \<times> cursor \<times> cursor \<times> mem) option" where
  "pull_prefixed_str c dest m =
     (case pull_varint c m of
        (ok, n, c) \<Rightarrow>
          (let len = sint n
           in if ok = 0 then Some (None, c, dest, m)
              else if int (c_p dest) + len > int (c_end dest) then Some (None, c, dest, m)
              else case pull_data_into_cursor c dest len m of
                None \<Rightarrow> None
              | Some (None, c, dest, m) \<Rightarrow> Some (None, c, dest, m)
              | Some (Some str, c, dest, m) \<Rightarrow>
                  (case cursor_push_byte dest 0 m of
                     (_, dest, m) \<Rightarrow> Some (Some str, c, dest, m))))"

section \<open>The encoding\<close>

function leb128 :: "u32 \<Rightarrow> bytes" where
  "leb128 n =
     (if drop_bit 7 n = 0 then [ucast n AND 0x7F]
      else (ucast n OR 0x80) # leb128 (drop_bit 7 n))"
  by pat_completeness auto
termination
proof (relation "measure unat")
  fix n :: u32 assume n: "drop_bit 7 n \<noteq> 0"
  have eq: "unat (drop_bit 7 n) = drop_bit 7 (unat n)" by (rule unat_drop_bit_eq)
  moreover have "n \<noteq> 0" using n by auto
  then have "0 < unat n" by (simp add: unat_gt_0)
  ultimately have "unat (drop_bit 7 n) < unat n" by(simp add: drop_bit_eq_div)
  then show "(drop_bit 7 n, n) \<in> measure unat" by simp
qed simp

declare leb128.simps [simp del]

lemma leb128_not_Nil [simp]: "leb128 n \<noteq> []"
  by (subst leb128.simps) simp

lemma signed_drop_bit_nonneg:
  assumes "\<not> bit n 31"
  shows "signed_drop_bit 7 n = drop_bit 7 (n :: u32)"
proof (rule bit_word_eqI)
  fix i assume "i < LENGTH(32)"
  then show "bit (signed_drop_bit 7 n) i = bit (drop_bit 7 n) i"
    using assms by (auto simp: bit_signed_drop_bit_iff bit_drop_bit_eq dest: bit_imp_le_length)
qed

lemma leb128_length: "drop_bit (7 * k) n = 0 \<Longrightarrow> 0 < k \<Longrightarrow> length (leb128 n) \<le> k"
proof (induction k arbitrary: n)
  case 0
  then show ?case by simp
next
  case (Suc k)
  show ?case
  proof (cases "drop_bit 7 n = 0")
    case True
    then show ?thesis by (subst leb128.simps) simp
  next
    case False
    have "drop_bit (7 * k) (drop_bit 7 n) = 0"
      using Suc.prems(1) by (simp only: drop_bit_drop_bit) (simp add: add.commute)
    moreover have "0 < k" using Suc.prems(1) False by (cases k) simp_all
    ultimately show ?thesis using Suc.IH [of "drop_bit 7 n"] False
      by (subst leb128.simps) simp
  qed
qed

lemma leb128_length_5: "length (leb128 n) \<le> 5"
proof (rule leb128_length)
  show "drop_bit (7 * 5) n = 0" by (rule bit_word_eqI) (auto simp: bit_drop_bit_eq dest: bit_imp_le_length)
qed simp

section \<open>The groups of seven bits\<close>

lemma bit_0x80: "bit (0x80 :: 'a::len word) i \<longleftrightarrow> i < LENGTH('a) \<and> i = 7"
proof -
  have "bit (push_bit 7 (1 :: 'a word)) i \<longleftrightarrow> i < LENGTH('a) \<and> i = 7"
    by (simp add: bit_push_bit_iff bit_1_iff del: push_bit_of_1) auto
  then show ?thesis by (simp add: push_bit_of_1)
qed

lemma bit_0x80_int: "bit (0x80 :: int) i \<longleftrightarrow> i = 7"
proof -
  have "bit (push_bit 7 (1 :: int)) i \<longleftrightarrow> i = 7"
    by (simp add: bit_push_bit_iff bit_1_iff del: push_bit_of_1) auto
  then show ?thesis by (simp add: push_bit_of_1)
qed

lemma varint_bytes:
  fixes n :: u32
  shows "(ucast ((n AND 0xFF) OR 0x80) :: u8) = ucast n OR 0x80"
    and "(ucast n OR 0x80) AND (0x7F :: u8) = ucast n AND 0x7F"
    and "(ucast n AND 0x7F) AND (0x80 :: u8) = 0"
    and "(ucast n OR 0x80) AND (0x80 :: u8) = 0x80"
proof -
  have m8: "(0xFF :: u32) = mask 8" by (simp add: mask_eq_decr_exp)
  have m7: "(0x7F :: u8) = mask 7" by (simp add: mask_eq_decr_exp)
  show "(ucast ((n AND 0xFF) OR 0x80) :: u8) = ucast n OR 0x80"
    unfolding m8 by (rule bit_word_eqI) (auto simp: bit_simps)
  show "(ucast n OR 0x80) AND (0x7F :: u8) = ucast n AND 0x7F"
    unfolding m7 by (rule bit_word_eqI) (auto simp: bit_and_iff bit_or_iff bit_ucast_iff bit_mask_iff bit_0x80 bit_0x80_int)
  show "(ucast n AND 0x7F) AND (0x80 :: u8) = 0"
    unfolding m7 by (rule bit_word_eqI) (auto simp: bit_and_iff bit_or_iff bit_ucast_iff bit_mask_iff bit_0x80 bit_0x80_int)
  show "(ucast n OR 0x80) AND (0x80 :: u8) = 0x80"
    by (rule bit_word_eqI) (auto simp: bit_and_iff bit_or_iff)
qed

lemma varint_group:
  fixes n :: u32
  shows "ucast (ucast n AND (0x7F :: u8)) AND 0x7F = take_bit 7 n"
    and "ucast (ucast n OR (0x80 :: u8)) AND 0x7F = take_bit 7 n"
proof -
  have m7: "(0x7F :: u8) = mask 7" "(0x7F :: u32) = mask 7"
    by (simp_all add: mask_eq_decr_exp)
  show "ucast (ucast n AND (0x7F :: u8)) AND 0x7F = take_bit 7 n"
    "ucast (ucast n OR (0x80 :: u8)) AND 0x7F = take_bit 7 n"
    unfolding m7 by (rule bit_word_eqI; auto simp: bit_and_iff bit_or_iff bit_ucast_iff bit_mask_iff bit_take_bit_iff bit_0x80 bit_0x80_int)+
qed

lemma varint_join:
  fixes n :: u32
  shows "push_bit k (take_bit 7 n) OR push_bit (k + 7) (drop_bit 7 n) = push_bit k n"
proof (rule bit_word_eqI)
  fix i assume "i < LENGTH(32)"
  have "7 + (i - (k + 7)) = i - k" if "\<not> i - k < 7" using that by simp
  then show "bit (push_bit k (take_bit 7 n) OR push_bit (k + 7) (drop_bit 7 n)) i = bit (push_bit k n) i"
    using \<open>i < LENGTH(32)\<close> by (cases "i - k < 7") (auto simp: bit_simps)
qed

section \<open>Writing and reading back\<close>

lemma push_varint_loop_fits:
  "\<not> bit n 31 \<Longrightarrow> c_p c + length (leb128 n) \<le> c_end c \<Longrightarrow>
   push_varint_loop len n c m =
     (len + length (leb128 n), c\<lparr>c_p := c_p c + length (leb128 n)\<rparr>, mwrite m (c_p c) (leb128 n))"
proof (induction n arbitrary: c m len rule: leb128.induct)
  case (1 n)
  show ?case
  proof (cases "drop_bit 7 n = 0")
    case True
    then show ?thesis using 1(2,3)
      by (simp add: push_varint_loop.simps [of len n] leb128.simps [of n] signed_drop_bit_nonneg
          varint_bytes cursor_push_byte_def Let_def)
  next
    case False
    let ?c = "c\<lparr>c_p := c_p c + 1\<rparr>" and ?b = "ucast n OR 0x80"
    have leb: "leb128 n = ?b # leb128 (drop_bit 7 n)" using False by (subst leb128.simps) simp
    have nb: "\<not> bit (drop_bit 7 n) 31" by (auto simp: bit_drop_bit_eq dest: bit_imp_le_length)
    have room: "c_p ?c + length (leb128 (drop_bit 7 n)) \<le> c_end ?c" using 1(3) leb by simp
    have IH: "push_varint_loop (len + 1) (drop_bit 7 n) ?c (mwrite m (c_p c) [?b]) =
      (len + 1 + length (leb128 (drop_bit 7 n)),
       ?c\<lparr>c_p := c_p ?c + length (leb128 (drop_bit 7 n))\<rparr>,
       mwrite (mwrite m (c_p c) [?b]) (c_p ?c) (leb128 (drop_bit 7 n)))"
      by (rule 1(1) [OF False nb room])
    have w: "mwrite (mwrite m (c_p c) [?b]) (c_p c + 1) bs = mwrite m (c_p c) (?b # bs)" for bs
      using mwrite_mwrite_append [of m "c_p c" "[?b]" bs] by simp
    have "cursor_push_byte c ?b m = (True, ?c, mwrite m (c_p c) [?b])"
      using 1(3) leb by (simp add: cursor_push_byte_def)
    then show ?thesis using IH False 1(2) leb w
      by (simp add: push_varint_loop.simps [of len n] signed_drop_bit_nonneg varint_bytes Let_def)
  qed
qed

lemma push_varint_loop_full:
  "(bit n 31 \<or> c_end c < c_p c + length (leb128 n)) \<Longrightarrow> fst (push_varint_loop len n c m) = 0"
proof (induction len n c m rule: push_varint_loop.induct)
  case (1 len n c m)
  let ?n = "signed_drop_bit 7 n"
  have sign: "bit ?n 31 = bit n 31" by (simp add: bit_signed_drop_bit_iff)
  show ?case
  proof (cases "?n = 0")
    case True
    then have nb: "\<not> bit n 31" using sign by auto
    then have "length (leb128 n) = 1"
      using True by (subst leb128.simps) (simp add: signed_drop_bit_nonneg)
    with 1(2) nb True show ?thesis
      by (simp add: push_varint_loop.simps [of len n] Let_def cursor_push_byte_def)
  next
    case False
    show ?thesis
    proof (cases "c_p c + 1 \<le> c_end c")
      case True
      let ?b = "ucast ((n AND 0xFF) OR 0x80) :: u8"
      have push: "cursor_push_byte c ?b m = (True, c\<lparr>c_p := c_p c + 1\<rparr>, mwrite m (c_p c) [?b])"
        using True by (simp add: cursor_push_byte_def)
      have "bit ?n 31 \<or> c_end c < c_p c + 1 + length (leb128 ?n)"
      proof (cases "bit n 31")
        case nb: False
        then have "length (leb128 n) = 1 + length (leb128 ?n)"
          using False by (subst leb128.simps) (simp add: signed_drop_bit_nonneg)
        then show ?thesis using 1(2) nb by simp
      qed (simp add: sign)
      then have "fst (push_varint_loop (len + 1) ?n (c\<lparr>c_p := c_p c + 1\<rparr>) (mwrite m (c_p c) [?b])) = 0"
        using 1(1) [OF refl refl False push [symmetric] refl] by simp
      then show ?thesis using False push
        by (simp add: push_varint_loop.simps [of len n] Let_def)
    next
      case full: False
      then show ?thesis using False
        by (simp add: push_varint_loop.simps [of len n] Let_def cursor_push_byte_def)
    qed
  qed
qed

lemma pull_varint_loop_leb128:
  "i + length (leb128 n) \<le> 5 \<Longrightarrow> c_p c + length (leb128 n) \<le> c_end c \<Longrightarrow>
   mread m (c_p c) (length (leb128 n)) = leb128 n \<Longrightarrow>
   pull_varint_loop m i acc c =
     (i + length (leb128 n), acc OR push_bit (i * 7) n, c\<lparr>c_p := c_p c + length (leb128 n)\<rparr>)"
proof (induction n arbitrary: i acc c rule: leb128.induct)
  case (1 n)
  show ?case
  proof (cases "drop_bit 7 n = 0")
    case True
    then have leb: "leb128 n = [ucast n AND 0x7F]" by (subst leb128.simps) simp
    then have "m (c_p c) = ucast n AND 0x7F" using 1(4) by (simp add: mread_Suc)
    moreover have "take_bit 7 n = n" using True by (simp add: take_bit_eq_self_iff_drop_bit_eq_0)
    ultimately show ?thesis using 1(3) leb
      by (simp add: pull_varint_loop.simps [of m i] pull_byte_def varint_bytes varint_group Let_def)
  next
    case False
    let ?c = "c\<lparr>c_p := c_p c + 1\<rparr>"
    have leb: "leb128 n = (ucast n OR 0x80) # leb128 (drop_bit 7 n)"
      using False by (subst leb128.simps) simp
    then have b: "m (c_p c) = ucast n OR 0x80"
      and tl: "mread m (c_p ?c) (length (leb128 (drop_bit 7 n))) = leb128 (drop_bit 7 n)"
      using 1(4) by (simp_all add: mread_Suc)
    have i: "i + 1 + length (leb128 (drop_bit 7 n)) \<le> 5" using 1(2) leb by simp
    moreover have "0 < length (leb128 (drop_bit 7 n))" by simp
    ultimately have i4: "i \<noteq> 4" by linarith
    have room: "c_p ?c + length (leb128 (drop_bit 7 n)) \<le> c_end ?c" using 1(3) leb by simp
    have IH: "pull_varint_loop m (i + 1) (acc OR push_bit (i * 7) (take_bit 7 n)) ?c =
      (i + 1 + length (leb128 (drop_bit 7 n)),
       (acc OR push_bit (i * 7) (take_bit 7 n)) OR push_bit ((i + 1) * 7) (drop_bit 7 n),
       ?c\<lparr>c_p := c_p ?c + length (leb128 (drop_bit 7 n))\<rparr>)"
      by (rule 1(1) [OF False i room tl])
    have "(acc OR push_bit (i * 7) (take_bit 7 n)) OR push_bit ((i + 1) * 7) (drop_bit 7 n) =
        acc OR push_bit (i * 7) n"
      using varint_join [of "i * 7" n] by (simp add: or.assoc algebra_simps)
    then show ?thesis using IH b i4 room leb
      by (simp add: pull_varint_loop.simps [of m i] pull_byte_def varint_bytes varint_group Let_def)
  qed
qed

lemma push_varint_fits:
  "n < 2 ^ 31 \<Longrightarrow> c_p c + length (leb128 n) \<le> c_end c \<Longrightarrow>
   push_varint c n m =
     (length (leb128 n), c\<lparr>c_p := c_p c + length (leb128 n)\<rparr>, mwrite m (c_p c) (leb128 n))"
proof -
  assume n: "n < 2 ^ 31" and room: "c_p c + length (leb128 n) \<le> c_end c"
  have "take_bit 31 n = n" using n take_bit_word_self_iff [of 31 n] by simp
  then have "\<not> bit n 31" by (metis bit_take_bit_iff less_irrefl)
  then show ?thesis using push_varint_loop_fits [OF _ room] by (simp add: push_varint_def)
qed

lemma pull_varint_leb128:
  "c_p c + length (leb128 n) \<le> c_end c \<Longrightarrow> mread m (c_p c) (length (leb128 n)) = leb128 n \<Longrightarrow>
   pull_varint c m = (length (leb128 n), n, c\<lparr>c_p := c_p c + length (leb128 n)\<rparr>)"
  using pull_varint_loop_leb128 [of 0 n c m 0] leb128_length_5 by (simp add: pull_varint_def)

lemma pull_varint_loop_bound:
  "pull_varint_loop m i n c = (k, v, c') \<Longrightarrow> i \<le> 4 \<Longrightarrow> c_p c \<le> c_end c \<Longrightarrow>
   k \<le> 5 \<and> c_start c' = c_start c \<and> c_end c' = c_end c \<and> c_p c \<le> c_p c' \<and> c_p c' \<le> c_end c \<and>
   c_p c' \<le> c_p c + (5 - i)"
proof (induction m i n c rule: pull_varint_loop.induct)
  case (1 m i n c)
  show ?case
  proof (cases "pull_byte c m")
    case (Pair r c1)
    show ?thesis
    proof (cases r)
      case None
      then show ?thesis using Pair 1(2,4)
        by (subst (asm) pull_varint_loop.simps) (auto simp: pull_byte_def split: if_splits)
    next
      case (Some b)
      have c1: "c1 = c\<lparr>c_p := c_p c + 1\<rparr>" "c_p c + 1 \<le> c_end c"
        using Pair Some by (auto simp: pull_byte_def split: if_splits)
      show ?thesis
      proof (cases "b AND 0x80 = 0 \<or> i = 4")
        case True
        then show ?thesis using Pair Some 1(2,3) c1
          by (subst (asm) pull_varint_loop.simps) (auto simp: Let_def split: if_splits)
      next
        case False
        then have "pull_varint_loop m (i + 1) (n OR push_bit (i * 7) (ucast b AND 0x7F)) c1 = (k, v, c')"
          using Pair Some 1(2) by (subst (asm) pull_varint_loop.simps) (simp add: Let_def)
        then have "k \<le> 5 \<and> c_start c' = c_start c1 \<and> c_end c' = c_end c1 \<and> c_p c1 \<le> c_p c' \<and>
            c_p c' \<le> c_end c1 \<and> c_p c' \<le> c_p c1 + (5 - (i + 1))"
          using 1(1) [OF Pair [symmetric] Some refl] False 1(3) c1 by simp
        then show ?thesis using c1 False 1(3) by auto
      qed
    qed
  qed
qed

section \<open>Length-prefixed strings\<close>

lemma of_nat_u32: "n < 2 ^ 31 \<Longrightarrow> (of_nat n :: u32) < 2 ^ 31" "n < 2 ^ 31 \<Longrightarrow> sint (of_nat n :: u32) = int n"
proof -
  assume n: "n < 2 ^ 31"
  then have "unat (of_nat n :: u32) = n" by (simp add: unsigned_of_nat take_bit_nat_eq_self)
  then show "(of_nat n :: u32) < 2 ^ 31" using n by (simp add: word_less_nat_alt)
  show "sint (of_nat n :: u32) = int n" using c_int_small [OF n] by (simp add: c_int_def)
qed

definition str_prefix :: "bytes \<Rightarrow> bytes" where
  "str_prefix str = leb128 (of_nat (length str))"

lemma push_prefixed_str_fits:
  assumes "length str < 2 ^ 31" "c_p c + length (str_prefix str @ str) < c_end c"
  shows "push_prefixed_str c str m =
    Some (True, c\<lparr>c_p := c_p c + length (str_prefix str @ str)\<rparr>, mwrite m (c_p c) (str_prefix str @ str))"
proof -
  have "c_p c + length (leb128 (of_nat (length str))) \<le> c_end c"
    using assms(2) by (simp add: str_prefix_def)
  from push_varint_fits [OF of_nat_u32(1) [OF assms(1)] this] show ?thesis
    using assms by (simp add: push_prefixed_str_def push_sized_str_def cursor_push_def of_nat_u32
        str_prefix_def mwrite_mwrite_append add.assoc Let_def)
qed

lemma pull_prefixed_str_reads:
  assumes "length str < 2 ^ 31" "c_p c + length (str_prefix str @ str) \<le> c_end c"
    and "mread m (c_p c) (length (str_prefix str @ str)) = str_prefix str @ str"
    and "c_p d + length str < c_end d"
  shows "pull_prefixed_str c d m =
    Some (Some (c_p d), c\<lparr>c_p := c_p c + length (str_prefix str @ str)\<rparr>,
      d\<lparr>c_p := c_p d + length str + 1\<rparr>, mwrite m (c_p d) (str @ [0]))"
proof -
  let ?l = "length (str_prefix str)"
  have m: "mread m (c_p c) ?l = str_prefix str" "mread m (c_p c + ?l) (length str) = str"
    using assms(3) by (simp_all add: mread_add)
  have "c_p c + length (leb128 (of_nat (length str))) \<le> c_end c"
      "mread m (c_p c) (length (leb128 (of_nat (length str)))) = leb128 (of_nat (length str))"
    using assms(2) m(1) by (simp_all add: str_prefix_def)
  from pull_varint_leb128 [OF this]
  have "pull_varint c m = (?l, of_nat (length str), c\<lparr>c_p := c_p c + ?l\<rparr>)" by (simp add: str_prefix_def)
  moreover have "0 < ?l" by (simp add: str_prefix_def)
  ultimately show ?thesis using assms(1,2,4) m(2)
    by (simp add: pull_prefixed_str_def of_nat_u32 pull_data_into_cursor_def cursor_pull_def
        cursor_push_byte_def mwrite_mwrite_append add.assoc)
qed

section \<open>Properties\<close>

text \<open>A string written with \<open>push_prefixed_str\<close> and read with \<open>pull_prefixed_str\<close> through a cursor at
  the same place arrives unchanged, with its terminator, in the destination's buffer, and both
  cursors advance by what was read and written.\<close>

theorem prefixed_str_round_trip:
  assumes "length str < 2 ^ 31" "c_p c + length (str_prefix str @ str) < c_end c" "c_p d + length str < c_end d"
  shows "\<exists>c' m' m''. push_prefixed_str c str m = Some (True, c', m') \<and>
    pull_prefixed_str c d m' = Some (Some (c_p d), c', d\<lparr>c_p := c_p d + length str + 1\<rparr>, m'') \<and>
    mread m'' (c_p d) (length str + 1) = str @ [0]"
proof -
  let ?enc = "str_prefix str @ str" and ?m = "mwrite m (c_p c) (str_prefix str @ str)"
  have "mread ?m (c_p c) (length ?enc) = ?enc" by simp
  from pull_prefixed_str_reads [OF assms(1) _ this assms(3)] assms(2)
  have "pull_prefixed_str c d ?m = Some (Some (c_p d), c\<lparr>c_p := c_p c + length ?enc\<rparr>,
      d\<lparr>c_p := c_p d + length str + 1\<rparr>, mwrite ?m (c_p d) (str @ [0]))" by simp
  moreover have "mread (mwrite ?m (c_p d) (str @ [0])) (c_p d) (length str + 1) = str @ [0]" by simp
  ultimately show ?thesis using push_prefixed_str_fits [OF assms(1,2)] by blast
qed

theorem prefixed_str_round_trip_witness:
  "\<exists>c' m' m''. push_prefixed_str (make_cursor 0 100) (ascii ''lnsocket'') (\<lambda>_. 0) = Some (True, c', m') \<and>
    pull_prefixed_str (make_cursor 0 100) (make_cursor 100 200) m' =
      Some (Some (c_p (make_cursor 100 200)), c',
        make_cursor 100 200\<lparr>c_p := c_p (make_cursor 100 200) + length (ascii ''lnsocket'') + 1\<rparr>, m'') \<and>
    mread m'' (c_p (make_cursor 100 200)) (length (ascii ''lnsocket'') + 1) = ascii ''lnsocket'' @ [0]"
proof (rule prefixed_str_round_trip)
  show "length (ascii ''lnsocket'') < 2 ^ 31" by simp
  have "length (str_prefix (ascii ''lnsocket'')) \<le> 5" using leb128_length_5 by (simp add: str_prefix_def)
  then show "c_p (make_cursor 0 100) + length (str_prefix (ascii ''lnsocket'') @ ascii ''lnsocket'') < c_end (make_cursor 0 100)"
    by (simp add: make_cursor_def)
  show "c_p (make_cursor 100 200) + length (ascii ''lnsocket'') < c_end (make_cursor 100 200)"
    by (simp add: make_cursor_def)
qed

text \<open>The loop of \<open>push_varint\<close> always ends: for a non-negative \<open>n\<close> it writes the 7-bit groups of \<open>n\<close> when
  they fit and returns their number, at most 5, which \<open>pull_varint\<close> reads back; for a negative
  \<open>n\<close>, and when there is no room, it returns 0.\<close>

theorem push_varint_total:
  "(if n < 2 ^ 31 \<and> c_p c + length (leb128 n) \<le> c_end c
    then (\<exists>c' m'. push_varint c n m = (length (leb128 n), c', m') \<and> length (leb128 n) \<le> 5 \<and>
           pull_varint c m' = (length (leb128 n), n, c'))
    else fst (push_varint c n m) = 0)"
proof (cases "n < 2 ^ 31 \<and> c_p c + length (leb128 n) \<le> c_end c")
  case True
  then show ?thesis
    using push_varint_fits [of n c m] pull_varint_leb128 [of c n "mwrite m (c_p c) (leb128 n)"] leb128_length_5
    by simp
next
  case False
  have "bit n 31" if "\<not> n < 2 ^ 31"
  proof (rule ccontr)
    assume "\<not> bit n 31"
    have "take_bit 31 n = n"
    proof (rule bit_word_eqI)
      fix i assume "i < LENGTH(32)"
      then have "i = 31 \<or> i < 31" by auto
      then show "bit (take_bit 31 n) i = bit n i" using \<open>\<not> bit n 31\<close> by (auto simp: bit_take_bit_iff)
    qed
    then show False using that take_bit_word_self_iff [of 31 n] by simp
  qed
  then have "bit n 31 \<or> c_end c < c_p c + length (leb128 n)" using False by auto
  then have "fst (push_varint c n m) = 0" unfolding push_varint_def by (rule push_varint_loop_full)
  then show ?thesis unfolding if_not_P [OF False] .
qed

end
